(* ===== verification/Prelude.thy ===== *)
theory Prelude
  imports Main "HOL-Library.Word"
begin

text \<open>
  Shared ground of the development: the machine integer types of the Rust code as words,
  the integer operations of the Rust standard library the code calls (saturating and
  checked arithmetic, big-endian byte conversion), the fixed array
  \<open>[u8; 8]\<close>, the generic lemmas on lists, bytes and results the components share, and a contract
  of operations that keep an invariant.

  Conventions: a \<open>Result<T, E>\<close> is \<open>'e + 't\<close> with \<open>Inl\<close> for \<open>Err\<close> and
  \<open>Inr\<close> for \<open>Ok\<close>; an \<open>Option\<close> is \<open>option\<close>; a byte slice or \<open>Vec<u8>\<close> is
  an \<open>8 word list\<close>; a \<open>usize\<close> that counts elements of a container in memory is
  a \<open>nat\<close>; every other unsigned or signed integer keeps its width as a word.
\<close>

unbundle bit_operations_syntax

section \<open>Types and collections of facts\<close>

type_synonym u8 = "8 word"
type_synonym u16 = "16 word"
type_synonym u32 = "32 word"
type_synonym u64 = "64 word"
type_synonym i16 = "16 word"
type_synonym i32 = "32 word"
type_synonym i64 = "64 word"
type_synonym bytes = "8 word list"

named_theorems be_simps \<open>big-endian byte conversions\<close>
named_theorems sat_simps \<open>saturating and checked arithmetic\<close>

section \<open>Integer operations of the standard library\<close>

text \<open>\<open>saturating_add\<close> and \<open>saturating_sub\<close> on an unsigned type.\<close>

definition saturating_add :: "'a::len word \<Rightarrow> 'a word \<Rightarrow> 'a word" where
  "saturating_add a b = (if unat a + unat b < 2 ^ LENGTH('a) then a + b else - 1)"

definition saturating_sub :: "'a::len word \<Rightarrow> 'a word \<Rightarrow> 'a word" where
  "saturating_sub a b = (if b \<le> a then a - b else 0)"

text \<open>\<open>checked_sub\<close> on an unsigned type.\<close>

definition checked_sub :: "'a::len word \<Rightarrow> 'a word \<Rightarrow> 'a word option" where
  "checked_sub a b = (if b \<le> a then Some (a - b) else None)"

lemma unat_saturating_add [sat_simps]:
  fixes a b :: "'a::len word"
  shows "unat (saturating_add a b) = min (unat a + unat b) (2 ^ LENGTH('a) - 1)"
proof (cases "unat a + unat b < 2 ^ LENGTH('a)")
  case True
  then have "unat (a + b) = unat a + unat b"
    by (simp add: unat_word_ariths)
  with True show ?thesis by (simp add: saturating_add_def)
next
  case False
  then show ?thesis by (simp add: saturating_add_def unsigned_minus_1_eq_mask mask_eq_exp_minus_1)
qed

lemma unat_saturating_sub [sat_simps]:
  "unat (saturating_sub a b) = unat a - unat b"
  by (auto simp: saturating_sub_def word_le_nat_alt unat_sub_if')

lemma checked_sub_Some [sat_simps]:
  "checked_sub a b = Some c \<longleftrightarrow> unat b \<le> unat a \<and> c = a - b"
  by (auto simp: checked_sub_def word_le_nat_alt)

lemma checked_sub_None [sat_simps]:
  "checked_sub a b = None \<longleftrightarrow> unat a < unat b"
  by (auto simp: checked_sub_def word_le_nat_alt)

lemma unat_diff [sat_simps]:
  "unat b \<le> unat a \<Longrightarrow> unat (a - b) = unat a - unat b"
  by (simp add: unat_sub_if')

section \<open>Big-endian byte conversion\<close>

text \<open>
  The value of a big-endian byte string, and the \<open>n\<close> low bytes of a number in big-endian
  order: \<open>from_be_bytes\<close> and \<open>to_be_bytes\<close> of every width are instances.
\<close>

definition nat_of_be :: "bytes \<Rightarrow> nat" where
  "nat_of_be bs = foldl (\<lambda>acc b. acc * 256 + unat b) 0 bs"

primrec be_of_nat :: "nat \<Rightarrow> nat \<Rightarrow> bytes" where
  "be_of_nat 0 x = []"
| "be_of_nat (Suc n) x = be_of_nat n (x div 256) @ [of_nat x]"

lemma nat_of_be_Nil [simp]: "nat_of_be [] = 0"
  by (simp add: nat_of_be_def)

lemma nat_of_be_snoc [simp]: "nat_of_be (bs @ [b]) = nat_of_be bs * 256 + unat b"
  by (simp add: nat_of_be_def)

lemma length_be_of_nat [simp]: "length (be_of_nat n x) = n"
  by (induction n arbitrary: x) auto

lemma unat_u8_less: "unat (b :: u8) < 256"
  using unsigned_less [of b] by simp

lemma unat_u16_less: "unat (w :: u16) < 65536"
  using unsigned_less [of w] by simp

lemma unat_u32_less: "unat (w :: u32) < 4294967296"
  using unsigned_less [of w] by simp

lemma unat_u64_less: "unat (w :: u64) < 18446744073709551616"
  using unsigned_less [of w] by simp

lemma nat_of_be_less [be_simps]: "nat_of_be bs < 256 ^ length bs"
proof (induction bs rule: rev_induct)
  case Nil
  show ?case by simp
next
  case (snoc b bs)
  then have "nat_of_be bs * 256 + 256 \<le> 256 ^ length bs * 256" by simp
  with unat_u8_less [of b] show ?case by simp
qed

lemma unat_of_nat_u8: "unat (of_nat x :: u8) = x mod 256"
  by (simp add: unat_of_nat)

lemma nat_of_be_of_nat [be_simps]: "nat_of_be (be_of_nat n x) = x mod 256 ^ n"
proof (induction n arbitrary: x)
  case 0
  show ?case by simp
next
  case (Suc n)
  have "nat_of_be (be_of_nat (Suc n) x) = (x div 256) mod 256 ^ n * 256 + x mod 256"
    by (simp add: Suc.IH unat_of_nat_u8)
  also have "\<dots> = x mod (256 * 256 ^ n)"
    by (simp add: mod_mult2_eq)
  finally show ?case by simp
qed

lemma be_of_nat_of_be [be_simps]: "be_of_nat (length bs) (nat_of_be bs) = bs"
proof (induction bs rule: rev_induct)
  case Nil
  show ?case by simp
next
  case (snoc b bs)
  have q: "(nat_of_be bs * 256 + unat b) div 256 = nat_of_be bs"
    using unat_u8_less [of b] by simp
  have r: "(of_nat (nat_of_be bs * 256 + unat b) :: u8) = b"
    by (rule word_unat_eq_iff [THEN iffD2]) (simp add: unat_of_nat_u8 unat_u8_less del: of_nat_add of_nat_mult)
  show ?case using snoc q r by (simp del: of_nat_add of_nat_mult)
qed

lemma nat_of_be_inject:
  assumes "length bs = length cs"
  shows "nat_of_be bs = nat_of_be cs \<longleftrightarrow> bs = cs"
proof
  assume "nat_of_be bs = nat_of_be cs"
  then have "be_of_nat (length bs) (nat_of_be bs) = be_of_nat (length cs) (nat_of_be cs)"
    using assms by simp
  then show "bs = cs" by (simp only: be_of_nat_of_be)
qed simp

text \<open>\<open>u16::from_be_bytes\<close>, \<open>u32::from_be_bytes\<close> and \<open>u64::from_be_bytes\<close>.\<close>

definition from_be :: "bytes \<Rightarrow> 'a::len word" where
  "from_be bs = of_nat (nat_of_be bs)"

definition u16_to_be :: "u16 \<Rightarrow> bytes" where
  "u16_to_be w = be_of_nat 2 (unat w)"

definition u32_to_be :: "u32 \<Rightarrow> bytes" where
  "u32_to_be w = be_of_nat 4 (unat w)"

lemma be_of_nat_numeral:
  "be_of_nat (numeral k) x = be_of_nat (pred_numeral k) (x div 256) @ [of_nat x]"
  using be_of_nat.simps(2) [of "pred_numeral k" x] by (simp only: numeral_eq_Suc [symmetric])

lemmas be_of_nat_unroll = be_of_nat_numeral div_mult2_eq [symmetric]

lemma be_of_nat_2: "be_of_nat 2 x = [of_nat (x div 256), of_nat x]"
  by (simp add: be_of_nat_unroll del: of_nat_div)

lemma be_of_nat_4:
  "be_of_nat 4 x = [of_nat (x div 16777216), of_nat (x div 65536), of_nat (x div 256), of_nat x]"
  by (simp add: be_of_nat_unroll del: of_nat_div)

lemma unat_from_be [be_simps]:
  assumes "8 * length bs \<le> LENGTH('a)"
  shows "unat (from_be bs :: 'a::len word) = nat_of_be bs"
proof -
  have "nat_of_be bs < 2 ^ (8 * length bs)"
    using nat_of_be_less [of bs] by (simp add: power_mult)
  also have "\<dots> \<le> 2 ^ LENGTH('a)"
    using assms by (rule power_increasing) simp
  finally show ?thesis by (simp add: from_be_def unat_of_nat)
qed

lemma length_u16_to_be [simp]: "length (u16_to_be w) = 2"
  by (simp add: u16_to_be_def)

lemma length_u32_to_be [simp]: "length (u32_to_be w) = 4"
  by (simp add: u32_to_be_def)

lemma from_be_u16_to_be [simp]: "from_be (u16_to_be w) = (w :: u16)"
  by (simp add: from_be_def u16_to_be_def nat_of_be_of_nat unat_u16_less)

lemma from_be_u32_to_be [simp]: "from_be (u32_to_be w) = (w :: u32)"
  by (simp add: from_be_def u32_to_be_def nat_of_be_of_nat unat_u32_less)

section \<open>Fixed arrays of eight bytes\<close>

text \<open>
  The Rust type \<open>[u8; 8]\<close>, used for an EntryID and for a UtcTime: exactly eight bytes,
  so that no length side condition is needed. \<open>bytes8\<close> reads it as a slice.
\<close>

datatype array8 = Array8 u8 u8 u8 u8 u8 u8 u8 u8

fun bytes8 :: "array8 \<Rightarrow> bytes" where
  "bytes8 (Array8 a b c d e f g h) = [a, b, c, d, e, f, g, h]"

definition zero8 :: array8 where
  "zero8 = Array8 0 0 0 0 0 0 0 0"

text \<open>\<open>u64::to_be_bytes\<close> and \<open>u64::from_be_bytes\<close>.\<close>

definition u64_to_be :: "u64 \<Rightarrow> array8" where
  "u64_to_be w =
     (let n = unat w in
      Array8 (of_nat (n div 256 ^ 7)) (of_nat (n div 256 ^ 6)) (of_nat (n div 256 ^ 5))
             (of_nat (n div 256 ^ 4)) (of_nat (n div 256 ^ 3)) (of_nat (n div 256 ^ 2))
             (of_nat (n div 256)) (of_nat n))"

definition u64_from_be :: "array8 \<Rightarrow> u64" where
  "u64_from_be a = from_be (bytes8 a)"

lemma length_bytes8 [simp]: "length (bytes8 a) = 8"
  by (cases a) simp

lemma bytes8_inject [simp]: "bytes8 a = bytes8 b \<longleftrightarrow> a = b"
  by (cases a; cases b) simp

lemma bytes8_u64_to_be [be_simps]: "bytes8 (u64_to_be w) = be_of_nat 8 (unat w)"
  by (simp add: u64_to_be_def Let_def be_of_nat_unroll del: of_nat_div)

lemma unat_u64_from_be [be_simps]: "unat (u64_from_be a) = nat_of_be (bytes8 a)"
  by (simp add: u64_from_be_def unat_from_be)

lemma u64_from_to_be [simp]: "u64_from_be (u64_to_be w) = w"
  by (simp add: u64_from_be_def from_be_def bytes8_u64_to_be nat_of_be_of_nat unat_u64_less)

lemma u64_from_be_inject [simp]: "u64_from_be a = u64_from_be b \<longleftrightarrow> a = b"
proof
  assume "u64_from_be a = u64_from_be b"
  then have "nat_of_be (bytes8 a) = nat_of_be (bytes8 b)"
    by (metis unat_u64_from_be)
  then show "a = b" by (simp add: nat_of_be_inject)
qed simp

lemma u64_to_from_be [simp]: "u64_to_be (u64_from_be a) = a"
  by (rule u64_from_be_inject [THEN iffD1]) simp

lemma u64_from_be_zero8 [simp]: "u64_from_be zero8 = 0"
  by (simp add: u64_from_be_def from_be_def zero8_def nat_of_be_def)

text \<open>Bitwise extensionality at a fixed width, one premise per bit.\<close>

lemma u8_bitI:
  fixes x y :: u8
  assumes "bit x 0 = bit y 0" "bit x 1 = bit y 1" "bit x 2 = bit y 2" "bit x 3 = bit y 3"
    "bit x 4 = bit y 4" "bit x 5 = bit y 5" "bit x 6 = bit y 6" "bit x 7 = bit y 7"
  shows "x = y"
proof (rule bit_word_eqI)
  fix n :: nat assume "n < LENGTH(8)"
  with assms show "bit x n = bit y n" by (auto simp: less_Suc_eq numeral_eq_Suc)
qed

lemma u16_bitI:
  fixes x y :: u16
  assumes "bit x 0 = bit y 0" "bit x 1 = bit y 1" "bit x 2 = bit y 2" "bit x 3 = bit y 3"
    "bit x 4 = bit y 4" "bit x 5 = bit y 5" "bit x 6 = bit y 6" "bit x 7 = bit y 7"
    "bit x 8 = bit y 8" "bit x 9 = bit y 9" "bit x 10 = bit y 10" "bit x 11 = bit y 11"
    "bit x 12 = bit y 12" "bit x 13 = bit y 13" "bit x 14 = bit y 14" "bit x 15 = bit y 15"
  shows "x = y"
proof (rule bit_word_eqI)
  fix n :: nat assume "n < LENGTH(16)"
  with assms show "bit x n = bit y n" by (auto simp: less_Suc_eq numeral_eq_Suc)
qed

text \<open>
  A component whose operations all keep a predicate, each in the inputs its callers may give it: so
  does every sequence of them.
\<close>

locale kept_by_operations =
  fixes apply_op :: "'op \<Rightarrow> 's \<Rightarrow> 's" and admissible :: "'op \<Rightarrow> bool" and kept :: "'s \<Rightarrow> bool"
  assumes keeps: "kept s \<Longrightarrow> admissible op \<Longrightarrow> kept (apply_op op s)"
begin

lemma run_keeps:
  "kept s \<Longrightarrow> \<forall>op \<in> set ops. admissible op \<Longrightarrow> kept (foldl (\<lambda>s op. apply_op op s) s ops)"
  by (induction ops arbitrary: s) (simp_all add: keeps)

end

end
