(* ===== verification/Model_Value.thy ===== *)
theory Model_Value
  imports Prelude
begin

text \<open>
  The value layer of crate \<open>iec61850-model\<close>: \<open>MmsValue\<close> (\<open>value.rs\<close>) with its
  derived equality, and \<open>UtcTime\<close> with \<open>TimeQuality\<close> and \<open>TimeAccuracy\<close>
  (\<open>utc_time.rs\<close>). Floats are their IEEE 754 bit patterns, on which \<open>==\<close> and
  \<open>to_bits\<close> of the language are defined.
\<close>

section \<open>Floating point comparison\<close>

text \<open>
  \<open>f32\<close> and \<open>f64\<close> as bit patterns: a NaN has an all-one exponent and a non-zero
  fraction; \<open>==\<close> is false on a NaN and identifies the two zeros.
\<close>

definition f32_is_nan :: "u32 \<Rightarrow> bool" where
  "f32_is_nan x \<longleftrightarrow> x AND 0x7F800000 = 0x7F800000 \<and> x AND 0x007FFFFF \<noteq> 0"

definition f32_eq :: "u32 \<Rightarrow> u32 \<Rightarrow> bool" where
  "f32_eq x y \<longleftrightarrow> \<not> f32_is_nan x \<and> \<not> f32_is_nan y \<and>
     (x = y \<or> (x AND 0x7FFFFFFF = 0 \<and> y AND 0x7FFFFFFF = 0))"

definition f64_is_nan :: "u64 \<Rightarrow> bool" where
  "f64_is_nan x \<longleftrightarrow> x AND 0x7FF0000000000000 = 0x7FF0000000000000 \<and>
     x AND 0x000FFFFFFFFFFFFF \<noteq> 0"

definition f64_eq :: "u64 \<Rightarrow> u64 \<Rightarrow> bool" where
  "f64_eq x y \<longleftrightarrow> \<not> f64_is_nan x \<and> \<not> f64_is_nan y \<and>
     (x = y \<or> (x AND 0x7FFFFFFFFFFFFFFF = 0 \<and> y AND 0x7FFFFFFFFFFFFFFF = 0))"

section \<open>MmsValue\<close>

datatype mms_value =
    Boolean bool
  | Integer i64
  | Unsigned u64
  | Float32 u32
  | Float64 u64
  | BitString u8 bytes
  | OctetString bytes
  | VisibleString string
  | MmsString string
  | UtcTimeValue array8
  | BinaryTime bytes
  | Array "mms_value list"
  | Structure "mms_value list"

text \<open>The derived \<open>PartialEq\<close>: constructor by constructor, floats with \<open>==\<close>.\<close>

fun mms_value_eq :: "mms_value \<Rightarrow> mms_value \<Rightarrow> bool"
  and mms_values_eq :: "mms_value list \<Rightarrow> mms_value list \<Rightarrow> bool" where
  "mms_value_eq (Boolean x) v = (case v of Boolean y \<Rightarrow> x = y | _ \<Rightarrow> False)"
| "mms_value_eq (Integer x) v = (case v of Integer y \<Rightarrow> x = y | _ \<Rightarrow> False)"
| "mms_value_eq (Unsigned x) v = (case v of Unsigned y \<Rightarrow> x = y | _ \<Rightarrow> False)"
| "mms_value_eq (Float32 x) v = (case v of Float32 y \<Rightarrow> f32_eq x y | _ \<Rightarrow> False)"
| "mms_value_eq (Float64 x) v = (case v of Float64 y \<Rightarrow> f64_eq x y | _ \<Rightarrow> False)"
| "mms_value_eq (BitString p d) v = (case v of BitString q e \<Rightarrow> p = q \<and> d = e | _ \<Rightarrow> False)"
| "mms_value_eq (OctetString x) v = (case v of OctetString y \<Rightarrow> x = y | _ \<Rightarrow> False)"
| "mms_value_eq (VisibleString x) v = (case v of VisibleString y \<Rightarrow> x = y | _ \<Rightarrow> False)"
| "mms_value_eq (MmsString x) v = (case v of MmsString y \<Rightarrow> x = y | _ \<Rightarrow> False)"
| "mms_value_eq (UtcTimeValue x) v = (case v of UtcTimeValue y \<Rightarrow> x = y | _ \<Rightarrow> False)"
| "mms_value_eq (BinaryTime x) v = (case v of BinaryTime y \<Rightarrow> x = y | _ \<Rightarrow> False)"
| "mms_value_eq (Array xs) v = (case v of Array ys \<Rightarrow> mms_values_eq xs ys | _ \<Rightarrow> False)"
| "mms_value_eq (Structure xs) v = (case v of Structure ys \<Rightarrow> mms_values_eq xs ys | _ \<Rightarrow> False)"
| "mms_values_eq [] ys = (ys = [])"
| "mms_values_eq (x # xs) ys =
     (case ys of [] \<Rightarrow> False | y # ys' \<Rightarrow> mms_value_eq x y \<and> mms_values_eq xs ys')"

text \<open>\<open>same_variant\<close>: the discriminants agree.\<close>

fun same_variant :: "mms_value \<Rightarrow> mms_value \<Rightarrow> bool" where
  "same_variant (Boolean _) v = (case v of Boolean _ \<Rightarrow> True | _ \<Rightarrow> False)"
| "same_variant (Integer _) v = (case v of Integer _ \<Rightarrow> True | _ \<Rightarrow> False)"
| "same_variant (Unsigned _) v = (case v of Unsigned _ \<Rightarrow> True | _ \<Rightarrow> False)"
| "same_variant (Float32 _) v = (case v of Float32 _ \<Rightarrow> True | _ \<Rightarrow> False)"
| "same_variant (Float64 _) v = (case v of Float64 _ \<Rightarrow> True | _ \<Rightarrow> False)"
| "same_variant (BitString _ _) v = (case v of BitString _ _ \<Rightarrow> True | _ \<Rightarrow> False)"
| "same_variant (OctetString _) v = (case v of OctetString _ \<Rightarrow> True | _ \<Rightarrow> False)"
| "same_variant (VisibleString _) v = (case v of VisibleString _ \<Rightarrow> True | _ \<Rightarrow> False)"
| "same_variant (MmsString _) v = (case v of MmsString _ \<Rightarrow> True | _ \<Rightarrow> False)"
| "same_variant (UtcTimeValue _) v = (case v of UtcTimeValue _ \<Rightarrow> True | _ \<Rightarrow> False)"
| "same_variant (BinaryTime _) v = (case v of BinaryTime _ \<Rightarrow> True | _ \<Rightarrow> False)"
| "same_variant (Array _) v = (case v of Array _ \<Rightarrow> True | _ \<Rightarrow> False)"
| "same_variant (Structure _) v = (case v of Structure _ \<Rightarrow> True | _ \<Rightarrow> False)"

section \<open>UtcTime\<close>

datatype utc_time_error =
    FractionOutOfRange u32
  | SecondsOutOfRange u64
  | InvalidTimeAccuracy u8

datatype time_accuracy = TimeAccuracy u8

record time_quality =
  leap_seconds_known :: bool
  clock_failure :: bool
  clock_not_synchronized :: bool
  time_accuracy :: time_accuracy

datatype utc_time = UtcTime array8

definition UTC_TIME_NULL :: utc_time where
  "UTC_TIME_NULL = UtcTime zero8"

definition FRACTION_OF_SECOND_MAX :: u32 where
  "FRACTION_OF_SECOND_MAX = 0x00FFFFFF"

definition accuracy_bits :: "u8 \<Rightarrow> utc_time_error + time_accuracy" where
  "accuracy_bits n = (if n > 24 then Inl (InvalidTimeAccuracy n) else Inr (TimeAccuracy n))"

definition accuracy_from_code :: "u8 \<Rightarrow> utc_time_error + time_accuracy" where
  "accuracy_from_code c =
     (if c \<le> 24 \<or> c = 31 then Inr (TimeAccuracy c) else Inl (InvalidTimeAccuracy c))"

fun accuracy_code :: "time_accuracy \<Rightarrow> u8" where
  "accuracy_code (TimeAccuracy c) = c"

definition significant_bits :: "time_accuracy \<Rightarrow> u8 option" where
  "significant_bits a = (if accuracy_code a \<le> 24 then Some (accuracy_code a) else None)"

definition quality_from_valid_byte :: "u8 \<Rightarrow> time_quality" where
  "quality_from_valid_byte b =
     \<lparr>leap_seconds_known = (b AND 0x80 \<noteq> 0), clock_failure = (b AND 0x40 \<noteq> 0),
      clock_not_synchronized = (b AND 0x20 \<noteq> 0), time_accuracy = TimeAccuracy (b AND 0x1F)\<rparr>"

definition quality_from_byte :: "u8 \<Rightarrow> utc_time_error + time_quality" where
  "quality_from_byte b =
     (case accuracy_from_code (b AND 0x1F) of
        Inr _ \<Rightarrow> Inr (quality_from_valid_byte b)
      | Inl e \<Rightarrow> Inl e)"

definition quality_to_byte :: "time_quality \<Rightarrow> u8" where
  "quality_to_byte q =
     (let b0 = accuracy_code (time_accuracy q);
          b1 = (if leap_seconds_known q then b0 OR 0x80 else b0);
          b2 = (if clock_failure q then b1 OR 0x40 else b1);
          b3 = (if clock_not_synchronized q then b2 OR 0x20 else b2)
      in b3)"

definition utc_time_new :: "u32 \<Rightarrow> u32 \<Rightarrow> time_quality \<Rightarrow> utc_time_error + utc_time" where
  "utc_time_new seconds fraction q =
     (if fraction > FRACTION_OF_SECOND_MAX then Inl (FractionOutOfRange fraction)
      else (let s = u32_to_be seconds; f = u32_to_be fraction in
        Inr (UtcTime (Array8 (s ! 0) (s ! 1) (s ! 2) (s ! 3)
                             (f ! 1) (f ! 2) (f ! 3) (quality_to_byte q)))))"

text \<open>
  A \<open>Duration\<close> is whole seconds and nanoseconds below one second. The product and quotient
  are computed in 64 bits.
\<close>

type_synonym duration = "u64 \<times> u32"

definition utc_time_from_duration :: "duration \<Rightarrow> time_quality \<Rightarrow> utc_time_error + utc_time" where
  "utc_time_from_duration d q =
     (if unat (fst d) < 2 ^ 32
      then utc_time_new (ucast (fst d))
             (ucast ((ucast (snd d) :: u64) * 2 ^ 24 div 1000000000)) q
      else Inl (SecondsOutOfRange (fst d)))"

fun utc_time_from_bytes :: "array8 \<Rightarrow> utc_time_error + utc_time" where
  "utc_time_from_bytes a =
     (case quality_from_byte (bytes8 a ! 7) of Inr _ \<Rightarrow> Inr (UtcTime a) | Inl e \<Rightarrow> Inl e)"

fun utc_time_to_bytes :: "utc_time \<Rightarrow> array8" where
  "utc_time_to_bytes (UtcTime a) = a"

fun seconds_since_epoch :: "utc_time \<Rightarrow> u32" where
  "seconds_since_epoch (UtcTime (Array8 a b c d e f g h)) = from_be [a, b, c, d]"

fun fraction_of_second :: "utc_time \<Rightarrow> u32" where
  "fraction_of_second (UtcTime (Array8 a b c d e f g h)) = from_be [0, e, f, g]"

definition subsec_nanos :: "utc_time \<Rightarrow> u32" where
  "subsec_nanos t = ucast ((ucast (fraction_of_second t) :: u64) * 1000000000 div 2 ^ 24)"

definition duration_since_epoch :: "utc_time \<Rightarrow> duration" where
  "duration_since_epoch t = (ucast (seconds_since_epoch t), subsec_nanos t)"

fun time_quality_of :: "utc_time \<Rightarrow> time_quality" where
  "time_quality_of (UtcTime a) = quality_from_valid_byte (bytes8 a ! 7)"

definition utc_time_is_null :: "utc_time \<Rightarrow> bool" where
  "utc_time_is_null t \<longleftrightarrow> u64_from_be (utc_time_to_bytes t) = 0"

text \<open>The codes a \<open>TimeAccuracy\<close> may hold, 0 to 24 and 31; its field is private.\<close>

fun accuracy_valid :: "time_accuracy \<Rightarrow> bool" where
  "accuracy_valid (TimeAccuracy c) \<longleftrightarrow> c \<le> 24 \<or> c = 31"


section \<open>The encoding is faithful\<close>

lemma le_31_mask: "(c :: u8) \<le> 31 \<Longrightarrow> c AND 0x1F = c"
proof -
  assume "c \<le> 31"
  then have "unat c < 2 ^ 5" by (simp add: word_le_nat_alt)
  then have "take_bit 5 c = c"
    by (simp add: word_unat_eq_iff unsigned_take_bit_eq take_bit_nat_eq_self)
  then show ?thesis by (simp add: take_bit_eq_mask mask_eq_exp_minus_1)
qed

lemma quality_byte_bits:
  assumes "(c :: u8) AND 0x1F = c"
  shows "c AND 0x80 = 0" "c AND 0x40 = 0" "c AND 0x20 = 0"
proof -
  have "c AND 0x80 = c AND (0x1F AND 0x80)" "c AND 0x40 = c AND (0x1F AND 0x40)" "c AND 0x20 = c AND (0x1F AND 0x20)"
    by (simp_all only: and.assoc [symmetric] assms)
  then show "c AND 0x80 = 0" "c AND 0x40 = 0" "c AND 0x20 = 0" by simp_all
qed

lemma quality_from_valid_to_byte:
  assumes "accuracy_valid (time_accuracy q)"
  shows "quality_from_valid_byte (quality_to_byte q) = q"
proof -
  obtain c where c: "time_accuracy q = TimeAccuracy c"
    by (cases "time_accuracy q")
  with assms have "c \<le> 31" by (auto simp: word_le_nat_alt)
  then have "c AND 0x1F = c" by (rule le_31_mask)
  then show ?thesis using c quality_byte_bits [of c]
    by (cases q) (simp add: quality_from_valid_byte_def quality_to_byte_def Let_def bit.conj_disj_distrib2)
qed

lemma accuracy_valid_to_byte:
  assumes "accuracy_valid (time_accuracy q)"
  shows "quality_from_byte (quality_to_byte q) = Inr q"
proof -
  have "time_accuracy (quality_from_valid_byte (quality_to_byte q)) =
      TimeAccuracy (quality_to_byte q AND 0x1F)"
    by (simp add: quality_from_valid_byte_def)
  then have "TimeAccuracy (quality_to_byte q AND 0x1F) = time_accuracy q"
    by (simp add: quality_from_valid_to_byte [OF assms])
  with assms have "accuracy_valid (TimeAccuracy (quality_to_byte q AND 0x1F))" by simp
  then show ?thesis
    by (auto simp: quality_from_byte_def accuracy_from_code_def quality_from_valid_to_byte [OF assms])
qed

lemma u32_to_be_nths:
  "[u32_to_be w ! 0, u32_to_be w ! 1, u32_to_be w ! 2, u32_to_be w ! 3] = u32_to_be w"
  by (simp add: u32_to_be_def be_of_nat_4 del: of_nat_div)

lemma from_be_u32_nths [simp]:
  "from_be [u32_to_be w ! 0, u32_to_be w ! Suc 0, u32_to_be w ! 2, u32_to_be w ! 3] = w"
  using u32_to_be_nths [of w] by simp

lemma u32_to_be_small:
  assumes "w \<le> FRACTION_OF_SECOND_MAX"
  shows "u32_to_be w ! 0 = 0"
proof -
  have "unat w < 16777216"
    using assms by (simp add: FRACTION_OF_SECOND_MAX_def word_le_nat_alt)
  then show ?thesis by (simp add: u32_to_be_def be_of_nat_4 del: of_nat_div)
qed

lemma utc_time_new_fields:
  assumes "fraction \<le> FRACTION_OF_SECOND_MAX"
  obtains t where "utc_time_new s fraction q = Inr t"
    and "seconds_since_epoch t = s" and "fraction_of_second t = fraction"
    and "bytes8 (utc_time_to_bytes t) ! 7 = quality_to_byte q"
proof -
  have "from_be [0, u32_to_be fraction ! Suc 0, u32_to_be fraction ! 2, u32_to_be fraction ! 3] = fraction"
    using u32_to_be_small [OF assms] from_be_u32_nths [of fraction] by simp
  with that assms show thesis
    by (simp add: utc_time_new_def Let_def not_less)
qed

lemma utc_time_from_bytes_valid:
  assumes "accuracy_valid (time_accuracy q)" and "bytes8 (utc_time_to_bytes t) ! 7 = quality_to_byte q"
  shows "utc_time_from_bytes (utc_time_to_bytes t) = Inr t" and "time_quality_of t = q"
  using accuracy_valid_to_byte [OF assms(1)] quality_from_valid_to_byte [OF assms(1)] assms(2)
  by (cases t, simp)+

lemma unat_frac:
  fixes n :: u32
  assumes "unat n < 1000000000"
  shows "unat (ucast ((ucast n :: u64) * 2 ^ 24 div 1000000000) :: u32) = unat n * 2 ^ 24 div 1000000000"
proof -
  have "unat ((ucast n :: u64) * 2 ^ 24) = unat n * 2 ^ 24"
    using assms by (simp add: unat_word_ariths unsigned_ucast_eq take_bit_nat_eq_self)
  then have "unat ((ucast n :: u64) * 2 ^ 24 div 1000000000) = unat n * 2 ^ 24 div 1000000000"
    by (simp add: unat_div)
  moreover have "unat n * 2 ^ 24 div 1000000000 < 2 ^ 32" using assms by simp
  ultimately show ?thesis by (simp add: unsigned_ucast_eq take_bit_nat_eq_self)
qed

lemma nat_of_be_zero_Cons: "nat_of_be (0 # bs) = nat_of_be bs"
  by (simp add: nat_of_be_def)

lemma unat_fraction_less: "unat (fraction_of_second t) < 16777216"
proof -
  obtain a b c d e f g h where t: "t = UtcTime (Array8 a b c d e f g h)"
    by (metis utc_time.exhaust array8.exhaust)
  have "unat (from_be [0, e, f, g] :: u32) = nat_of_be [e, f, g]"
    by (simp add: unat_from_be nat_of_be_zero_Cons)
  then show ?thesis using t nat_of_be_less [of "[e, f, g]"] by simp
qed

lemma unat_subsec_nanos:
  "unat (subsec_nanos t) = unat (fraction_of_second t) * 1000000000 div 2 ^ 24"
proof -
  let ?f = "fraction_of_second t"
  note less = unat_fraction_less [of t]
  have "unat ((ucast ?f :: u64) * 1000000000) = unat ?f * 1000000000"
    using less by (simp add: unat_word_ariths unsigned_ucast_eq take_bit_nat_eq_self)
  then have "unat ((ucast ?f :: u64) * 1000000000 div 2 ^ 24) = unat ?f * 1000000000 div 2 ^ 24"
    by (simp add: unat_div)
  moreover have "unat ?f * 1000000000 div 2 ^ 24 < 2 ^ 32" using less by simp
  ultimately show ?thesis
    by (simp add: subsec_nanos_def unsigned_ucast_eq take_bit_nat_eq_self)
qed

lemma frac_roundtrip_bounds:
  fixes n :: nat
  defines "m \<equiv> (n * 2 ^ 24 div 1000000000) * 1000000000 div 2 ^ 24"
  shows "m \<le> n \<and> n < m + 61"
proof -
  define k where "k = n * 2 ^ 24 div 1000000000"
  have "k * 1000000000 \<le> n * 16777216" and "n * 16777216 < k * 1000000000 + 1000000000"
    unfolding k_def by simp_all
  moreover have "m * 16777216 \<le> k * 1000000000" and "k * 1000000000 < m * 16777216 + 16777216"
    unfolding m_def k_def by simp_all
  ultimately show ?thesis by linarith
qed

text \<open>
  A \<open>UtcTime\<close> built from seconds, a 24-bit fraction and a quality with a valid
  accuracy code exists, returns exactly those three members from its accessors, and its
  eight octets are accepted by \<open>from_bytes\<close> and decode to the same value.
\<close>

theorem utc_time_new_roundtrip:
  assumes "accuracy_valid (time_accuracy q)" and "fraction \<le> FRACTION_OF_SECOND_MAX"
  shows "\<exists>t. utc_time_new s fraction q = Inr t \<and> seconds_since_epoch t = s \<and>
    fraction_of_second t = fraction \<and> time_quality_of t = q \<and>
    utc_time_from_bytes (utc_time_to_bytes t) = Inr t"
proof -
  obtain t where "utc_time_new s fraction q = Inr t"
    and "seconds_since_epoch t = s" and "fraction_of_second t = fraction"
    and "bytes8 (utc_time_to_bytes t) ! 7 = quality_to_byte q"
    using assms(2) by (rule utc_time_new_fields)
  with utc_time_from_bytes_valid [OF assms(1)] show ?thesis by blast
qed

theorem utc_time_new_roundtrip_witness:
  "\<exists>t. utc_time_new 1700000000 0x800000
      \<lparr>leap_seconds_known = True, clock_failure = False, clock_not_synchronized = True,
       time_accuracy = TimeAccuracy 10\<rparr> = Inr t \<and>
    seconds_since_epoch t = 1700000000 \<and> fraction_of_second t = 0x800000 \<and>
    clock_not_synchronized (time_quality_of t) \<and>
    utc_time_from_bytes (utc_time_to_bytes t) = Inr t"
  using utc_time_new_roundtrip [of "\<lparr>leap_seconds_known = True, clock_failure = False,
      clock_not_synchronized = True, time_accuracy = TimeAccuracy 10\<rparr>" "0x800000" 1700000000]
  by (auto simp: FRACTION_OF_SECOND_MAX_def)

text \<open>
  A duration since the epoch whose seconds fit 32 bits is always encoded; reading it
  back gives the same seconds and truncates the nanoseconds, losing less than 61 ns.
\<close>

theorem utc_time_duration_truncates:
  assumes "unat secs < 2 ^ 32" and "unat nanos < 1000000000"
  shows "\<exists>t. utc_time_from_duration (secs, nanos) q = Inr t \<and>
    fst (duration_since_epoch t) = secs \<and>
    snd (duration_since_epoch t) \<le> nanos \<and>
    unat nanos < unat (snd (duration_since_epoch t)) + 61"
proof -
  let ?fr = "ucast ((ucast nanos :: u64) * 2 ^ 24 div 1000000000) :: u32"
  note fr = unat_frac [OF assms(2)]
  then have "?fr \<le> FRACTION_OF_SECOND_MAX"
    using assms(2) by (simp add: FRACTION_OF_SECOND_MAX_def word_le_nat_alt)
  then obtain t where t: "utc_time_new (ucast secs) ?fr q = Inr t"
    and s: "seconds_since_epoch t = ucast secs" and f: "fraction_of_second t = ?fr"
    by (rule utc_time_new_fields)
  have n: "unat (snd (duration_since_epoch t)) =
      (unat nanos * 2 ^ 24 div 1000000000) * 1000000000 div 2 ^ 24"
    by (simp only: duration_since_epoch_def snd_conv unat_subsec_nanos f fr)
  have "(ucast (ucast secs :: u32) :: u64) = secs"
    using assms(1) by (simp add: word_unat_eq_iff unsigned_ucast_eq unsigned_take_bit_eq take_bit_nat_eq_self)
  then have "fst (duration_since_epoch t) = secs"
    by (simp add: duration_since_epoch_def s)
  then show ?thesis
    using t assms(1) frac_roundtrip_bounds [of "unat nanos"] n
    by (auto simp: utc_time_from_duration_def word_le_nat_alt)
qed

theorem utc_time_duration_truncates_witness:
  "\<exists>t. utc_time_from_duration (1700000000, 999999999)
      \<lparr>leap_seconds_known = False, clock_failure = False, clock_not_synchronized = False,
       time_accuracy = TimeAccuracy 31\<rparr> = Inr t \<and>
    fst (duration_since_epoch t) = 1700000000 \<and>
    snd (duration_since_epoch t) \<le> 999999999 \<and>
    999999999 < unat (snd (duration_since_epoch t)) + 61"
  using utc_time_duration_truncates [of 1700000000 999999999
    "\<lparr>leap_seconds_known = False, clock_failure = False, clock_not_synchronized = False,
      time_accuracy = TimeAccuracy 31\<rparr>"]
  by simp

end
