(* ===== verification/Flags.thy ===== *)
theory Flags
  imports Prelude
begin

text \<open>
  The bit flags of report control blocks: \<open>TriggerOptions\<close> and \<open>InclusionFlag\<close>
  (crates/iec61850-server/src/flags.rs) and \<open>OptFlds\<close>
  (crates/iec61850-model/src/cb.rs), with the BIT STRING content each is carried as.
  A newtype over an integer is a datatype with one constructor.
\<close>

section \<open>TriggerOptions\<close>

datatype trigger_options = TriggerOptions u8

definition TRG_DATA_CHANGED :: trigger_options where
  "TRG_DATA_CHANGED = TriggerOptions 0x01"

definition TRG_QUALITY_CHANGED :: trigger_options where
  "TRG_QUALITY_CHANGED = TriggerOptions 0x02"

definition TRG_DATA_UPDATE :: trigger_options where
  "TRG_DATA_UPDATE = TriggerOptions 0x04"

definition TRG_INTEGRITY :: trigger_options where
  "TRG_INTEGRITY = TriggerOptions 0x08"

definition TRG_GI :: trigger_options where
  "TRG_GI = TriggerOptions 0x10"

fun trg_contains :: "trigger_options \<Rightarrow> trigger_options \<Rightarrow> bool" where
  "trg_contains (TriggerOptions a) (TriggerOptions b) = (a AND b = b)"

fun trg_union :: "trigger_options \<Rightarrow> trigger_options \<Rightarrow> trigger_options" where
  "trg_union (TriggerOptions a) (TriggerOptions b) = TriggerOptions (a OR b)"

fun trg_intersects :: "trigger_options \<Rightarrow> trigger_options \<Rightarrow> bool" where
  "trg_intersects (TriggerOptions a) (TriggerOptions b) = (a AND b \<noteq> 0)"

fun trg_to_ber :: "trigger_options \<Rightarrow> bytes" where
  "trg_to_ber (TriggerOptions v) =
    [2, push_bit 6 (v AND 0x01) OR push_bit 4 (v AND 0x02) OR push_bit 2 (v AND 0x04)
      OR (v AND 0x08) OR drop_bit 2 (v AND 0x10)]"

definition trg_from_ber :: "bytes \<Rightarrow> trigger_options option" where
  "trg_from_ber bs =
    (if length bs < 2 then None
     else let d = bs ! 1;
       raw = drop_bit 6 (d AND 0x40) OR drop_bit 4 (d AND 0x20) OR drop_bit 2 (d AND 0x10)
         OR (d AND 0x08) OR push_bit 2 (d AND 0x04)
     in Some (TriggerOptions (raw AND 0x1f)))"

section \<open>OptFlds\<close>

datatype opt_flds = OptFlds u16

definition OPT_BUFFER_OVERFLOW :: opt_flds where
  "OPT_BUFFER_OVERFLOW = OptFlds 0x020"

definition OPT_ENTRY_ID :: opt_flds where
  "OPT_ENTRY_ID = OptFlds 0x040"

text \<open>The union \<open>Brcb::new\<close> sets: SEQ\_NUM, TIME\_STAMP, REASON, BUFFER\_OVERFLOW, ENTRY\_ID.\<close>

definition OPT_BRCB_DEFAULT :: opt_flds where
  "OPT_BRCB_DEFAULT = OptFlds (0x001 OR 0x002 OR 0x004 OR 0x020 OR 0x040)"

fun opt_contains :: "opt_flds \<Rightarrow> opt_flds \<Rightarrow> bool" where
  "opt_contains (OptFlds a) (OptFlds b) = (a AND b = b)"

fun mask_urcb :: "opt_flds \<Rightarrow> opt_flds" where
  "mask_urcb (OptFlds v) = OptFlds (v AND NOT (0x020 OR 0x040))"

text \<open>The two data octets, the layout both the masking encoder and a BRCB read use.\<close>

definition opt_byte0 :: "u16 \<Rightarrow> u8" where
  "opt_byte0 v = ucast (push_bit 6 (v AND 0x001)) OR ucast (push_bit 4 (v AND 0x002))
     OR ucast (push_bit 2 (v AND 0x004)) OR ucast (v AND 0x008) OR ucast (drop_bit 2 (v AND 0x010))
     OR ucast (drop_bit 4 (v AND 0x020)) OR ucast (drop_bit 6 (v AND 0x040))"

definition opt_byte1 :: "u16 \<Rightarrow> u8" where
  "opt_byte1 v = ucast (v AND 0x080) OR ucast (drop_bit 2 (v AND 0x100))"

definition opt_to_ber :: "opt_flds \<Rightarrow> bytes" where
  "opt_to_ber flds = (case mask_urcb flds of OptFlds v \<Rightarrow> [6, opt_byte0 v, opt_byte1 v])"

definition opt_from_ber :: "bytes \<Rightarrow> opt_flds option" where
  "opt_from_ber bs =
    (if length bs < 3 then None
     else let byte0 = ucast (bs ! 1) :: u16; byte1 = ucast (bs ! 2) :: u16
     in Some (OptFlds (drop_bit 6 (byte0 AND 0x40) OR drop_bit 4 (byte0 AND 0x20)
       OR drop_bit 2 (byte0 AND 0x10) OR (byte0 AND 0x08) OR push_bit 2 (byte0 AND 0x04)
       OR push_bit 4 (byte0 AND 0x02) OR push_bit 6 (byte0 AND 0x01)
       OR (byte1 AND 0x80) OR push_bit 2 (byte1 AND 0x40))))"

section \<open>InclusionFlag\<close>

datatype inclusion_flag = InclusionFlag u8

definition VALUE_UPDATE :: inclusion_flag where
  "VALUE_UPDATE = InclusionFlag 1"

definition VALUE_CHANGED :: inclusion_flag where
  "VALUE_CHANGED = InclusionFlag 2"

definition QUALITY_CHANGED :: inclusion_flag where
  "QUALITY_CHANGED = InclusionFlag 4"

fun incl_has_trigger :: "inclusion_flag \<Rightarrow> bool" where
  "incl_has_trigger (InclusionFlag v) = (v AND 0x07 \<noteq> 0)"

fun incl_contains :: "inclusion_flag \<Rightarrow> inclusion_flag \<Rightarrow> bool" where
  "incl_contains (InclusionFlag a) (InclusionFlag b) = (a AND b = b)"

fun incl_union :: "inclusion_flag \<Rightarrow> inclusion_flag \<Rightarrow> inclusion_flag" where
  "incl_union (InclusionFlag a) (InclusionFlag b) = InclusionFlag (a OR b)"

definition to_reason_bit_string :: "inclusion_flag \<Rightarrow> bool \<Rightarrow> bool \<Rightarrow> bytes" where
  "to_reason_bit_string f is_integrity is_gi =
    [2, (if incl_contains f VALUE_CHANGED then 0x40 else 0)
      OR (if incl_contains f QUALITY_CHANGED then 0x20 else 0)
      OR (if incl_contains f VALUE_UPDATE then 0x10 else 0)
      OR (if is_integrity then 0x08 else 0) OR (if is_gi then 0x04 else 0)]"

section \<open>Round trips\<close>

lemma trg_from_to_ber:
  "trg_from_ber (trg_to_ber (TriggerOptions v)) = Some (TriggerOptions (v AND 0x1f))"
  by (simp add: trg_from_ber_def Let_def) (rule u8_bitI; simp add: bit_simps)

lemma trg_to_from_ber:
  "length bs \<ge> 2 \<Longrightarrow> \<exists>t. trg_from_ber bs = Some t \<and> trg_to_ber t = [2, bs ! 1 AND 0x7c]"
  by (simp add: trg_from_ber_def Let_def) (rule u8_bitI; simp add: bit_simps)

lemma opt_from_bytes:
  "opt_from_ber (p # opt_byte0 v # opt_byte1 v # bs) = Some (OptFlds (v AND 0x1ff))"
  by (simp add: opt_from_ber_def Let_def opt_byte0_def opt_byte1_def)
    (rule u16_bitI; simp add: bit_simps)

lemma opt_to_bytes:
  assumes "opt_from_ber bs = Some (OptFlds v)"
  shows "opt_byte0 v = bs ! 1 AND 0x7f" and "opt_byte1 v = bs ! 2 AND 0xc0"
  using assms
  by (simp_all add: opt_from_ber_def Let_def opt_byte0_def opt_byte1_def split: if_splits)
    (hypsubst, rule u8_bitI; simp add: bit_simps)+

lemma opt_from_to_ber:
  "opt_from_ber (opt_to_ber (OptFlds v)) = Some (mask_urcb (OptFlds (v AND 0x1ff)))"
  by (simp add: opt_to_ber_def opt_from_bytes ac_simps)

end
