(* ===== verification/Report_Buffer.thy ===== *)
theory Report_Buffer
  imports Model_Value Flags
begin

text \<open>
  The report buffer of a buffered report control block, \<open>reporting/buffer.rs\<close> of crate
  \<open>iec61850-server\<close>: the entry types, the trait \<open>ReportBufferBackend\<close> as the locale
  \<open>report_buffer_backend\<close>, and its in-memory implementation \<open>InMemoryReportBuffer\<close>
  as a record with one definition per method.

  The \<open>VecDeque\<close> is a list with the oldest entry first, the \<open>HashMap\<close> from EntryID to
  sequence number a map, and the injected \<open>AtomicU64\<close> drop counter an optional word
  (\<open>fetch_add\<close> wraps). An \<open>Arc<ReportEntry>\<close> is the immutable entry it points to.
\<close>

section \<open>Entries\<close>

datatype overflow_strategy = DropOldest | DropNewest | Reject

datatype entry_id = EntryId array8

fun entry_id_bytes :: "entry_id \<Rightarrow> array8" where
  "entry_id_bytes (EntryId a) = a"

definition entry_id_ZERO :: entry_id where
  "entry_id_ZERO = EntryId zero8"

definition entry_id_from_ms :: "u64 \<Rightarrow> entry_id" where
  "entry_id_from_ms ms = EntryId (u64_to_be ms)"

fun as_u64 :: "entry_id \<Rightarrow> u64" where
  "as_u64 (EntryId a) = u64_from_be a"

fun entry_id_is_zero :: "entry_id \<Rightarrow> bool" where
  "entry_id_is_zero (EntryId a) \<longleftrightarrow> a = zero8"

record enqueued_snapshot =
  inclusion_flags :: "inclusion_flag list"
  snapshot_values :: "mms_value option list"
  data_set_len :: nat

definition snapshot_new :: "nat \<Rightarrow> enqueued_snapshot" where
  "snapshot_new ds_len =
     \<lparr>inclusion_flags = replicate ds_len (InclusionFlag 0),
      snapshot_values = replicate ds_len None, data_set_len = ds_len\<rparr>"

record report_entry =
  entry_id :: entry_id
  time_of_entry_ms :: u64
  is_integrity :: bool
  is_gi :: bool
  encoded_payload :: bytes
  snapshot :: "enqueued_snapshot option"

definition report_entry_new :: "entry_id \<Rightarrow> u64 \<Rightarrow> bool \<Rightarrow> bool \<Rightarrow> bytes \<Rightarrow> report_entry" where
  "report_entry_new i t integrity gi payload =
     \<lparr>entry_id = i, time_of_entry_ms = t, is_integrity = integrity, is_gi = gi,
      encoded_payload = payload, snapshot = None\<rparr>"

definition report_entry_with_snapshot ::
  "entry_id \<Rightarrow> u64 \<Rightarrow> bool \<Rightarrow> bool \<Rightarrow> enqueued_snapshot \<Rightarrow> report_entry" where
  "report_entry_with_snapshot i t integrity gi s =
     \<lparr>entry_id = i, time_of_entry_ms = t, is_integrity = integrity, is_gi = gi,
      encoded_payload = [], snapshot = Some s\<rparr>"

datatype seek_result = FoundWithNext report_entry | FoundLast | NotFound

abbreviation entry_num :: "report_entry \<Rightarrow> u64" where
  "entry_num e \<equiv> as_u64 (entry_id e)"

section \<open>Abstract specification\<close>

definition spec_push :: "nat \<Rightarrow> overflow_strategy \<Rightarrow> report_entry list \<Rightarrow> report_entry \<Rightarrow> report_entry list" where
  "spec_push cap s es e =
     (if cap = 0 then es
      else if length es < cap then es @ [e]
      else (case s of DropOldest \<Rightarrow> tl es @ [e] | _ \<Rightarrow> es))"

definition spec_seek :: "report_entry list \<Rightarrow> entry_id \<Rightarrow> seek_result" where
  "spec_seek es i =
     (case dropWhile (\<lambda>e. entry_id e \<noteq> i) es of
        [] \<Rightarrow> NotFound
      | [_] \<Rightarrow> FoundLast
      | _ # n # _ \<Rightarrow> FoundWithNext n)"

lemma entry_id_bytes_inject [simp]: "entry_id_bytes i = entry_id_bytes j \<longleftrightarrow> i = j"
  by (cases i; cases j) simp

lemma as_u64_inject [simp]: "as_u64 i = as_u64 j \<longleftrightarrow> i = j"
  by (cases i; cases j) simp

lemma as_u64_from_ms [simp]: "as_u64 (entry_id_from_ms ms) = ms"
  by (simp add: entry_id_from_ms_def)

lemma sorted_ids_distinct:
  "sorted_wrt (<) (map entry_num es) \<Longrightarrow> distinct (map entry_id es)"
  by (induction es) auto

lemma dropWhile_at:
  assumes "distinct (map f es)" and "j < length es"
  shows "dropWhile (\<lambda>e. f e \<noteq> f (es ! j)) es = drop j es"
  using assms
proof (induction es arbitrary: j)
  case Nil
  then show ?case by simp
next
  case (Cons a es)
  then show ?case by (cases j) auto
qed

section \<open>The backend contract\<close>

text \<open>
  Sequences of calls between two reports: entries pushed and entries marked as formatted for
  transmission. The two helpers run such a sequence on any backend, and collect what the
  caller owes a backend at each push.
\<close>

datatype buffer_op = Push report_entry | MarkFormatted entry_id

fun run_ops :: "('b \<Rightarrow> report_entry \<Rightarrow> 'b \<times> bool) \<Rightarrow> ('b \<Rightarrow> entry_id \<Rightarrow> 'b) \<Rightarrow> 'b \<Rightarrow>
    buffer_op list \<Rightarrow> 'b" where
  "run_ops p m b [] = b"
| "run_ops p m b (Push e # ops) = run_ops p m (fst (p b e)) ops"
| "run_ops p m b (MarkFormatted i # ops) = run_ops p m (m b i) ops"

fun ops_ready :: "('b \<Rightarrow> report_entry \<Rightarrow> bool) \<Rightarrow> ('b \<Rightarrow> report_entry \<Rightarrow> 'b \<times> bool) \<Rightarrow>
    ('b \<Rightarrow> entry_id \<Rightarrow> 'b) \<Rightarrow> 'b \<Rightarrow> buffer_op list \<Rightarrow> bool" where
  "ops_ready r p m b [] \<longleftrightarrow> True"
| "ops_ready r p m b (Push e # ops) \<longleftrightarrow> r b e \<and> ops_ready r p m (fst (p b e)) ops"
| "ops_ready r p m b (MarkFormatted i # ops) \<longleftrightarrow> ops_ready r p m (m b i) ops"

fun pushed :: "buffer_op list \<Rightarrow> report_entry list" where
  "pushed [] = []"
| "pushed (Push e # ops) = e # pushed ops"
| "pushed (MarkFormatted i # ops) = pushed ops"

definition newest :: "nat \<Rightarrow> 'a list \<Rightarrow> 'a list" where
  "newest n xs = drop (length xs - n) xs"

lemma newest_append:
  "newest n (newest n xs @ ys) = newest n (xs @ ys)"
  by (cases "length xs \<le> n") (simp_all add: newest_def add.commute)

text \<open>
  The trait \<open>ReportBufferBackend\<close> as a contract: \<open>iter_op\<close> is the abstraction function,
  \<open>inv\<close> the representation invariant, \<open>ready\<close> what the caller owes a push (a fresh,
  larger EntryID), \<open>through_of\<close> the newest EntryID formatted for transmission.
\<close>

locale report_buffer_backend =
  fixes push_op :: "'b \<Rightarrow> report_entry \<Rightarrow> 'b \<times> bool"
    and find_op :: "'b \<Rightarrow> entry_id \<Rightarrow> report_entry option"
    and seek_op :: "'b \<Rightarrow> entry_id \<Rightarrow> seek_result"
    and purge_op :: "'b \<Rightarrow> 'b \<times> nat"
    and overflow_op :: "'b \<Rightarrow> bool"
    and clear_op :: "'b \<Rightarrow> 'b"
    and mark_op :: "'b \<Rightarrow> entry_id \<Rightarrow> 'b"
    and rewind_op :: "'b \<Rightarrow> entry_id option \<Rightarrow> 'b"
    and iter_op :: "'b \<Rightarrow> report_entry list"
    and iter_from_op :: "'b \<Rightarrow> entry_id \<Rightarrow> report_entry list"
    and cap_of :: "'b \<Rightarrow> nat"
    and strategy_of :: "'b \<Rightarrow> overflow_strategy"
    and through_of :: "'b \<Rightarrow> u64"
    and inv :: "'b \<Rightarrow> bool"
    and ready :: "'b \<Rightarrow> report_entry \<Rightarrow> bool"
  assumes inv_push: "inv b \<Longrightarrow> ready b e \<Longrightarrow> inv (fst (push_op b e))"
    and iter_push: "inv b \<Longrightarrow>
      iter_op (fst (push_op b e)) = spec_push (cap_of b) (strategy_of b) (iter_op b) e"
    and cap_push: "inv b \<Longrightarrow> cap_of (fst (push_op b e)) = cap_of b"
    and strategy_push: "inv b \<Longrightarrow> strategy_of (fst (push_op b e)) = strategy_of b"
    and through_push: "inv b \<Longrightarrow> through_of (fst (push_op b e)) = through_of b"
    and overflow_push: "inv b \<Longrightarrow> overflow_op (fst (push_op b e)) \<longleftrightarrow> overflow_op b \<or>
      (cap_of b \<noteq> 0 \<and> length (iter_op b) = cap_of b \<and>
       (strategy_of b = DropOldest \<longrightarrow> entry_num (hd (iter_op b)) > through_of b))"
    and iter_bound: "inv b \<Longrightarrow> length (iter_op b) \<le> cap_of b"
    and iter_sorted: "inv b \<Longrightarrow> sorted_wrt (<) (map entry_num (iter_op b))"
    and find_law: "inv b \<Longrightarrow> find_op b i = find (\<lambda>e. entry_id e = i) (iter_op b)"
    and seek_law: "inv b \<Longrightarrow> seek_op b i = spec_seek (iter_op b) i"
    and iter_from_law: "inv b \<Longrightarrow> iter_from_op b i = filter (\<lambda>e. entry_num e > as_u64 i) (iter_op b)"
    and mark_law: "inv b \<Longrightarrow> inv (mark_op b i) \<and> iter_op (mark_op b i) = iter_op b \<and>
      cap_of (mark_op b i) = cap_of b \<and> strategy_of (mark_op b i) = strategy_of b \<and>
      overflow_op (mark_op b i) = overflow_op b \<and>
      through_of (mark_op b i) = max (through_of b) (as_u64 i)"
    and rewind_law: "inv b \<Longrightarrow> inv (rewind_op b oi) \<and> iter_op (rewind_op b oi) = iter_op b \<and>
      cap_of (rewind_op b oi) = cap_of b \<and> overflow_op (rewind_op b oi) = overflow_op b \<and>
      through_of (rewind_op b oi) = (case oi of None \<Rightarrow> 0 | Some i \<Rightarrow> as_u64 i)"
    and clear_law: "inv b \<Longrightarrow> inv (clear_op b) \<and> iter_op (clear_op b) = iter_op b \<and>
      cap_of (clear_op b) = cap_of b \<and> through_of (clear_op b) = through_of b \<and>
      \<not> overflow_op (clear_op b)"
    and purge_law: "inv b \<Longrightarrow> inv (fst (purge_op b)) \<and> iter_op (fst (purge_op b)) = [] \<and>
      cap_of (fst (purge_op b)) = cap_of b \<and> snd (purge_op b) = length (iter_op b) \<and>
      overflow_op (fst (purge_op b)) = overflow_op b"
begin

lemmas push_laws = inv_push iter_push cap_push strategy_push through_push overflow_push

lemma run_inv:
  "inv b \<Longrightarrow> ops_ready ready push_op mark_op b ops \<Longrightarrow> inv (run_ops push_op mark_op b ops)"
  by (induction ops arbitrary: b rule: pushed.induct) (auto simp: inv_push mark_law)

lemma run_overflow_mono:
  "inv b \<Longrightarrow> ops_ready ready push_op mark_op b ops \<Longrightarrow> overflow_op b \<Longrightarrow>
   overflow_op (run_ops push_op mark_op b ops)"
  by (induction ops arbitrary: b rule: pushed.induct) (auto simp: push_laws mark_law)

lemma run_through_mono:
  "inv b \<Longrightarrow> ops_ready ready push_op mark_op b ops \<Longrightarrow>
   through_of b \<le> through_of (run_ops push_op mark_op b ops)"
proof (induction ops arbitrary: b rule: pushed.induct)
  case (2 e ops)
  then have "through_of (fst (push_op b e)) \<le> through_of (run_ops push_op mark_op b (Push e # ops))"
    by (auto simp: inv_push)
  with 2 show ?case by (simp add: through_push)
next
  case (3 i ops)
  then have "max (through_of b) (as_u64 i) \<le> through_of (run_ops push_op mark_op b (MarkFormatted i # ops))"
    using mark_law [of b i] by fastforce
  then show ?case by simp
qed simp

lemma push_keeps_unformatted:
  assumes "inv b" and "cap_of b \<noteq> 0" and "\<not> overflow_op (fst (push_op b e))"
    and "x \<in> set (iter_op b) \<union> {e}" and "entry_num x > through_of b"
  shows "x \<in> set (iter_op (fst (push_op b e)))"
proof (cases "length (iter_op b) < cap_of b")
  case True
  with assms show ?thesis by (auto simp: push_laws spec_push_def)
next
  case False
  with iter_bound [OF assms(1)] have full: "length (iter_op b) = cap_of b" by simp
  with assms(1-3) have s: "strategy_of b = DropOldest"
    and h: "\<not> entry_num (hd (iter_op b)) > through_of b"
    by (auto simp: overflow_push)
  have "x \<in> set (tl (iter_op b)) \<union> {e}"
    using assms(4,5) h by (cases "iter_op b") auto
  with assms(1,2) full s show ?thesis by (simp add: push_laws spec_push_def)
qed

text \<open>
  A push that leaves the overflow flag clear adds its entry behind the ones after \<open>a\<close>, when
  everything up to \<open>a\<close> counts as formatted no further than \<open>a\<close>.
\<close>

lemma push_extends_pending:
  assumes "inv b" and "cap_of b \<noteq> 0" and "\<not> overflow_op (fst (push_op b e))"
    and "through_of b \<le> as_u64 a" and "as_u64 a < entry_num e" and "ready b e"
  shows "iter_from_op (fst (push_op b e)) a = iter_from_op b a @ [e]"
proof (cases "length (iter_op b) < cap_of b")
  case True
  with assms show ?thesis by (simp add: push_laws iter_from_law spec_push_def)
next
  case False
  with iter_bound [OF assms(1)] have full: "length (iter_op b) = cap_of b" by simp
  with assms(1-3) have s: "strategy_of b = DropOldest"
    and h: "entry_num (hd (iter_op b)) \<le> through_of b"
    by (auto simp: overflow_push)
  from full assms(2) obtain x xs where es: "iter_op b = x # xs" by (cases "iter_op b") auto
  with h assms(4) have "\<not> as_u64 a < entry_num x" by simp
  with es s full assms show ?thesis
    by (simp add: push_laws iter_from_law spec_push_def)
qed

text \<open>
  While the overflow flag stays clear, no entry after the newest formatted one is lost.
\<close>

lemma no_unreported_loss:
  assumes "inv b" and "ops_ready ready push_op mark_op b ops" and "cap_of b \<noteq> 0"
    and "\<not> overflow_op (run_ops push_op mark_op b ops)"
    and "x \<in> set (iter_op b) \<union> set (pushed ops)"
    and "entry_num x > through_of (run_ops push_op mark_op b ops)"
  shows "x \<in> set (iter_op (run_ops push_op mark_op b ops))"
  using assms
proof (induction ops arbitrary: b rule: pushed.induct)
  case (2 e ops)
  let ?b = "fst (push_op b e)"
  have inv': "inv ?b" and rdy: "ops_ready ready push_op mark_op ?b ops"
    using "2.prems" by (auto simp: inv_push)
  have clean: "\<not> overflow_op ?b"
    using run_overflow_mono [OF inv' rdy] "2.prems"(4) by auto
  have "through_of b < entry_num x"
    using run_through_mono [of b "Push e # ops"] "2.prems" by auto
  then have "x \<in> set (iter_op ?b) \<union> set (pushed ops)"
    using push_keeps_unformatted [OF "2.prems"(1,3) clean] "2.prems"(5) by auto
  then show ?case
    using "2.IH" [OF inv' rdy] "2.prems" by (simp add: cap_push)
next
  case (3 i ops)
  then show ?case using mark_law [of b i] by simp
qed simp

text \<open>A backend that drops its oldest entry holds the newest entries of what was stored.\<close>

lemma run_drop_oldest:
  assumes "inv b" and "ops_ready ready push_op mark_op b ops" and "cap_of b \<noteq> 0"
    and "strategy_of b = DropOldest"
  shows "iter_op (run_ops push_op mark_op b ops) = newest (cap_of b) (iter_op b @ pushed ops)"
  using assms
proof (induction ops arbitrary: b rule: pushed.induct)
  case 1
  then show ?case using iter_bound [of b] by (simp add: newest_def)
next
  case (2 e ops)
  have "iter_op (fst (push_op b e)) = newest (cap_of b) (iter_op b @ [e])"
    using "2.prems" iter_bound [of b]
    by (auto simp: iter_push spec_push_def newest_def Suc_diff_le drop_Suc)
  then have "iter_op (run_ops push_op mark_op b (Push e # ops)) =
      newest (cap_of b) (newest (cap_of b) (iter_op b @ [e]) @ pushed ops)"
    using "2.IH" [of "fst (push_op b e)"] "2.prems" by (simp add: push_laws)
  then show ?case by (simp add: newest_append)
next
  case (3 i ops)
  then show ?case using mark_law [of b i] by simp
qed

text \<open>
  The two ways to resume transmission agree: the entries \<open>iter_from\<close> returns are the ones
  stored after the entry \<open>seek\<close> found.
\<close>

lemma resume_after:
  assumes "inv b" and "x \<in> set (iter_op b)"
  obtains older where "iter_op b = older @ x # iter_from_op b (entry_id x)"
    and "seek_op b (entry_id x) =
      (case iter_from_op b (entry_id x) of [] \<Rightarrow> FoundLast | n # _ \<Rightarrow> FoundWithNext n)"
proof -
  obtain older newer where es: "iter_op b = older @ x # newer"
    using assms(2) by (meson split_list)
  have s: "sorted_wrt (<) (map entry_num older @ entry_num x # map entry_num newer)"
    using iter_sorted [OF assms(1)] es by simp
  then have f: "iter_from_op b (entry_id x) = newer"
    by (auto simp: iter_from_law [OF assms(1)] es sorted_wrt_append filter_empty_conv
        intro!: filter_True)
  have "dropWhile (\<lambda>e. entry_id e \<noteq> entry_id x) (iter_op b) = x # newer"
    using s by (auto simp: es sorted_wrt_append dropWhile_append)
  then have "seek_op b (entry_id x) = (case newer of [] \<Rightarrow> FoundLast | n # _ \<Rightarrow> FoundWithNext n)"
    by (simp add: seek_law [OF assms(1)] spec_seek_def split: list.split)
  with es f that show thesis by blast
qed

end

section \<open>The in-memory buffer\<close>

record report_buffer =
  capacity :: nat
  entries :: "report_entry list"
  entry_index :: "array8 \<rightharpoonup> u64"
  next_seq :: u64
  front_seq :: u64
  enqueue_count :: u64
  overflow :: bool
  formatted_through :: u64
  strategy :: overflow_strategy
  dropped_counter :: "u64 option"

definition buffer_with_strategy :: "nat \<Rightarrow> overflow_strategy \<Rightarrow> report_buffer" where
  "buffer_with_strategy cap s =
     \<lparr>capacity = cap, entries = [], entry_index = Map.empty, next_seq = 0, front_seq = 0,
      enqueue_count = 0, overflow = True, formatted_through = 0, strategy = s,
      dropped_counter = None\<rparr>"

definition buffer_new :: "nat \<Rightarrow> report_buffer" where
  "buffer_new cap = buffer_with_strategy cap DropOldest"

definition bump_dropped_counter :: "report_buffer \<Rightarrow> report_buffer" where
  "bump_dropped_counter b =
     (case dropped_counter b of None \<Rightarrow> b | Some c \<Rightarrow> b\<lparr>dropped_counter := Some (c + 1)\<rparr>)"

text \<open>
  The \<open>while\<close> loop of the \<open>DropOldest\<close> branch: evict from the front until there is room.
  The two flags are \<open>evicted\<close> and \<open>lost_unformatted\<close>.
\<close>

function evict_loop :: "report_buffer \<Rightarrow> bool \<Rightarrow> bool \<Rightarrow> report_buffer \<times> bool \<times> bool" where
  "evict_loop b evicted lost =
     (if length (entries b) \<ge> capacity b then
        (case entries b of
           [] \<Rightarrow> (b, evicted, lost)
         | old # rest \<Rightarrow>
             evict_loop
               (bump_dropped_counter
                  (b\<lparr>entries := rest,
                     entry_index := (entry_index b)(entry_id_bytes (entry_id old) := None),
                     front_seq := saturating_add (front_seq b) 1\<rparr>))
               True (lost \<or> entry_num old > formatted_through b))
      else (b, evicted, lost))"
  by pat_completeness auto
termination
  by (relation "measure (\<lambda>(b, _, _). length (entries b))")
     (auto simp: bump_dropped_counter_def split: option.splits)

declare evict_loop.simps [simp del]

definition store_entry :: "report_buffer \<Rightarrow> report_entry \<Rightarrow> report_buffer" where
  "store_entry b e =
     b\<lparr>entry_index := (entry_index b)(entry_id_bytes (entry_id e) \<mapsto> next_seq b),
       entries := entries b @ [e],
       next_seq := saturating_add (next_seq b) 1,
       enqueue_count := saturating_add (enqueue_count b) 1\<rparr>"

definition push :: "report_buffer \<Rightarrow> report_entry \<Rightarrow> report_buffer \<times> bool" where
  "push b e =
     (if capacity b = 0 then (b, False)
      else if length (entries b) \<ge> capacity b then
        (case strategy b of
           DropOldest \<Rightarrow>
             (let (b', evicted, lost) = evict_loop b False False;
                  b'' = store_entry b' e
              in ((if lost then b''\<lparr>overflow := True\<rparr> else b''), evicted))
         | DropNewest \<Rightarrow> ((bump_dropped_counter b)\<lparr>overflow := True\<rparr>, True)
         | Reject \<Rightarrow> ((bump_dropped_counter b)\<lparr>overflow := True\<rparr>, True))
      else (store_entry b e, False))"

definition nth_entry :: "report_buffer \<Rightarrow> nat \<Rightarrow> report_entry option" where
  "nth_entry b i = (if i < length (entries b) then Some (entries b ! i) else None)"

definition find_entry :: "report_buffer \<Rightarrow> entry_id \<Rightarrow> report_entry option" where
  "find_entry b i =
     (case entry_index b (entry_id_bytes i) of
        None \<Rightarrow> None
      | Some seq \<Rightarrow>
          (case checked_sub seq (front_seq b) of
             None \<Rightarrow> None
           | Some rel \<Rightarrow> nth_entry b (unat rel)))"

definition seek_to_after_entry_id :: "report_buffer \<Rightarrow> entry_id \<Rightarrow> seek_result" where
  "seek_to_after_entry_id b i =
     (case entry_index b (entry_id_bytes i) of
        None \<Rightarrow> NotFound
      | Some seq \<Rightarrow>
          (case checked_sub seq (front_seq b) of
             None \<Rightarrow> NotFound
           | Some rel \<Rightarrow>
               (if unat rel + 1 \<ge> length (entries b) then FoundLast
                else (case nth_entry b (unat rel + 1) of
                        Some next \<Rightarrow> FoundWithNext next
                      | None \<Rightarrow> NotFound))))"

definition purge :: "report_buffer \<Rightarrow> report_buffer \<times> nat" where
  "purge b =
     (b\<lparr>entries := [], entry_index := Map.empty, front_seq := next_seq b\<rparr>, length (entries b))"

definition buffer_len :: "report_buffer \<Rightarrow> nat" where
  "buffer_len b = length (entries b)"

definition is_overflow :: "report_buffer \<Rightarrow> bool" where
  "is_overflow b = overflow b"

definition clear_overflow :: "report_buffer \<Rightarrow> report_buffer" where
  "clear_overflow b = b\<lparr>overflow := False\<rparr>"

definition mark_formatted :: "report_buffer \<Rightarrow> entry_id \<Rightarrow> report_buffer" where
  "mark_formatted b i = b\<lparr>formatted_through := max (formatted_through b) (as_u64 i)\<rparr>"

definition set_formatted_through :: "report_buffer \<Rightarrow> entry_id option \<Rightarrow> report_buffer" where
  "set_formatted_through b oi =
     b\<lparr>formatted_through := (case oi of None \<Rightarrow> 0 | Some i \<Rightarrow> as_u64 i)\<rparr>"

definition iter_entries :: "report_buffer \<Rightarrow> report_entry list" where
  "iter_entries b = entries b"

definition newest_entry :: "report_buffer \<Rightarrow> report_entry option" where
  "newest_entry b = (if entries b = [] then None else Some (last (entries b)))"

definition iter_from :: "report_buffer \<Rightarrow> entry_id \<Rightarrow> report_entry list" where
  "iter_from b after = filter (\<lambda>e. entry_num e > as_u64 after) (entries b)"

definition set_dropped_counter :: "report_buffer \<Rightarrow> u64 \<Rightarrow> report_buffer" where
  "set_dropped_counter b c = b\<lparr>dropped_counter := Some c\<rparr>"

abbreviation entry_key :: "report_entry \<Rightarrow> array8" where
  "entry_key e \<equiv> entry_id_bytes (entry_id e)"

definition buffer_inv :: "report_buffer \<Rightarrow> bool" where
  "buffer_inv b \<longleftrightarrow>
     length (entries b) \<le> capacity b \<and>
     sorted_wrt (<) (map entry_num (entries b)) \<and>
     unat (next_seq b) = unat (front_seq b) + length (entries b) \<and>
     (\<forall>k s. entry_index b k = Some s \<longleftrightarrow>
        (\<exists>i < length (entries b). entry_key (entries b ! i) = k \<and> unat s = unat (front_seq b) + i))"

definition accepts :: "report_buffer \<Rightarrow> report_entry \<Rightarrow> bool" where
  "accepts b e \<longleftrightarrow>
     (\<forall>x \<in> set (entries b). entry_num x < entry_num e) \<and> unat (next_seq b) < 2 ^ 64 - 1"

lemma buffer_invD:
  assumes "buffer_inv b"
  shows "length (entries b) \<le> capacity b"
    and "sorted_wrt (<) (map entry_num (entries b))"
    and "unat (next_seq b) = unat (front_seq b) + length (entries b)"
    and "\<And>k s. entry_index b k = Some s \<longleftrightarrow>
        (\<exists>i < length (entries b). entry_key (entries b ! i) = k \<and> unat s = unat (front_seq b) + i)"
  using assms by (auto simp: buffer_inv_def)

lemma bump_dropped_counter_simps [simp]:
  "entries (bump_dropped_counter b) = entries b"
  "capacity (bump_dropped_counter b) = capacity b"
  "entry_index (bump_dropped_counter b) = entry_index b"
  "next_seq (bump_dropped_counter b) = next_seq b"
  "front_seq (bump_dropped_counter b) = front_seq b"
  "overflow (bump_dropped_counter b) = overflow b"
  "formatted_through (bump_dropped_counter b) = formatted_through b"
  "strategy (bump_dropped_counter b) = strategy b"
  "enqueue_count (bump_dropped_counter b) = enqueue_count b"
  by (simp_all add: bump_dropped_counter_def split: option.splits)

text \<open>One turn of the eviction loop.\<close>

definition pop_front :: "report_buffer \<Rightarrow> report_buffer" where
  "pop_front b =
     bump_dropped_counter
       (b\<lparr>entries := tl (entries b),
          entry_index := (entry_index b)(entry_key (hd (entries b)) := None),
          front_seq := saturating_add (front_seq b) 1\<rparr>)"

lemma evict_loop_full:
  assumes "length (entries b) = capacity b" and "capacity b \<noteq> 0"
  shows "evict_loop b ev lost =
    (pop_front b, True, lost \<or> entry_num (hd (entries b)) > formatted_through b)"
proof -
  obtain old rest where e: "entries b = old # rest"
    using assms by (cases "entries b") auto
  have "\<not> length (entries (pop_front b)) \<ge> capacity (pop_front b)"
    using assms e by (simp add: pop_front_def)
  then show ?thesis using assms e
    by (subst evict_loop.simps) (simp add: evict_loop.simps [of "pop_front b"] pop_front_def [symmetric]
        pop_front_def [of b, unfolded e, simplified, symmetric])
qed

lemma unat_seq_succ:
  "unat (w :: u64) < 2 ^ 64 - 1 \<Longrightarrow> unat (saturating_add w 1) = unat w + 1"
  by (simp add: unat_saturating_add)

lemma pop_front_inv:
  assumes inv: "buffer_inv b" and ne: "entries b \<noteq> []"
  shows "buffer_inv (pop_front b)"
proof -
  obtain old rest where e: "entries b = old # rest" using ne by (cases "entries b") auto
  note I = buffer_invD [OF inv]
  have "unat (front_seq b) < 2 ^ 64 - 1"
    using I(3) e unat_u64_less [of "next_seq b"] by simp
  then have f: "unat (saturating_add (front_seq b) 1) = unat (front_seq b) + 1"
    by (rule unat_seq_succ)
  have fresh: "entry_key (rest ! i) \<noteq> entry_key old" if "i < length rest" for i
    using I(2) e that by (fastforce simp: set_conv_nth)
  have idx: "((entry_index b)(entry_key old := None)) k = Some s \<longleftrightarrow>
      (\<exists>i < length rest. entry_key (rest ! i) = k \<and> unat s = Suc (unat (front_seq b) + i))" for k s
  proof (cases "k = entry_key old")
    case True
    with fresh show ?thesis by auto
  next
    case False
    then have "((entry_index b)(entry_key old := None)) k = Some s \<longleftrightarrow>
        (\<exists>i < length (old # rest). entry_key ((old # rest) ! i) = k \<and> unat s = unat (front_seq b) + i)"
      using I(4) [of k s] e by simp
    also have "\<dots> \<longleftrightarrow> (\<exists>i < length rest. entry_key (rest ! i) = k \<and> unat s = Suc (unat (front_seq b) + i))"
      using False by (auto simp: less_Suc_eq_0_disj)
    finally show ?thesis .
  qed
  show ?thesis
    unfolding buffer_inv_def using I(1-3) e f idx by (simp add: pop_front_def)
qed

lemma store_entry_inv:
  assumes inv: "buffer_inv b" and acc: "accepts b e" and room: "length (entries b) < capacity b"
  shows "buffer_inv (store_entry b e)"
proof -
  note I = buffer_invD [OF inv]
  have n: "unat (saturating_add (next_seq b) 1) = unat (next_seq b) + 1"
    using acc by (intro unat_seq_succ) (simp add: accepts_def)
  have fresh: "entry_key (entries b ! i) \<noteq> entry_key e" if "i < length (entries b)" for i
  proof -
    have "entry_num (entries b ! i) < entry_num e"
      using acc that by (simp add: accepts_def)
    then show ?thesis by auto
  qed
  have idx: "((entry_index b)(entry_key e \<mapsto> next_seq b)) k = Some s \<longleftrightarrow>
      (\<exists>i < Suc (length (entries b)). entry_key ((entries b @ [e]) ! i) = k \<and>
         unat s = unat (front_seq b) + i)" for k s
  proof (cases "k = entry_key e")
    case True
    with fresh I(3) show ?thesis
      by (auto simp: less_Suc_eq nth_append word_unat_eq_iff)
  next
    case False
    with I(4) [of k s] show ?thesis
      by (auto simp: less_Suc_eq nth_append)
  qed
  show ?thesis
    unfolding buffer_inv_def using I(1-3) n idx acc room
    by (simp add: store_entry_def sorted_wrt_append accepts_def)
qed


lemma buffer_inv_overflow [simp]: "buffer_inv (b\<lparr>overflow := v\<rparr>) \<longleftrightarrow> buffer_inv b"
  by (simp add: buffer_inv_def)

lemma buffer_inv_formatted [simp]: "buffer_inv (b\<lparr>formatted_through := v\<rparr>) \<longleftrightarrow> buffer_inv b"
  by (simp add: buffer_inv_def)

lemma buffer_inv_bump [simp]: "buffer_inv (bump_dropped_counter b) \<longleftrightarrow> buffer_inv b"
  by (simp add: buffer_inv_def)

lemma buffer_inv_new: "buffer_inv (buffer_with_strategy cap s)"
  by (simp add: buffer_inv_def buffer_with_strategy_def)

lemma pop_front_simps [simp]:
  "entries (pop_front b) = tl (entries b)" "capacity (pop_front b) = capacity b"
  "next_seq (pop_front b) = next_seq b" "overflow (pop_front b) = overflow b"
  "formatted_through (pop_front b) = formatted_through b" "strategy (pop_front b) = strategy b"
  by (simp_all add: pop_front_def)

lemma store_entry_simps [simp]:
  "entries (store_entry b e) = entries b @ [e]" "capacity (store_entry b e) = capacity b"
  "overflow (store_entry b e) = overflow b" "strategy (store_entry b e) = strategy b"
  "formatted_through (store_entry b e) = formatted_through b"
  by (simp_all add: store_entry_def)

lemma accepts_pop_front: "accepts b e \<Longrightarrow> entries b \<noteq> [] \<Longrightarrow> accepts (pop_front b) e"
  by (auto simp: accepts_def dest: list.set_sel(2))

text \<open>\<open>push\<close> by cases, the loop of a full buffer replaced by the one eviction it makes.\<close>

lemma push_cases:
  assumes "buffer_inv b"
  shows "push b e =
    (if capacity b = 0 then (b, False)
     else if length (entries b) < capacity b then (store_entry b e, False)
     else if strategy b = DropOldest then
       ((store_entry (pop_front b) e)
          \<lparr>overflow := overflow b \<or> entry_num (hd (entries b)) > formatted_through b\<rparr>, True)
     else ((bump_dropped_counter b)\<lparr>overflow := True\<rparr>, True))"
proof -
  have "length (entries b) \<le> capacity b" using assms by (rule buffer_invD)
  then consider "capacity b = 0" | "capacity b \<noteq> 0" "length (entries b) < capacity b"
    | "capacity b \<noteq> 0" "length (entries b) = capacity b" by linarith
  then show ?thesis
  proof cases
    case 3
    have "(store_entry (pop_front b) e)\<lparr>overflow := overflow b\<rparr> = store_entry (pop_front b) e"
      by simp
    with 3 show ?thesis
      by (cases "strategy b"; cases "formatted_through b < entry_num (hd (entries b))")
         (simp_all add: push_def evict_loop_full Let_def)
  qed (simp_all add: push_def)
qed

lemma push_inv:
  assumes "buffer_inv b" and "accepts b e"
  shows "buffer_inv (fst (push b e))"
proof -
  have "length (entries b) \<le> capacity b" using assms(1) by (rule buffer_invD)
  moreover have "buffer_inv (store_entry (pop_front b) e)"
    if "length (entries b) = capacity b" "capacity b \<noteq> 0"
    using that assms by (intro store_entry_inv pop_front_inv accepts_pop_front) auto
  ultimately show ?thesis
    using assms by (auto simp: push_cases store_entry_inv not_less le_less)
qed

lemma push_entries:
  assumes "buffer_inv b"
  shows "entries (fst (push b e)) = spec_push (capacity b) (strategy b) (entries b) e"
  using assms by (auto simp: push_cases spec_push_def split: overflow_strategy.split)

lemma index_hit:
  assumes "buffer_inv b" and "i < length (entries b)"
  shows "entry_index b (entry_key (entries b ! i)) = Some (front_seq b + of_nat i)"
proof -
  note I = buffer_invD [OF assms(1)]
  have "unat (front_seq b) + i < 2 ^ 64"
    using I(3) assms(2) unat_u64_less [of "next_seq b"] by simp
  then have "unat (front_seq b + of_nat i) = unat (front_seq b) + i"
    by (simp add: unat_word_ariths unat_of_nat)
  then show ?thesis using I(4) assms(2) by blast
qed

lemma index_rel:
  assumes "buffer_inv b" and "i < length (entries b)"
  shows "checked_sub (front_seq b + of_nat i) (front_seq b) = Some (of_nat i) \<and>
    unat (of_nat i :: u64) = i"
proof -
  have l: "unat (front_seq b) + i < 2 ^ 64"
    using buffer_invD(3) [OF assms(1)] assms(2) unat_u64_less [of "next_seq b"] by simp
  then have "unat (front_seq b + of_nat i) = unat (front_seq b) + i"
    by (simp add: unat_word_ariths unat_of_nat)
  with l show ?thesis by (simp add: checked_sub_Some unat_of_nat)
qed

lemma index_miss:
  assumes "buffer_inv b" and "\<forall>e \<in> set (entries b). entry_id e \<noteq> i"
  shows "entry_index b (entry_id_bytes i) = None"
proof (rule ccontr)
  assume "entry_index b (entry_id_bytes i) \<noteq> None"
  then obtain s where "entry_index b (entry_id_bytes i) = Some s" by auto
  then obtain j where "j < length (entries b)" "entry_key (entries b ! j) = entry_id_bytes i"
    using buffer_invD(4) [OF assms(1)] by blast
  with assms(2) show False by auto
qed

lemma find_entry_spec:
  assumes "buffer_inv b"
  shows "find_entry b i = find (\<lambda>e. entry_id e = i) (entries b)"
proof (cases "\<exists>j < length (entries b). entry_id (entries b ! j) = i")
  case False
  then have "\<forall>e \<in> set (entries b). entry_id e \<noteq> i" by (auto simp: in_set_conv_nth)
  then show ?thesis
    by (simp add: find_entry_def index_miss [OF assms] find_None_iff [THEN iffD2])
next
  case True
  then obtain j where j: "j < length (entries b)" "entry_id (entries b ! j) = i" by blast
  have "find (\<lambda>e. entry_id e = i) (entries b) = Some (entries b ! j)"
    unfolding find_Some_iff using j sorted_ids_distinct [OF buffer_invD(2) [OF assms]]
    by (intro exI [of _ j]) (auto simp: distinct_conv_nth)
  moreover have "find_entry b i = Some (entries b ! j)"
    using index_hit [OF assms j(1)] index_rel [OF assms j(1)] j
    by (simp add: find_entry_def nth_entry_def)
  ultimately show ?thesis by simp
qed

lemma seek_spec:
  assumes "buffer_inv b"
  shows "seek_to_after_entry_id b i = spec_seek (entries b) i"
proof (cases "\<exists>j < length (entries b). entry_id (entries b ! j) = i")
  case False
  then have miss: "\<forall>e \<in> set (entries b). entry_id e \<noteq> i" by (auto simp: in_set_conv_nth)
  then have d: "dropWhile (\<lambda>e. entry_id e \<noteq> i) (entries b) = []" by simp
  show ?thesis
    unfolding spec_seek_def d by (simp add: seek_to_after_entry_id_def index_miss [OF assms miss])
next
  case True
  then obtain j where j: "j < length (entries b)" "entry_id (entries b ! j) = i" by blast
  have d: "dropWhile (\<lambda>e. entry_id e \<noteq> i) (entries b) = entries b ! j # drop (Suc j) (entries b)"
    using dropWhile_at [OF sorted_ids_distinct [OF buffer_invD(2) [OF assms]] j(1)] j
    by (simp add: Cons_nth_drop_Suc)
  have "seek_to_after_entry_id b i =
      (if j + 1 \<ge> length (entries b) then FoundLast else FoundWithNext (entries b ! (j + 1)))"
    using index_hit [OF assms j(1)] index_rel [OF assms j(1)] j
    by (simp add: seek_to_after_entry_id_def nth_entry_def)
  moreover have "drop (Suc j) (entries b) = entries b ! Suc j # drop (Suc (Suc j)) (entries b)"
    if "Suc j < length (entries b)"
    using that by (simp add: Cons_nth_drop_Suc)
  ultimately show ?thesis
    by (auto simp: spec_seek_def d split: list.split)
qed



lemma purge_inv: "buffer_inv b \<Longrightarrow> buffer_inv (fst (purge b))"
  by (auto simp: buffer_inv_def purge_def)

section \<open>The in-memory buffer keeps the contract\<close>

interpretation mem: report_buffer_backend push find_entry seek_to_after_entry_id purge
  is_overflow clear_overflow mark_formatted set_formatted_through iter_entries iter_from
  capacity strategy formatted_through buffer_inv accepts
proof (unfold_locales, goal_cases)
  case (1 b e)
  then show ?case by (rule push_inv)
next
  case (2 b e)
  then show ?case by (simp add: iter_entries_def push_entries)
next
  case (6 b e)
  then show ?case
    using buffer_invD(1) [of b]
    by (auto simp: push_cases is_overflow_def iter_entries_def)
next
  case (9 b i)
  then show ?case by (simp add: find_entry_spec iter_entries_def)
next
  case (10 b i)
  then show ?case by (simp add: seek_spec iter_entries_def)
next
  case (15 b)
  then show ?case
    using purge_inv [of b] by (simp add: purge_def iter_entries_def is_overflow_def)
qed (auto simp: push_cases iter_entries_def iter_from_def is_overflow_def mark_formatted_def
      set_formatted_through_def clear_overflow_def dest: buffer_invD)

text \<open>Concrete data for the witnesses: entries numbered by their EntryID, a cleared buffer of two.\<close>

definition sample_entry :: "u64 \<Rightarrow> report_entry" where
  "sample_entry n = report_entry_new (entry_id_from_ms n) n False False []"

definition sample_buffer :: report_buffer where
  "sample_buffer = clear_overflow (buffer_new 2)"

definition sample_ops :: "buffer_op list" where
  "sample_ops = [Push (sample_entry 5), Push (sample_entry 6),
     MarkFormatted (entry_id_from_ms 5), Push (sample_entry 7)]"

lemma sample_entry_simps [simp]:
  "entry_id (sample_entry n) = entry_id_from_ms n"
  "sample_entry m = sample_entry n \<longleftrightarrow> m = n"
  by (simp_all add: sample_entry_def report_entry_new_def)
     (metis as_u64_from_ms)

lemma sample_buffer_inv: "buffer_inv sample_buffer"
  by (simp add: sample_buffer_def mem.clear_law buffer_new_def buffer_inv_new)

lemmas sample_simps = sample_buffer_def sample_ops_def buffer_new_def buffer_with_strategy_def
  clear_overflow_def mark_formatted_def iter_entries_def is_overflow_def accepts_def
  push_def evict_loop.simps store_entry_def bump_dropped_counter_def saturating_add_def

text \<open>
  C29. Pushing an entry with a fresh, larger EntryID keeps the representation invariant (length
  within capacity, EntryIDs strictly increasing, sequence numbers and index agreeing with
  the positions) and stores exactly what the overflow strategy asks for: append while there
  is room, evict the oldest, or reject the new one.
\<close>

theorem push_refines_spec:
  assumes "buffer_inv b" and "accepts b e"
  shows "buffer_inv (fst (push b e)) \<and>
    iter_entries (fst (push b e)) = spec_push (capacity b) (strategy b) (iter_entries b) e"
  using assms by (simp add: mem.inv_push mem.iter_push)

theorem push_refines_spec_witness:
  "buffer_inv sample_buffer \<and> accepts sample_buffer (sample_entry 5) \<and>
   buffer_inv (fst (push sample_buffer (sample_entry 5))) \<and>
   iter_entries (fst (push sample_buffer (sample_entry 5))) = [sample_entry 5]"
proof -
  have acc: "accepts sample_buffer (sample_entry 5)"
    by (simp add: sample_simps)
  show ?thesis
    using push_refines_spec [OF sample_buffer_inv acc] sample_buffer_inv acc
    by (simp add: spec_push_def) (simp add: sample_simps)
qed

text \<open>
  The constant-time lookups through the EntryID index and the front sequence number give
  what a linear scan of the entries gives, for every EntryID, stored or not.
\<close>

theorem lookup_equals_scan:
  assumes "buffer_inv b"
  shows "find_entry b i = find (\<lambda>e. entry_id e = i) (iter_entries b) \<and>
    seek_to_after_entry_id b i = spec_seek (iter_entries b) i"
  using assms by (simp add: mem.find_law mem.seek_law)

theorem lookup_equals_scan_witness:
  "buffer_inv sample_buffer \<and>
   find_entry (fst (push sample_buffer (sample_entry 5))) (entry_id_from_ms 5) = Some (sample_entry 5) \<and>
   seek_to_after_entry_id sample_buffer (entry_id_from_ms 5) = NotFound"
proof -
  have acc: "accepts sample_buffer (sample_entry 5)"
    by (simp add: sample_simps)
  note inv' = push_inv [OF sample_buffer_inv acc]
  show ?thesis
    using sample_buffer_inv lookup_equals_scan [OF inv'] lookup_equals_scan [OF sample_buffer_inv]
    by (simp add: spec_seek_def push_entries [OF sample_buffer_inv] iter_entries_def)
       (simp add: sample_simps spec_push_def)
qed

text \<open>
  After any sequence of pushes and formatted marks a buffer of non-zero capacity that
  drops its oldest entry holds exactly the newest entries, at most its capacity of them, of
  the entries it held followed by those pushed, in order.
\<close>

theorem buffer_holds_newest:
  assumes "buffer_inv b" and "ops_ready accepts push mark_formatted b ops"
    and "capacity b \<noteq> 0" and "strategy b = DropOldest"
  shows "iter_entries (run_ops push mark_formatted b ops) =
    newest (capacity b) (iter_entries b @ pushed ops)"
  using assms by (rule mem.run_drop_oldest)

theorem buffer_holds_newest_witness:
  "ops_ready accepts push mark_formatted sample_buffer sample_ops \<and>
   iter_entries (run_ops push mark_formatted sample_buffer sample_ops) =
     [sample_entry 6, sample_entry 7]"
proof -
  have r: "ops_ready accepts push mark_formatted sample_buffer sample_ops"
    by (simp add: sample_simps)
  have c: "capacity sample_buffer = 2" "strategy sample_buffer = DropOldest"
      "iter_entries sample_buffer = []"
    by (simp_all add: sample_simps)
  show ?thesis
    using r buffer_holds_newest [OF sample_buffer_inv r] c
    by (simp add: newest_def sample_ops_def)
qed

text \<open>
  C32. No loss without indication: if the overflow flag is still clear after a sequence of
  pushes and formatted marks, every entry that was in the buffer or was pushed and is newer
  than the newest entry formatted for transmission is still in the buffer, whatever the
  overflow strategy.
\<close>

theorem overflow_flag_covers_losses:
  assumes "buffer_inv b" and "ops_ready accepts push mark_formatted b ops"
    and "capacity b \<noteq> 0" and "\<not> is_overflow (run_ops push mark_formatted b ops)"
    and "x \<in> set (iter_entries b) \<union> set (pushed ops)"
    and "formatted_through (run_ops push mark_formatted b ops) < entry_num x"
  shows "x \<in> set (iter_entries (run_ops push mark_formatted b ops))"
  using assms by (rule mem.no_unreported_loss)

theorem overflow_flag_covers_losses_witness:
  "ops_ready accepts push mark_formatted sample_buffer sample_ops \<and>
   \<not> is_overflow (run_ops push mark_formatted sample_buffer sample_ops) \<and>
   formatted_through (run_ops push mark_formatted sample_buffer sample_ops) = 5 \<and>
   sample_entry 6 \<in> set (iter_entries (run_ops push mark_formatted sample_buffer sample_ops))"
proof -
  have r: "ops_ready accepts push mark_formatted sample_buffer sample_ops"
    and o: "\<not> is_overflow (run_ops push mark_formatted sample_buffer sample_ops)"
    and f: "formatted_through (run_ops push mark_formatted sample_buffer sample_ops) = 5"
    and c: "capacity sample_buffer \<noteq> 0"
    and x: "sample_entry 6 \<in> set (iter_entries sample_buffer) \<union> set (pushed sample_ops)"
    by (simp_all add: sample_simps)
  have "sample_entry 6 \<in> set (iter_entries (run_ops push mark_formatted sample_buffer sample_ops))"
    by (rule overflow_flag_covers_losses [OF sample_buffer_inv r c o x]) (simp add: f)
  with r o f show ?thesis by blast
qed

end
