(* ===== verification/Report_Channel.thy ===== *)
theory Report_Channel
  imports Prelude
begin

text \<open>
  The bounded report channel of one connection: crates/iec61850-server/src/reporting/sink.rs and
  the segment delivery of reporting/engine.rs.

  The channel itself is a tokio mpsc channel, which is not part of the repository: its sender is a type
  parameter with the two operations the sink calls in a record, and what the code relies on is
  \<open>mpsc_laws\<close>. The sink maps a connection to its sender.
\<close>

section \<open>The sink\<close>

datatype try_send_error = Full | Closed

record 'tx mpsc =
  tx_try_send :: "'tx \<Rightarrow> bytes \<Rightarrow> 'tx \<times> (try_send_error + unit)"
  tx_capacity :: "'tx \<Rightarrow> nat"

type_synonym 'tx sink = "u64 \<rightharpoonup> 'tx"

definition REPORT_CHANNEL_CAP :: nat where
  "REPORT_CHANNEL_CAP = 32"

datatype send_outcome = Sent | WouldBlock | ReceiverDropped | ChannelNotFound

definition available_capacity :: "'tx mpsc \<Rightarrow> 'tx sink \<Rightarrow> u64 \<Rightarrow> nat option" where
  "available_capacity m sink conn = map_option (tx_capacity m) (sink conn)"

definition try_send_pdu :: "'tx mpsc \<Rightarrow> 'tx sink \<Rightarrow> u64 \<Rightarrow> bytes \<Rightarrow> 'tx sink \<times> send_outcome" where
  "try_send_pdu m sink conn pdu =
     (case sink conn of
        None \<Rightarrow> (sink, ChannelNotFound)
      | Some tx \<Rightarrow>
          (case tx_try_send m tx pdu of
             (tx, Inr _) \<Rightarrow> (sink(conn \<mapsto> tx), Sent)
           | (tx, Inl Full) \<Rightarrow> (sink(conn \<mapsto> tx), WouldBlock)
           | (tx, Inl Closed) \<Rightarrow> (sink(conn \<mapsto> tx), ReceiverDropped)))"

section \<open>Segments\<close>

datatype delivery = Complete nat | Blocked nat "bytes list" | Gone

text \<open>The loop of \<open>push_segments\<close>; \<open>sent\<close> counts the segments accepted so far.\<close>

fun push_from :: "'tx mpsc \<Rightarrow> 'tx sink \<Rightarrow> u64 \<Rightarrow> nat \<Rightarrow> bytes list \<Rightarrow> 'tx sink \<times> delivery" where
  "push_from m sink conn sent [] = (sink, Complete sent)"
| "push_from m sink conn sent (pdu # segments) =
     (case try_send_pdu m sink conn pdu of
        (sink, Sent) \<Rightarrow> push_from m sink conn (sent + 1) segments
      | (sink, WouldBlock) \<Rightarrow> (sink, Blocked sent (pdu # segments))
      | (sink, ReceiverDropped) \<Rightarrow> (sink, Gone)
      | (sink, ChannelNotFound) \<Rightarrow> (sink, Gone))"

definition push_segments :: "'tx mpsc \<Rightarrow> 'tx sink \<Rightarrow> u64 \<Rightarrow> bytes list \<Rightarrow> 'tx sink \<times> delivery" where
  "push_segments m sink conn segments = push_from m sink conn 0 segments"

definition channel_has_room :: "'tx mpsc \<Rightarrow> 'tx sink \<Rightarrow> u64 \<Rightarrow> nat \<Rightarrow> bool" where
  "channel_has_room m sink conn segments =
     (case available_capacity m sink conn of
        None \<Rightarrow> True
      | Some free \<Rightarrow> free \<ge> min segments REPORT_CHANNEL_CAP)"

section \<open>What the channel guarantees\<close>

text \<open>
  A sender of a bounded channel: an accepted PDU is queued last, a refused one changes nothing, and while
  the receiver is there a PDU is accepted exactly when there is capacity, which it takes up.
\<close>

definition mpsc_laws :: "'tx mpsc \<Rightarrow> ('tx \<Rightarrow> bytes list) \<Rightarrow> ('tx \<Rightarrow> bool) \<Rightarrow> bool" where
  "mpsc_laws m queued receiver \<longleftrightarrow>
     (\<forall>tx pdu tx' r. tx_try_send m tx pdu = (tx', r) \<longrightarrow>
        (if r = Inr () then queued tx' = queued tx @ [pdu] else tx' = tx) \<and>
        (receiver tx \<longrightarrow>
           (if tx_capacity m tx = 0 then r = Inl Full
            else r = Inr () \<and> receiver tx' \<and> tx_capacity m tx' = tx_capacity m tx - 1)))"

lemma mpsc_lawsD:
  assumes "mpsc_laws m queued receiver" and "tx_try_send m tx pdu = (tx', r)"
  shows "if r = Inr () then queued tx' = queued tx @ [pdu] else tx' = tx"
    and "receiver tx \<Longrightarrow> (if tx_capacity m tx = 0 then r = Inl Full
            else r = Inr () \<and> receiver tx' \<and> tx_capacity m tx' = tx_capacity m tx - 1)"
  using assms unfolding mpsc_laws_def by blast+

text \<open>Nothing is lost or duplicated: what was accepted and what is left make up what was given.\<close>

lemma push_conserves:
  assumes laws: "mpsc_laws m queued receiver" and "sink conn = Some tx"
    and "push_from m sink conn k segs = (sink', d)"
  shows "\<exists>tx'. sink' = sink(conn \<mapsto> tx') \<and>
    (case d of
       Complete n \<Rightarrow> queued tx' = queued tx @ segs
     | Blocked n rest \<Rightarrow> queued tx' @ rest = queued tx @ segs
     | Gone \<Rightarrow> True)"
  using assms(2,3)
proof (induction segs arbitrary: sink tx k)
  case Nil
  then show ?case by (auto intro!: exI [of _ tx])
next
  case (Cons pdu segs)
  obtain tx1 r where t: "tx_try_send m tx pdu = (tx1, r)" by fastforce
  note law = mpsc_lawsD(1) [OF laws t]
  show ?case
  proof (cases r)
    case (Inr u)
    with t Cons.prems have "push_from m (sink(conn \<mapsto> tx1)) conn (k + 1) segs = (sink', d)"
      by (simp add: try_send_pdu_def)
    from Cons.IH [OF _ this, of tx1] obtain tx' where "sink' = sink(conn \<mapsto> tx')"
      "case d of Complete n \<Rightarrow> queued tx' = queued tx1 @ segs
        | Blocked n rest \<Rightarrow> queued tx' @ rest = queued tx1 @ segs | Gone \<Rightarrow> True"
      by (auto simp only: fun_upd_upd fun_upd_same)
    with law Inr show ?thesis by (intro exI [of _ tx']) (simp split: delivery.splits)
  next
    case (Inl e)
    with t Cons.prems law show ?thesis
      by (cases e) (auto simp: try_send_pdu_def intro!: exI [of _ tx])
  qed
qed

text \<open>With the receiver there, exactly the free capacity is used.\<close>

lemma push_open:
  assumes laws: "mpsc_laws m queued receiver" and "sink conn = Some tx" and "receiver tx"
  shows "\<exists>tx'. push_from m sink conn k segs =
      (sink(conn \<mapsto> tx'), if length segs \<le> tx_capacity m tx then Complete (k + length segs)
        else Blocked (k + tx_capacity m tx) (drop (tx_capacity m tx) segs)) \<and> receiver tx'"
  using assms(2,3)
proof (induction segs arbitrary: sink tx k)
  case Nil
  then show ?case by (auto intro!: exI [of _ tx])
next
  case (Cons pdu segs)
  obtain tx1 r where t: "tx_try_send m tx pdu = (tx1, r)" by fastforce
  show ?case
  proof (cases "tx_capacity m tx")
    case 0
    with mpsc_lawsD [OF laws t] Cons.prems have "r = Inl Full" "tx1 = tx" by simp_all
    with 0 t Cons.prems show ?thesis by (auto simp: try_send_pdu_def intro!: exI [of _ tx])
  next
    case (Suc c)
    with mpsc_lawsD(2) [OF laws t] Cons.prems have r: "r = Inr ()" "receiver tx1" "tx_capacity m tx1 = c"
      by simp_all
    from Cons.IH [of "sink(conn \<mapsto> tx1)" tx1 "k + 1"] r(2) obtain tx' where
      "push_from m (sink(conn \<mapsto> tx1)) conn (k + 1) segs =
        (sink(conn \<mapsto> tx'), if length segs \<le> tx_capacity m tx1 then Complete (k + 1 + length segs)
          else Blocked (k + 1 + tx_capacity m tx1) (drop (tx_capacity m tx1) segs)) \<and> receiver tx'"
      by (auto simp only: fun_upd_upd fun_upd_same)
    with r Suc t Cons.prems show ?thesis by (intro exI [of _ tx']) (simp add: try_send_pdu_def fun_upd_def)
  qed
qed

end
