(* ===== verification/Brcb.thy ===== *)
theory Brcb
  imports Report_Buffer Report_Channel
begin

text \<open>
  The buffered report control block of crates/iec61850-server/src/reporting/brcb.rs: its
  configuration \<open>Brcb\<close>, its run-time state \<open>BrcbState\<close> and the control block
  \<open>BufferedReportControl\<close> that pairs the state with the in-memory report buffer, together
  with the transmission steps of reporting/engine.rs that move its anchor.

  The two mutexes are the two fields of one record; a method is a function on that record.
  An \<open>Instant\<close> is a number of seconds, the process-wide commit number of
  \<open>service::write::commit_seq\<close> an argument, and a \<open>String\<close> its UTF-8 octets.
\<close>

section \<open>Names\<close>

text \<open>\<open>split_once\<close>: the parts before and after the first occurrence of a character.\<close>

definition split_once :: "char \<Rightarrow> string \<Rightarrow> (string \<times> string) option" where
  "split_once c s =
     (if c \<in> set s then Some (takeWhile (\<lambda>x. x \<noteq> c) s, tl (dropWhile (\<lambda>x. x \<noteq> c) s)) else None)"

definition starts_with :: "string \<Rightarrow> char \<Rightarrow> bool" where
  "starts_with s c = (case s of [] \<Rightarrow> False | x # _ \<Rightarrow> x = c)"

definition qualified_object_reference :: "string \<Rightarrow> string \<Rightarrow> string" where
  "qualified_object_reference domain name =
     (if name = [] \<or> starts_with name CHR ''@'' \<or> CHR ''/'' \<in> set name \<or> domain = [] then name
      else domain @ ''/'' @ name)"

definition qualified_dat_set :: "string \<Rightarrow> string \<Rightarrow> string" where
  "qualified_dat_set path ds =
     qualified_object_reference (case split_once CHR ''/'' path of None \<Rightarrow> [] | Some (d, _) \<Rightarrow> d) ds"

section \<open>Data\<close>

datatype ip_addr = V4 u8 u8 u8 u8 | V6 array8 array8

type_synonym connection_id = u64

text \<open>A \<open>NonZeroU16\<close> is a 16-bit word; \<open>from_wire\<close> never makes it zero.\<close>

datatype resv_tms_state = Preconfigured | NotReserved | WithTimeout u16

definition resv_from_wire :: "i16 \<Rightarrow> resv_tms_state" where
  "resv_from_wire v =
     (if sint v < 0 then Preconfigured else if v = 0 then NotReserved
      else if v \<noteq> 0 then WithTimeout v else NotReserved)"

fun resv_to_wire :: "resv_tms_state \<Rightarrow> i16" where
  "resv_to_wire Preconfigured = -1"
| "resv_to_wire NotReserved = 0"
| "resv_to_wire (WithTimeout s) = s"

definition resv_is_reserved :: "resv_tms_state \<Rightarrow> bool" where
  "resv_is_reserved r = (r \<noteq> NotReserved)"

datatype brcb_config_field =
  CfDatSet string | CfTrgOps trigger_options | CfIntgPdMs u32 | CfBufTmMs u32 | CfRptId string

datatype config_change_result = NoChange | RequiresPurge nat

datatype brcb_write_error = WriteReportingEnabled

datatype transmit_anchor = AnchorNone | FromHead | AfterEntryId entry_id | WaitingForNext

datatype apply_entry_id_error = InvalidEntryId | ReportingEnabled

record brcb =
  brcb_name :: string
  brcb_rpt_id :: string
  brcb_dataset_name :: string
  brcb_conf_rev :: u32
  brcb_trg_ops :: trigger_options
  brcb_opt_flds :: opt_flds
  brcb_buf_tm_ms :: u32
  brcb_intg_pd_ms :: u32
  buffer_capacity :: nat
  client_reservation :: "ip_addr option"
  with_resv_tms :: bool
  with_owner :: bool

definition brcb_new :: "string \<Rightarrow> string \<Rightarrow> brcb" where
  "brcb_new name ds =
     \<lparr>brcb_name = name, brcb_rpt_id = [], brcb_dataset_name = ds, brcb_conf_rev = 1,
      brcb_trg_ops = TRG_DATA_CHANGED, brcb_opt_flds = OPT_BRCB_DEFAULT, brcb_buf_tm_ms = 0,
      brcb_intg_pd_ms = 0, buffer_capacity = 64, client_reservation = None,
      with_resv_tms = True, with_owner = True\<rparr>"

record brcb_state =
  rpt_id :: string
  rpt_ena :: bool
  dat_set :: string
  conf_rev :: u32
  opt_flds :: opt_flds
  buf_tm_ms :: u32
  sq_num :: u16
  trg_ops :: trigger_options
  intg_pd_ms :: u32
  gi :: bool
  purge_buf_pending :: bool
  last_sent_entry_id :: entry_id
  last_sent_time_of_entry_ms :: u64
  resv_tms :: resv_tms_state
  owner :: "ip_addr option"
  client_conn_id :: "connection_id option"
  is_buffering :: bool
  is_resync :: bool
  overflow_on_enable :: bool
  last_entry_id_ms :: u64
  transmit_anchor :: transmit_anchor
  last_committed_entry_id :: entry_id
  reservation_timeout :: "nat option"
  start_index_for_next_segment :: nat
  sub_seq_num :: u16
  segmented :: bool

definition state_from_brcb :: "brcb \<Rightarrow> brcb_state" where
  "state_from_brcb b =
     \<lparr>rpt_id = brcb_rpt_id b, rpt_ena = False, dat_set = brcb_dataset_name b,
      conf_rev = brcb_conf_rev b, opt_flds = brcb_opt_flds b, buf_tm_ms = brcb_buf_tm_ms b,
      sq_num = 0, trg_ops = brcb_trg_ops b, intg_pd_ms = brcb_intg_pd_ms b, gi = False,
      purge_buf_pending = False, last_sent_entry_id = entry_id_ZERO,
      last_sent_time_of_entry_ms = 0,
      resv_tms = (if client_reservation b \<noteq> None then Preconfigured else NotReserved),
      owner = None, client_conn_id = None, is_buffering = (brcb_dataset_name b \<noteq> []),
      is_resync = False, overflow_on_enable = False, last_entry_id_ms = 0,
      transmit_anchor = AnchorNone, last_committed_entry_id = entry_id_ZERO,
      reservation_timeout = None, start_index_for_next_segment = 0, sub_seq_num = 0,
      segmented = False\<rparr>"

section \<open>State operations\<close>

definition next_sq_num :: "brcb_state \<Rightarrow> brcb_state \<times> u16" where
  "next_sq_num s = (s\<lparr>sq_num := sq_num s + 1\<rparr>, sq_num s)"

definition increase_conf_rev :: "brcb_state \<Rightarrow> brcb_state" where
  "increase_conf_rev s = (let n = conf_rev s + 1 in s\<lparr>conf_rev := (if n = 0 then 1 else n)\<rparr>)"

definition allocate_entry_id :: "brcb_state \<Rightarrow> u64 \<Rightarrow> brcb_state \<times> entry_id" where
  "allocate_entry_id s now_ms =
     (let candidate = (if last_entry_id_ms s = 0 then now_ms
                       else max now_ms (saturating_add (last_entry_id_ms s) 1))
      in (s\<lparr>last_entry_id_ms := candidate\<rparr>, entry_id_from_ms candidate))"

definition tick_reservation :: "brcb_state \<Rightarrow> nat \<Rightarrow> brcb_state \<times> bool" where
  "tick_reservation s now =
     (if resv_tms s = Preconfigured then (s, False)
      else case reservation_timeout s of
        None \<Rightarrow> (s, False)
      | Some deadline \<Rightarrow>
          if now < deadline then (s, False)
          else let s1 = s\<lparr>resv_tms := NotReserved, reservation_timeout := None\<rparr>
            in ((if \<not> rpt_ena s1 then s1\<lparr>client_conn_id := None, owner := None\<rparr> else s1), True))"

text \<open>\<open>BrcbState::apply_entry_id_write\<close>; the backend is asked once, after the guard.\<close>

definition state_apply_entry_id_write ::
  "brcb_state \<Rightarrow> entry_id \<Rightarrow> report_buffer \<Rightarrow> brcb_state \<times> (apply_entry_id_error + unit)" where
  "state_apply_entry_id_write s i backend =
     (if rpt_ena s then (s, Inl ReportingEnabled)
      else let s = s\<lparr>last_committed_entry_id := i\<rparr>
        in if entry_id_is_zero i then (s\<lparr>transmit_anchor := FromHead, is_resync := False\<rparr>, Inr ())
        else case seek_to_after_entry_id backend i of
          FoundWithNext _ \<Rightarrow> (s\<lparr>transmit_anchor := AfterEntryId i, is_resync := True\<rparr>, Inr ())
        | FoundLast \<Rightarrow> (s\<lparr>transmit_anchor := WaitingForNext, is_resync := True\<rparr>, Inr ())
        | NotFound \<Rightarrow> (s, Inl InvalidEntryId))"

definition on_enqueue :: "brcb_state \<Rightarrow> report_entry \<Rightarrow> brcb_state" where
  "on_enqueue s e =
     (if transmit_anchor s = WaitingForNext
      then s\<lparr>transmit_anchor := AfterEntryId (last_committed_entry_id s)\<rparr> else s)"

section \<open>The control block\<close>

record buffered_report_control =
  mms_path :: string
  brcb_cfg :: brcb
  state :: brcb_state
  report_buffer :: report_buffer
  purges :: u64
  purge_mark :: u64

definition brc_with_backend :: "string \<Rightarrow> brcb \<Rightarrow> report_buffer \<Rightarrow> buffered_report_control" where
  "brc_with_backend path b backend =
     (let s = state_from_brcb b
      in \<lparr>mms_path = path, brcb_cfg = b, state = s\<lparr>dat_set := qualified_dat_set path (dat_set s)\<rparr>,
          report_buffer = backend, purges = 0, purge_mark = 0\<rparr>)"

definition brc_new :: "string \<Rightarrow> brcb \<Rightarrow> buffered_report_control" where
  "brc_new path b = brc_with_backend path b (buffer_new (buffer_capacity b))"

definition run_purge_buf_procedure ::
  "u64 \<Rightarrow> buffered_report_control \<Rightarrow> buffered_report_control \<times> nat" where
  "run_purge_buf_procedure commit rc =
     (let buf = set_formatted_through (report_buffer rc) None;
          (buf, purged) = purge buf;
          rc = rc\<lparr>report_buffer := buf, purges := purges rc + 1, purge_mark := commit + 1\<rparr>
      in (rc\<lparr>state := (state rc)\<lparr>last_sent_entry_id := entry_id_ZERO,
             last_sent_time_of_entry_ms := 0\<rparr>\<rparr>, purged))"

text \<open>The \<open>match\<close> of \<open>set_config_field\<close>: the updated state, or \<open>None\<close> for no change.\<close>

fun config_changed :: "string \<Rightarrow> brcb_state \<Rightarrow> brcb_config_field \<Rightarrow> brcb_state option" where
  "config_changed path s (CfDatSet v) =
     (let v = qualified_dat_set path v
      in if dat_set s \<noteq> v then Some (s\<lparr>is_buffering := (v \<noteq> []), dat_set := v\<rparr>) else None)"
| "config_changed path s (CfTrgOps v) = (if trg_ops s \<noteq> v then Some (s\<lparr>trg_ops := v\<rparr>) else None)"
| "config_changed path s (CfIntgPdMs v) = (if intg_pd_ms s \<noteq> v then Some (s\<lparr>intg_pd_ms := v\<rparr>) else None)"
| "config_changed path s (CfBufTmMs v) = (if buf_tm_ms s \<noteq> v then Some (s\<lparr>buf_tm_ms := v\<rparr>) else None)"
| "config_changed path s (CfRptId v) = (if rpt_id s \<noteq> v then Some (s\<lparr>rpt_id := v\<rparr>) else None)"

definition set_config_field ::
  "u64 \<Rightarrow> buffered_report_control \<Rightarrow> brcb_config_field \<Rightarrow>
   buffered_report_control \<times> (brcb_write_error + config_change_result)" where
  "set_config_field commit rc f =
     (if rpt_ena (state rc) then (rc, Inl WriteReportingEnabled)
      else case config_changed (mms_path rc) (state rc) f of
        None \<Rightarrow> (rc, Inr NoChange)
      | Some s \<Rightarrow>
          let s = (case f of CfDatSet _ \<Rightarrow> increase_conf_rev s | _ \<Rightarrow> s);
              (rc, purged) = run_purge_buf_procedure commit (rc\<lparr>state := s\<rparr>)
          in (rc, Inr (RequiresPurge purged)))"

definition handle_purge_buf_write ::
  "u64 \<Rightarrow> buffered_report_control \<Rightarrow> bool \<Rightarrow> buffered_report_control \<times> (brcb_write_error + nat)" where
  "handle_purge_buf_write commit rc v =
     (if rpt_ena (state rc) then (rc, Inl WriteReportingEnabled)
      else if \<not> v then (rc, Inr 0)
      else let (rc, purged) = run_purge_buf_procedure commit rc in (rc, Inr purged))"

text \<open>
  The three critical sections of an enqueue: allocate the EntryID under the state lock, push
  under the buffer lock, resolve the anchor under the state lock.
\<close>

definition enqueue_allocate :: "buffered_report_control \<Rightarrow> u64 \<Rightarrow> buffered_report_control \<times> entry_id" where
  "enqueue_allocate rc now_ms =
     (let (s, i) = allocate_entry_id (state rc) now_ms in (rc\<lparr>state := s\<rparr>, i))"

definition enqueue_push :: "buffered_report_control \<Rightarrow> report_entry \<Rightarrow> buffered_report_control \<times> bool" where
  "enqueue_push rc e =
     (let (buf, evicted) = push (report_buffer rc) e in (rc\<lparr>report_buffer := buf\<rparr>, evicted))"

definition enqueue_notify :: "buffered_report_control \<Rightarrow> report_entry \<Rightarrow> buffered_report_control" where
  "enqueue_notify rc e = rc\<lparr>state := on_enqueue (state rc) e\<rparr>"

definition enqueue_entry ::
  "buffered_report_control \<Rightarrow> u64 \<Rightarrow> bool \<Rightarrow> bool \<Rightarrow> bytes \<Rightarrow>
   buffered_report_control \<times> entry_id \<times> bool" where
  "enqueue_entry rc now_ms integrity g payload =
     (let (rc, i) = enqueue_allocate rc now_ms;
          e = report_entry_new i now_ms integrity g payload;
          (rc, evicted) = enqueue_push rc e
      in (enqueue_notify rc e, i, evicted))"

definition enqueue_entry_with_snapshot ::
  "buffered_report_control \<Rightarrow> u64 \<Rightarrow> bool \<Rightarrow> bool \<Rightarrow> enqueued_snapshot \<Rightarrow>
   buffered_report_control \<times> entry_id \<times> bool" where
  "enqueue_entry_with_snapshot rc now_ms integrity g snap =
     (let (rc, i) = enqueue_allocate rc now_ms;
          e = report_entry_with_snapshot i now_ms integrity g snap;
          (rc, evicted) = enqueue_push rc e
      in (enqueue_notify rc e, i, evicted))"

definition stored_after_purge :: "buffered_report_control \<Rightarrow> u64 \<Rightarrow> bool" where
  "stored_after_purge rc committed = (committed \<ge> purge_mark rc)"

text \<open>
  \<open>enqueue_stored_entry\<close> and \<open>enqueue_window_entry\<close> check for a purge before the
  allocation and again under the buffer lock, because another thread may purge in between.
  The function \<open>between\<close> is what other threads do to the control block between the two
  sections; a run with no interference has \<open>between = (\<lambda>rc. rc)\<close>.
\<close>

definition enqueue_stored_entry ::
  "(buffered_report_control \<Rightarrow> buffered_report_control) \<Rightarrow> buffered_report_control \<Rightarrow> u64 \<Rightarrow> u64 \<Rightarrow>
   enqueued_snapshot \<Rightarrow> buffered_report_control \<times> (entry_id \<times> bool) option" where
  "enqueue_stored_entry between rc oldest_commit time_ms snap =
     (if \<not> stored_after_purge rc oldest_commit then (rc, None)
      else let (rc, i) = enqueue_allocate rc time_ms;
        e = report_entry_with_snapshot i time_ms False False snap;
        rc = between rc
      in if \<not> stored_after_purge rc oldest_commit then (rc, None)
      else let (rc, evicted) = enqueue_push rc e
      in (enqueue_notify rc e, Some (i, evicted)))"

definition window_purged :: "buffered_report_control \<Rightarrow> u64 \<Rightarrow> u64 \<Rightarrow> bool" where
  "window_purged rc opened_at oldest_commit =
     (purges rc \<noteq> opened_at \<or> \<not> stored_after_purge rc oldest_commit)"

definition enqueue_window_entry ::
  "(buffered_report_control \<Rightarrow> buffered_report_control) \<Rightarrow> buffered_report_control \<Rightarrow> u64 \<Rightarrow> u64 \<Rightarrow> u64 \<Rightarrow>
   enqueued_snapshot \<Rightarrow> buffered_report_control \<times> (entry_id \<times> bool) option" where
  "enqueue_window_entry between rc opened_at oldest_commit first_trigger_ms snap =
     (if window_purged rc opened_at oldest_commit then (rc, None)
      else let (rc, i) = enqueue_allocate rc first_trigger_ms;
        e = report_entry_with_snapshot i first_trigger_ms False False snap;
        rc = between rc
      in if window_purged rc opened_at oldest_commit then (rc, None)
      else let (rc, evicted) = enqueue_push rc e
      in (enqueue_notify rc e, Some (i, evicted)))"

definition apply_entry_id_write ::
  "buffered_report_control \<Rightarrow> entry_id \<Rightarrow> buffered_report_control \<times> (apply_entry_id_error + unit)" where
  "apply_entry_id_write rc i =
     (let sk = (if entry_id_is_zero i then None
                else Some (seek_to_after_entry_id (report_buffer rc) i));
          s = state rc
      in if rpt_ena s then (rc, Inl ReportingEnabled)
      else let s = s\<lparr>last_committed_entry_id := i\<rparr>;
        (s, outcome) =
          (case sk of
             None \<Rightarrow> (s\<lparr>transmit_anchor := FromHead, is_resync := False\<rparr>, Inr ())
           | Some (FoundWithNext _) \<Rightarrow>
               (s\<lparr>transmit_anchor := AfterEntryId i, is_resync := True\<rparr>, Inr ())
           | Some FoundLast \<Rightarrow> (s\<lparr>transmit_anchor := WaitingForNext, is_resync := True\<rparr>, Inr ())
           | Some NotFound \<Rightarrow> (s, Inl InvalidEntryId));
        rc = rc\<lparr>state := s\<rparr>
      in case outcome of
           Inr _ \<Rightarrow>
             (rc\<lparr>report_buffer := set_formatted_through (report_buffer rc)
                  (if entry_id_is_zero i then None else Some i)\<rparr>, outcome)
         | Inl _ \<Rightarrow> (rc, outcome))"

section \<open>Transmission\<close>

text \<open>
  The selection of \<open>flush_brcb_pending\<close>: the entries to send and whether the first of them
  carries BufOvfl, \<open>None\<close> where the pass ends with nothing to send. A waiting anchor that
  finds newer entries is resolved.
\<close>

definition select_pending ::
  "buffered_report_control \<Rightarrow> buffered_report_control \<times> (report_entry list \<times> bool) option" where
  "select_pending rc =
     (let s = state rc; buf = report_buffer rc;
        (rc, found) =
          (case transmit_anchor s of
             AnchorNone \<Rightarrow> (rc, None)
           | FromHead \<Rightarrow> (rc, Some (iter_entries buf, True))
           | AfterEntryId after \<Rightarrow> (rc, Some (iter_from buf after, is_overflow buf))
           | WaitingForNext \<Rightarrow>
               let es = iter_from buf (last_committed_entry_id s)
               in if es = [] then (rc, None)
                  else (rc\<lparr>state := s\<lparr>transmit_anchor := AfterEntryId (last_committed_entry_id s)\<rparr>\<rparr>,
                        Some (es, is_overflow buf)))
      in case found of
           None \<Rightarrow> (rc, None)
         | Some (es, ovfl) \<Rightarrow>
             if es = [] then (rc, None) else (rc, Some (es, ovfl \<or> overflow_on_enable s)))"

definition entry_formatted :: "buffered_report_control \<Rightarrow> entry_id \<Rightarrow> buffered_report_control" where
  "entry_formatted rc i =
     (let rc = rc\<lparr>report_buffer := mark_formatted (clear_overflow (report_buffer rc)) i\<rparr>
      in rc\<lparr>state := (state rc)\<lparr>overflow_on_enable := False\<rparr>\<rparr>)"

definition brcb_entry_sent :: "buffered_report_control \<Rightarrow> entry_id \<Rightarrow> u64 \<Rightarrow> buffered_report_control" where
  "brcb_entry_sent rc i t =
     (let s = state rc
      in rc\<lparr>state := s\<lparr>sq_num := sq_num s + 1, transmit_anchor := AfterEntryId i,
             last_sent_entry_id := i, last_sent_time_of_entry_ms := t\<rparr>\<rparr>)"

text \<open>
  The loop of \<open>flush_brcb_pending\<close> over the selected entries. \<open>encode n ovfl e\<close> stands
  for \<open>encode_brcb_report_pdus\<close> with SqNum \<open>n\<close> and BufOvfl \<open>ovfl\<close>: the segments
  of the report, or \<open>None\<close> where the entry does not fit the PDU size. Such an entry is
  passed over by moving the anchor. An entry the channel has no room for ends the pass, and one
  longer than the channel leaves the segments that wait.

  Besides the sink and the control block the loop yields the reports handed over, as SqNum,
  BufOvfl and entry, and how it ended.
\<close>

datatype pass_end =
    PassDone | PassNoRoom | PassBlocked "entry_id \<times> u64" "bytes list" | PassWaiting | PassGone

type_synonym encoder = "u16 \<Rightarrow> bool \<Rightarrow> report_entry \<Rightarrow> bytes list option"

type_synonym report_log = "(u16 \<times> bool \<times> report_entry) list"

fun send_entries ::
  "'tx mpsc \<Rightarrow> encoder \<Rightarrow> connection_id \<Rightarrow> 'tx sink \<Rightarrow> buffered_report_control \<Rightarrow> report_entry list \<Rightarrow> bool \<Rightarrow>
   'tx sink \<times> buffered_report_control \<times> report_log \<times> pass_end" where
  "send_entries m encode conn sink rc [] ovfl = (sink, rc, [], PassDone)"
| "send_entries m encode conn sink rc (e # es) ovfl =
     (let n = sq_num (state rc)
      in case encode n ovfl e of
           None \<Rightarrow>
             send_entries m encode conn sink
               (rc\<lparr>state := (state rc)\<lparr>transmit_anchor := AfterEntryId (entry_id e)\<rparr>\<rparr>) es ovfl
         | Some pdus \<Rightarrow>
             if \<not> channel_has_room m sink conn (length pdus) then (sink, rc, [], PassNoRoom)
             else
               (case push_segments m sink conn pdus of
                  (sink, Complete _) \<Rightarrow>
                    let rc = entry_formatted rc (entry_id e);
                      rc = brcb_entry_sent rc (entry_id e) (time_of_entry_ms e);
                      (sink, rc, out, stop) = send_entries m encode conn sink rc es False
                    in (sink, rc, (n, ovfl, e) # out, stop)
                | (sink, Blocked sent rest) \<Rightarrow>
                    (sink, if sent > 0 then entry_formatted rc (entry_id e) else rc, [(n, ovfl, e)],
                     PassBlocked (entry_id e, time_of_entry_ms e) rest)
                | (sink, Gone) \<Rightarrow> (sink, rc, [], PassGone)))"

record partial_report =
  partial_conn :: connection_id
  partial_entry :: "(entry_id \<times> u64) option"
  partial_rest :: "bytes list"

datatype resumed = Idle | Done nat "(entry_id \<times> u64) option" | ResumeBlocked nat | ResumeGone

text \<open>\<open>resume_partial\<close> on the partly sent report of one control block.\<close>

definition resume_partial ::
  "'tx mpsc \<Rightarrow> 'tx sink \<Rightarrow> partial_report option \<Rightarrow> connection_id option \<Rightarrow> bool \<Rightarrow>
   'tx sink \<times> partial_report option \<times> resumed" where
  "resume_partial m sink part conn enabled =
     (case part of
        None \<Rightarrow> (sink, None, Idle)
      | Some p \<Rightarrow>
          if \<not> enabled \<or> conn \<noteq> Some (partial_conn p) then (sink, None, Idle)
          else
            (case push_segments m sink (partial_conn p) (partial_rest p) of
               (sink, Complete sent) \<Rightarrow> (sink, None, Done sent (partial_entry p))
             | (sink, Blocked sent rest) \<Rightarrow> (sink, Some (p\<lparr>partial_rest := rest\<rparr>), ResumeBlocked sent)
             | (sink, Gone) \<Rightarrow> (sink, None, ResumeGone)))"

text \<open>
  A pass of \<open>flush_brcb_pending\<close> over one control block with its partly sent report; what it
  does to the maps of the engine is read off its result there.
\<close>

record 'tx flush_result =
  fr_sink :: "'tx sink"
  fr_rc :: buffered_report_control
  fr_partial :: "partial_report option"
  fr_out :: report_log
  fr_sent :: nat
  fr_end :: pass_end

fun keep_partial :: "connection_id \<Rightarrow> pass_end \<Rightarrow> partial_report option" where
  "keep_partial conn (PassBlocked entry rest) =
     Some \<lparr>partial_conn = conn, partial_entry = Some entry, partial_rest = rest\<rparr>"
| "keep_partial conn _ = None"

definition send_pending ::
  "'tx mpsc \<Rightarrow> encoder \<Rightarrow> connection_id \<Rightarrow> 'tx sink \<Rightarrow> buffered_report_control \<Rightarrow> nat \<Rightarrow> 'tx flush_result" where
  "send_pending m encode conn sink rc sent_count =
     (case select_pending rc of
        (rc, None) \<Rightarrow>
          \<lparr>fr_sink = sink, fr_rc = rc, fr_partial = None, fr_out = [], fr_sent = sent_count, fr_end = PassDone\<rparr>
      | (rc, Some (es, ovfl)) \<Rightarrow>
          let (sink, rc, out, stop) = send_entries m encode conn sink rc es ovfl;
            part = keep_partial conn stop
          in \<lparr>fr_sink = sink, fr_rc = rc, fr_partial = part, fr_out = out,
               fr_sent = sent_count + length out - (if part = None then 0 else 1), fr_end = stop\<rparr>)"

definition flush_brcb_pending ::
  "'tx mpsc \<Rightarrow> encoder \<Rightarrow> connection_id \<Rightarrow> 'tx sink \<Rightarrow> buffered_report_control \<Rightarrow> partial_report option \<Rightarrow>
   'tx flush_result" where
  "flush_brcb_pending m encode conn sink rc part =
     (case resume_partial m sink part (Some conn) True of
        (sink, part, Idle) \<Rightarrow> send_pending m encode conn sink rc 0
      | (sink, part, Done _ None) \<Rightarrow> send_pending m encode conn sink rc 0
      | (sink, part, Done _ (Some (i, t))) \<Rightarrow> send_pending m encode conn sink (brcb_entry_sent rc i t) 1
      | (sink, part, ResumeBlocked _) \<Rightarrow>
          \<lparr>fr_sink = sink, fr_rc = rc, fr_partial = part, fr_out = [], fr_sent = 0, fr_end = PassWaiting\<rparr>
      | (sink, part, ResumeGone) \<Rightarrow>
          \<lparr>fr_sink = sink, fr_rc = rc, fr_partial = part, fr_out = [], fr_sent = 0, fr_end = PassGone\<rparr>)"

definition rewind_formatted :: "buffered_report_control \<Rightarrow> buffered_report_control" where
  "rewind_formatted rc =
     rc\<lparr>report_buffer := set_formatted_through (report_buffer rc)
         (case transmit_anchor (state rc) of
            AfterEntryId i \<Rightarrow> Some i
          | WaitingForNext \<Rightarrow> Some (last_committed_entry_id (state rc))
          | AnchorNone \<Rightarrow> None
          | FromHead \<Rightarrow> None)\<rparr>"

section \<open>The invariant of a control block\<close>

text \<open>
  The buffer is well formed and no buffered entry is newer than the EntryID allocated last.
\<close>

definition brc_inv :: "buffered_report_control \<Rightarrow> bool" where
  "brc_inv rc \<longleftrightarrow> buffer_inv (report_buffer rc) \<and>
     (\<forall>e \<in> set (entries (report_buffer rc)). entry_num e \<le> last_entry_id_ms (state rc)) \<and>
     (last_entry_id_ms (state rc) = 0 \<longrightarrow> entries (report_buffer rc) = [])"

text \<open>The clock reads past the epoch and neither 64-bit counter has run out.\<close>

definition enqueue_ready :: "buffered_report_control \<Rightarrow> u64 \<Rightarrow> bool" where
  "enqueue_ready rc now_ms \<longleftrightarrow> 0 < now_ms \<and> unat (last_entry_id_ms (state rc)) < 2 ^ 64 - 1 \<and>
     unat (next_seq (report_buffer rc)) < 2 ^ 64 - 1"

lemma brc_invD:
  assumes "brc_inv rc"
  shows "buffer_inv (report_buffer rc)"
    and "e \<in> set (entries (report_buffer rc)) \<Longrightarrow> entry_num e \<le> last_entry_id_ms (state rc)"
    and "last_entry_id_ms (state rc) = 0 \<Longrightarrow> entries (report_buffer rc) = []"
  using assms by (simp_all add: brc_inv_def)

lemma brc_inv_new: "brc_inv (brc_new path b)"
  by (simp add: brc_inv_def brc_new_def brc_with_backend_def state_from_brcb_def Let_def
      buffer_new_def buffer_inv_new) (simp add: buffer_with_strategy_def)

lemma allocate_entry_id_fresh:
  assumes "0 < now_ms" and "unat (last_entry_id_ms s) < 2 ^ 64 - 1"
    and "allocate_entry_id s now_ms = (s', i)"
  shows "last_entry_id_ms s < as_u64 i" and "now_ms \<le> as_u64 i" and "last_entry_id_ms s' = as_u64 i"
proof -
  have "last_entry_id_ms s < saturating_add (last_entry_id_ms s) 1"
    using assms(2) by (simp add: word_less_nat_alt unat_saturating_add)
  with assms show "last_entry_id_ms s < as_u64 i"
    by (auto simp: allocate_entry_id_def Let_def less_max_iff_disj)
  from assms(3) show "now_ms \<le> as_u64 i" and "last_entry_id_ms s' = as_u64 i"
    by (auto simp: allocate_entry_id_def Let_def)
qed

text \<open>An entry made with the identifier just allocated, pushed and announced.\<close>

definition enqueue_with ::
  "(entry_id \<Rightarrow> report_entry) \<Rightarrow> buffered_report_control \<Rightarrow> u64 \<Rightarrow> buffered_report_control \<times> entry_id \<times> bool" where
  "enqueue_with mk rc now_ms =
     (let (rc, i) = enqueue_allocate rc now_ms; (rc, evicted) = enqueue_push rc (mk i)
      in (enqueue_notify rc (mk i), i, evicted))"

lemma enqueue_as_enqueue_with:
  "enqueue_entry rc now_ms integrity g payload =
     enqueue_with (\<lambda>i. report_entry_new i now_ms integrity g payload) rc now_ms"
  "enqueue_entry_with_snapshot rc now_ms integrity g snap =
     enqueue_with (\<lambda>i. report_entry_with_snapshot i now_ms integrity g snap) rc now_ms"
  by (simp_all add: enqueue_entry_def enqueue_entry_with_snapshot_def enqueue_with_def Let_def)

lemma allocate_entry_id_frame:
  "fst (allocate_entry_id s now_ms) = s\<lparr>last_entry_id_ms := as_u64 (snd (allocate_entry_id s now_ms))\<rparr>"
  by (simp add: allocate_entry_id_def Let_def)

lemma on_enqueue_frame [simp]:
  "last_entry_id_ms (on_enqueue s e) = last_entry_id_ms s"
  "rpt_ena (on_enqueue s e) = rpt_ena s"
  "overflow_on_enable (on_enqueue s e) = overflow_on_enable s"
  "last_committed_entry_id (on_enqueue s e) = last_committed_entry_id s"
  "sq_num (on_enqueue s e) = sq_num s"
  by (simp_all add: on_enqueue_def)

lemma enqueue_with_result:
  assumes "enqueue_with mk rc now_ms = (rc', i, evicted)"
  shows "i = snd (allocate_entry_id (state rc) now_ms)"
    and "report_buffer rc' = fst (push (report_buffer rc) (mk i))"
    and "state rc' = on_enqueue (fst (allocate_entry_id (state rc) now_ms)) (mk i)"
  using assms
  by (auto simp: enqueue_with_def enqueue_allocate_def enqueue_push_def enqueue_notify_def Let_def
      split: prod.splits)

lemma spec_push_subset: "set (spec_push cap s es e) \<subseteq> insert e (set es)"
  by (cases es; cases s) (auto simp: spec_push_def)

lemma enqueue_with_inv:
  assumes inv: "brc_inv rc" and ready: "enqueue_ready rc now_ms"
    and mk: "\<And>i. entry_id (mk i) = i"
    and r: "enqueue_with mk rc now_ms = (rc', i, evicted)"
  shows "brc_inv rc'"
    and "\<forall>e \<in> set (iter_entries (report_buffer rc)). entry_num e < as_u64 i"
    and "iter_entries (report_buffer rc') =
      spec_push (capacity (report_buffer rc)) (strategy (report_buffer rc))
        (iter_entries (report_buffer rc)) (mk i)"
proof -
  let ?a = "allocate_entry_id (state rc) now_ms"
  note res = enqueue_with_result [OF r]
  have pos: "0 < now_ms" and last: "unat (last_entry_id_ms (state rc)) < 2 ^ 64 - 1"
    and seq: "unat (next_seq (report_buffer rc)) < 2 ^ 64 - 1"
    using ready by (simp_all add: enqueue_ready_def)
  have fresh: "last_entry_id_ms (state rc) < as_u64 i" and upd: "last_entry_id_ms (fst ?a) = as_u64 i"
    using allocate_entry_id_fresh [OF pos last, of "fst ?a" "snd ?a"] res(1) by simp_all
  have num: "entry_num (mk i) = as_u64 i" by (simp add: mk)
  show lt: "\<forall>e \<in> set (iter_entries (report_buffer rc)). entry_num e < as_u64 i"
    using brc_invD(2) [OF inv] fresh by (force simp: iter_entries_def)
  with seq num have acc: "accepts (report_buffer rc) (mk i)"
    by (simp add: accepts_def iter_entries_def)
  note binv = brc_invD(1) [OF inv]
  show it: "iter_entries (report_buffer rc') =
      spec_push (capacity (report_buffer rc)) (strategy (report_buffer rc))
        (iter_entries (report_buffer rc)) (mk i)"
    using mem.iter_push [OF binv] res(2) by simp
  have "entry_num e \<le> as_u64 i" if "e \<in> set (entries (report_buffer rc'))" for e
    using that it lt num spec_push_subset by (fastforce simp: iter_entries_def)
  moreover have "as_u64 i \<noteq> 0" using fresh by (metis word_not_simps(1))
  moreover have "buffer_inv (report_buffer rc')"
    using mem.inv_push [OF binv acc] res(2) by simp
  ultimately show "brc_inv rc'" by (simp add: brc_inv_def res(3) upd)
qed

section \<open>Purges and EntryID writes\<close>

lemma run_purge_simps [simp]:
  "fst (run_purge_buf_procedure commit rc) =
     rc\<lparr>report_buffer := fst (purge (set_formatted_through (report_buffer rc) None)),
        purges := purges rc + 1, purge_mark := commit + 1,
        state := (state rc)\<lparr>last_sent_entry_id := entry_id_ZERO, last_sent_time_of_entry_ms := 0\<rparr>\<rparr>"
  "snd (run_purge_buf_procedure commit rc) = length (entries (report_buffer rc))"
  by (simp_all add: run_purge_buf_procedure_def Let_def purge_def set_formatted_through_def)

lemma run_purge_inv: "brc_inv rc \<Longrightarrow> brc_inv (fst (run_purge_buf_procedure commit rc))"
  using mem.purge_law [of "set_formatted_through (report_buffer rc) None"]
    mem.rewind_law [of "report_buffer rc" None]
  by (simp add: brc_inv_def iter_entries_def)

lemma seek_not_found:
  "buffer_inv b \<Longrightarrow> seek_to_after_entry_id b i = NotFound \<longleftrightarrow> i \<notin> entry_id ` set (entries b)"
proof -
  assume "buffer_inv b"
  then have "seek_to_after_entry_id b i = spec_seek (entries b) i"
    using mem.seek_law by (simp add: iter_entries_def)
  also have "spec_seek (entries b) i = NotFound \<longleftrightarrow> dropWhile (\<lambda>e. entry_id e \<noteq> i) (entries b) = []"
    by (auto simp: spec_seek_def simp del: dropWhile_eq_Nil_conv split: list.split)
  finally show ?thesis by (auto simp: dropWhile_eq_Nil_conv)
qed

text \<open>What an EntryID write does, as one equation over the outcome of the lookup.\<close>

lemma apply_entry_id_write_cases:
  "apply_entry_id_write rc i =
     (if rpt_ena (state rc) then (rc, Inl ReportingEnabled)
      else if entry_id_is_zero i then
        (rc\<lparr>state := (state rc)\<lparr>last_committed_entry_id := i, transmit_anchor := FromHead, is_resync := False\<rparr>,
            report_buffer := set_formatted_through (report_buffer rc) None\<rparr>, Inr ())
      else case seek_to_after_entry_id (report_buffer rc) i of
        NotFound \<Rightarrow> (rc\<lparr>state := (state rc)\<lparr>last_committed_entry_id := i\<rparr>\<rparr>, Inl InvalidEntryId)
      | r \<Rightarrow>
        (rc\<lparr>state := (state rc)\<lparr>last_committed_entry_id := i, is_resync := True,
              transmit_anchor := (if r = FoundLast then WaitingForNext else AfterEntryId i)\<rparr>,
            report_buffer := set_formatted_through (report_buffer rc) (Some i)\<rparr>, Inr ()))"
  by (simp add: apply_entry_id_write_def Let_def split: seek_result.split)

end
