(* ===== verification/Brcb_Transmit.thy ===== *)
theory Brcb_Transmit
  imports Brcb
begin

text \<open>
  The transmission passes of \<open>flush_brcb_pending\<close>: what one pass hands over and leaves, runs
  of enqueues and passes over a channel that may be full, the segments on their way into the
  channel, and the work a pass takes off.
\<close>

section \<open>Transmission lemmas\<close>

lemma entry_formatted_simps [simp]:
  "entries (report_buffer (entry_formatted rc i)) = entries (report_buffer rc)"
  "state (entry_formatted rc i) = (state rc)\<lparr>overflow_on_enable := False\<rparr>"
  "buffer_inv (report_buffer (entry_formatted rc i)) \<longleftrightarrow> buffer_inv (report_buffer rc)"
  "formatted_through (report_buffer (entry_formatted rc i)) = max (formatted_through (report_buffer rc)) (as_u64 i)"
  "capacity (report_buffer (entry_formatted rc i)) = capacity (report_buffer rc)"
  by (simp_all add: entry_formatted_def Let_def mark_formatted_def clear_overflow_def)

lemma brcb_entry_sent_simps [simp]:
  "report_buffer (brcb_entry_sent rc i t) = report_buffer rc"
  "transmit_anchor (state (brcb_entry_sent rc i t)) = AfterEntryId i"
  "sq_num (state (brcb_entry_sent rc i t)) = sq_num (state rc) + 1"
  "last_entry_id_ms (state (brcb_entry_sent rc i t)) = last_entry_id_ms (state rc)"
  "overflow_on_enable (state (brcb_entry_sent rc i t)) = overflow_on_enable (state rc)"
  by (simp_all add: brcb_entry_sent_def Let_def)

text \<open>Reports numbered on from SqNum, BufOvfl on the first.\<close>

fun reports_of :: "u16 \<Rightarrow> bool \<Rightarrow> report_entry list \<Rightarrow> report_log" where
  "reports_of n ovfl [] = []"
| "reports_of n ovfl (e # es) = (n, ovfl, e) # reports_of (n + 1) False es"

lemma reports_of_entries: "map (\<lambda>r. snd (snd r)) (reports_of n v es) = es"
  by (induction n v es rule: reports_of.induct) simp_all

text \<open>The entries a pass disposes of, and whether each was handed over or passed over.\<close>

fun handled ::
  "'tx mpsc \<Rightarrow> encoder \<Rightarrow> connection_id \<Rightarrow> 'tx sink \<Rightarrow> u16 \<Rightarrow> bool \<Rightarrow> report_entry list \<Rightarrow> (report_entry \<times> bool) list" where
  "handled m encode conn sink n ovfl [] = []"
| "handled m encode conn sink n ovfl (e # es) =
     (case encode n ovfl e of
        None \<Rightarrow> (e, False) # handled m encode conn sink n ovfl es
      | Some pdus \<Rightarrow>
          if \<not> channel_has_room m sink conn (length pdus) then []
          else
            (case push_segments m sink conn pdus of
               (sink, Complete _) \<Rightarrow> (e, True) # handled m encode conn sink (n + 1) False es
             | (sink, Blocked _ _) \<Rightarrow> [(e, True)]
             | (sink, Gone) \<Rightarrow> []))"

abbreviation sent_of :: "(report_entry \<times> bool) list \<Rightarrow> report_entry list" where
  "sent_of hs \<equiv> map fst (filter snd hs)"

text \<open>Case analysis of one iteration of the loop.\<close>

lemma send_entries_cases:
  assumes "send_entries m encode conn sink rc (e # es) ovfl = (sink', rc', out, stop)"
  obtains (skip) "encode (sq_num (state rc)) ovfl e = None"
      "send_entries m encode conn sink
         (rc\<lparr>state := (state rc)\<lparr>transmit_anchor := AfterEntryId (entry_id e)\<rparr>\<rparr>) es ovfl = (sink', rc', out, stop)"
      "handled m encode conn sink (sq_num (state rc)) ovfl (e # es) =
         (e, False) # handled m encode conn sink (sq_num (state rc)) ovfl es"
  | (halt) "rc' = rc" "out = []" "stop = PassNoRoom \<or> stop = PassGone"
      "handled m encode conn sink (sq_num (state rc)) ovfl (e # es) = []"
  | (full) sink1 k out1 pdus where
      "encode (sq_num (state rc)) ovfl e = Some pdus" "channel_has_room m sink conn (length pdus)"
      "push_segments m sink conn pdus = (sink1, Complete k)"
      "send_entries m encode conn sink1
         (brcb_entry_sent (entry_formatted rc (entry_id e)) (entry_id e) (time_of_entry_ms e)) es False =
         (sink', rc', out1, stop)"
      "out = (sq_num (state rc), ovfl, e) # out1"
      "handled m encode conn sink (sq_num (state rc)) ovfl (e # es) =
         (e, True) # handled m encode conn sink1 (sq_num (state rc) + 1) False es"
  | (part) k rest pdus where
      "encode (sq_num (state rc)) ovfl e = Some pdus" "channel_has_room m sink conn (length pdus)"
      "push_segments m sink conn pdus = (sink', Blocked k rest)"
      "rc' = (if k > 0 then entry_formatted rc (entry_id e) else rc)"
      "out = [(sq_num (state rc), ovfl, e)]" "stop = PassBlocked (entry_id e, time_of_entry_ms e) rest"
      "handled m encode conn sink (sq_num (state rc)) ovfl (e # es) = [(e, True)]"
proof (cases "encode (sq_num (state rc)) ovfl e")
  case None
  with assms show ?thesis by (intro skip) simp_all
next
  case (Some pdus)
  obtain sink1 d where p: "push_segments m sink conn pdus = (sink1, d)" by fastforce
  show ?thesis
  proof (cases "channel_has_room m sink conn (length pdus)")
    case False
    with Some assms show ?thesis by (intro halt) simp_all
  next
    case True
    show ?thesis
    proof (cases d)
      case (Complete k)
      with Some True p assms show ?thesis by (intro full [of pdus sink1 k "tl out"]) (auto simp: Let_def split: prod.splits)
    next
      case (Blocked k rest)
      with Some True p assms show ?thesis by (intro part [of pdus k rest]) auto
    next
      case Gone
      with Some True p assms show ?thesis by (intro halt) simp_all
    qed
  qed
qed

lemma send_entries_frame:
  assumes "send_entries m encode conn sink rc es ovfl = (sink', rc', out, stop)"
  shows "entries (report_buffer rc') = entries (report_buffer rc)"
    and "buffer_inv (report_buffer rc') \<longleftrightarrow> buffer_inv (report_buffer rc)"
    and "capacity (report_buffer rc') = capacity (report_buffer rc)"
    and "last_entry_id_ms (state rc') = last_entry_id_ms (state rc)"
    and "stop \<noteq> PassWaiting"
proof -
  have "entries (report_buffer rc') = entries (report_buffer rc) \<and>
      (buffer_inv (report_buffer rc') \<longleftrightarrow> buffer_inv (report_buffer rc)) \<and>
      capacity (report_buffer rc') = capacity (report_buffer rc) \<and>
      last_entry_id_ms (state rc') = last_entry_id_ms (state rc) \<and> stop \<noteq> PassWaiting"
    using assms
  proof (induction es arbitrary: sink rc ovfl out)
    case (Cons e es)
    from Cons.prems show ?case by (cases rule: send_entries_cases) (auto dest!: Cons.IH)
  qed auto
  then show "entries (report_buffer rc') = entries (report_buffer rc)"
    and "buffer_inv (report_buffer rc') \<longleftrightarrow> buffer_inv (report_buffer rc)"
    and "capacity (report_buffer rc') = capacity (report_buffer rc)"
    and "last_entry_id_ms (state rc') = last_entry_id_ms (state rc)"
    and "stop \<noteq> PassWaiting"
    by blast+
qed

text \<open>An entry that does not fit a PDU under some number and flag.\<close>

definition oversized :: "encoder \<Rightarrow> report_entry \<Rightarrow> bool" where
  "oversized encode e \<longleftrightarrow> (\<exists>n v. encode n v e = None)"

fun anchor_after :: "transmit_anchor \<Rightarrow> (report_entry \<times> bool) list \<Rightarrow> transmit_anchor" where
  "anchor_after a [] = a"
| "anchor_after a (h # hs) = anchor_after (AfterEntryId (entry_id (fst h))) hs"

lemma anchor_after_last:
  "anchor_after a hs = (if hs = [] then a else AfterEntryId (entry_id (fst (last hs))))"
  by (induction hs arbitrary: a) simp_all

lemma send_entries_handled:
  assumes "send_entries m encode conn sink rc es ovfl = (sink', rc', out, stop)"
    and "hs = handled m encode conn sink (sq_num (state rc)) ovfl es"
  shows "out = reports_of (sq_num (state rc)) ovfl (sent_of hs) \<and>
    (\<exists>rest. es = map fst hs @ rest \<and> (stop = PassDone \<longrightarrow> rest = [])) \<and>
    (\<forall>(e, b) \<in> set hs. b \<or> oversized encode e) \<and>
    (case stop of
       PassBlocked it r \<Rightarrow> (\<exists>hs' e. hs = hs' @ [(e, True)] \<and> it = (entry_id e, time_of_entry_ms e) \<and>
         transmit_anchor (state rc') = anchor_after (transmit_anchor (state rc)) hs')
     | _ \<Rightarrow> transmit_anchor (state rc') = anchor_after (transmit_anchor (state rc)) hs)"
  using assms
proof (induction es arbitrary: sink rc ovfl out hs)
  case Nil
  then show ?case by auto
next
  case (Cons e es)
  from Cons.prems(1) show ?case
  proof (cases rule: send_entries_cases)
    case skip
    let ?rc = "rc\<lparr>state := (state rc)\<lparr>transmit_anchor := AfterEntryId (entry_id e)\<rparr>\<rparr>"
    note ih = Cons.IH [OF skip(2) refl]
    have "oversized encode e" using skip(1) by (auto simp: oversized_def)
    with ih skip(3) Cons.prems(2) show ?thesis
      by (auto split: pass_end.splits)
  next
    case halt
    with Cons.prems(2) show ?thesis by auto
  next
    case (full sink1 k out1 pdus)
    note ih = Cons.IH [OF full(4) refl]
    with full(5,6) Cons.prems(2) show ?thesis
      by (auto split: pass_end.splits)
  next
    case (part k rest pdus)
    with Cons.prems(2) show ?thesis by (auto intro!: exI [of _ "[]"])
  qed
qed

section \<open>Delivery\<close>

text \<open>The entries a pass of the flush would send, and whether its first report carries BufOvfl.\<close>

fun pending_after :: "report_buffer \<Rightarrow> entry_id \<Rightarrow> transmit_anchor \<Rightarrow> report_entry list" where
  "pending_after buf c AnchorNone = []"
| "pending_after buf c FromHead = iter_entries buf"
| "pending_after buf c (AfterEntryId a) = iter_from buf a"
| "pending_after buf c WaitingForNext = iter_from buf c"

definition pending_of :: "buffered_report_control \<Rightarrow> report_entry list" where
  "pending_of rc =
     pending_after (report_buffer rc) (last_committed_entry_id (state rc)) (transmit_anchor (state rc))"

definition first_overflow :: "buffered_report_control \<Rightarrow> bool" where
  "first_overflow rc \<longleftrightarrow> transmit_anchor (state rc) = FromHead \<or>
     is_overflow (report_buffer rc) \<or> overflow_on_enable (state rc)"

lemma select_pending_spec:
  "select_pending rc =
     (if pending_of rc = [] then (rc, None)
      else ((if transmit_anchor (state rc) = WaitingForNext
             then rc\<lparr>state := (state rc)\<lparr>transmit_anchor := AfterEntryId (last_committed_entry_id (state rc))\<rparr>\<rparr>
             else rc), Some (pending_of rc, first_overflow rc)))"
  by (cases "transmit_anchor (state rc)")
     (simp_all add: select_pending_def pending_of_def first_overflow_def Let_def)

lemma filter_greater_suffix:
  fixes f :: "'a \<Rightarrow> 'b::linorder"
  shows "sorted_wrt (<) (map f xs) \<Longrightarrow> \<exists>pre. pre @ filter (\<lambda>x. c < f x) xs = xs"
proof (induction xs)
  case (Cons x xs)
  show ?case
  proof (cases "c < f x")
    case True
    with Cons.prems have "filter (\<lambda>x. c < f x) xs = xs" by (auto simp: filter_id_conv)
    with True show ?thesis by simp
  next
    case False
    from Cons obtain pre where "pre @ filter (\<lambda>x. c < f x) xs = xs" by auto
    with False show ?thesis by (intro exI [of _ "x # pre"]) simp
  qed
qed simp

lemma pending_suffix:
  assumes "buffer_inv buf" and "pending_after buf c a \<noteq> []"
  shows "\<exists>pre. pre @ pending_after buf c a = entries buf"
  using assms filter_greater_suffix [OF buffer_invD(2) [OF assms(1)]]
  by (cases a) (auto simp: iter_from_def iter_entries_def)

lemma iter_from_split:
  assumes "buffer_inv buf" and "entries buf = xs @ e # ys"
  shows "iter_from buf (entry_id e) = ys"
proof -
  have "sorted_wrt (<) (map entry_num (xs @ e # ys))" using buffer_invD(2) [OF assms(1)] assms(2) by simp
  then have "\<forall>x \<in> set xs. \<not> entry_num e < entry_num x" "\<forall>y \<in> set ys. entry_num e < entry_num y"
    by (auto simp: sorted_wrt_append dest: less_asym)
  then show ?thesis by (simp add: iter_from_def assms(2) filter_empty_conv filter_id_conv)
qed

text \<open>Moving the anchor over a handled prefix leaves exactly the rest.\<close>

lemma pending_anchor_after:
  assumes "buffer_inv buf" and "pending_after buf c a = map fst hs @ rest" and "hs \<noteq> []"
  shows "pending_after buf c' (anchor_after a hs) = rest"
proof -
  obtain hs' h where hs: "hs = hs' @ [h]" using assms(3) by (metis append_butlast_last_id)
  from assms(2,3) pending_suffix [OF assms(1), of c a] obtain pre where
    "pre @ map fst hs @ rest = entries buf" by auto
  then have "entries buf = (pre @ map fst hs') @ fst h # rest" by (simp add: hs)
  then show ?thesis using iter_from_split [OF assms(1)] by (simp add: hs anchor_after_last)
qed

text \<open>
  With a partly sent report, what is left to hand over follows the entry of that report, and the
  number of the next report is the one after it.
\<close>

definition unsent :: "buffered_report_control \<Rightarrow> partial_report option \<Rightarrow> report_entry list" where
  "unsent rc part =
     (case Option.bind part partial_entry of
        None \<Rightarrow> pending_of rc
      | Some (i, _) \<Rightarrow> iter_from (report_buffer rc) i)"

definition next_number :: "buffered_report_control \<Rightarrow> partial_report option \<Rightarrow> u16" where
  "next_number rc part = (if part = None then sq_num (state rc) else sq_num (state rc) + 1)"

definition next_overflow :: "buffered_report_control \<Rightarrow> partial_report option \<Rightarrow> bool" where
  "next_overflow rc part \<longleftrightarrow> is_overflow (report_buffer rc) \<or> overflow_on_enable (state rc) \<or>
     part = None \<and> transmit_anchor (state rc) = FromHead"

definition partial_ok :: "connection_id \<Rightarrow> partial_report option \<Rightarrow> bool" where
  "partial_ok conn part \<longleftrightarrow> (\<forall>p. part = Some p \<longrightarrow> partial_conn p = conn \<and> partial_entry p \<noteq> None)"

text \<open>The entries handled by a pass, as the reports log and the rest show them.\<close>

definition handles ::
  "encoder \<Rightarrow> report_entry list \<Rightarrow> u16 \<Rightarrow> bool \<Rightarrow> report_log \<Rightarrow> report_entry list \<Rightarrow> bool" where
  "handles encode queue n v out rest \<longleftrightarrow>
     (\<exists>hs. queue = map fst hs @ rest \<and> out = reports_of n v (sent_of hs) \<and>
        (\<forall>(e, b) \<in> set hs. b \<or> oversized encode e))"

lemma handles_none: "handles encode queue n v [] queue"
  unfolding handles_def by (intro exI [of _ "[]"]) simp

lemma keep_partial_simps:
  "keep_partial conn stop = None \<longleftrightarrow> (\<forall>it r. stop \<noteq> PassBlocked it r)"
  "partial_ok conn (keep_partial conn stop)"
  by (cases stop; simp add: partial_ok_def)+

lemma send_pending_result:
  assumes inv: "brc_inv rc" and fr: "fr = send_pending m encode conn sink rc k"
  shows "brc_inv (fr_rc fr)" and "partial_ok conn (fr_partial fr)"
    and "handles encode (pending_of rc) (sq_num (state rc)) (first_overflow rc) (fr_out fr)
      (unsent (fr_rc fr) (fr_partial fr))"
    and "fr_end fr = PassDone \<Longrightarrow> fr_partial fr = None \<and> pending_of (fr_rc fr) = []"
    and "pending_of rc = [] \<Longrightarrow>
      fr = \<lparr>fr_sink = sink, fr_rc = rc, fr_partial = None, fr_out = [], fr_sent = k, fr_end = PassDone\<rparr>"
    and "fr_end fr \<noteq> PassWaiting"
    and "map fst (handled m encode conn sink (sq_num (state rc)) (first_overflow rc) (pending_of rc)) @
      unsent (fr_rc fr) (fr_partial fr) = pending_of rc"
    and "fr_partial fr \<noteq> None \<Longrightarrow>
      handled m encode conn sink (sq_num (state rc)) (first_overflow rc) (pending_of rc) \<noteq> []"
proof -
  let ?hs = "handled m encode conn sink (sq_num (state rc)) (first_overflow rc) (pending_of rc)"
  let ?P = "brc_inv (fr_rc fr) \<and> partial_ok conn (fr_partial fr) \<and>
    handles encode (pending_of rc) (sq_num (state rc)) (first_overflow rc) (fr_out fr)
      (unsent (fr_rc fr) (fr_partial fr)) \<and>
    (fr_end fr = PassDone \<longrightarrow> fr_partial fr = None \<and> pending_of (fr_rc fr) = []) \<and>
    (pending_of rc = [] \<longrightarrow>
      fr = \<lparr>fr_sink = sink, fr_rc = rc, fr_partial = None, fr_out = [], fr_sent = k, fr_end = PassDone\<rparr>) \<and>
    fr_end fr \<noteq> PassWaiting \<and> map fst ?hs @ unsent (fr_rc fr) (fr_partial fr) = pending_of rc \<and>
    (fr_partial fr \<noteq> None \<longrightarrow> ?hs \<noteq> [])"
  have ?P
  proof (cases "pending_of rc = []")
    case True
    then show ?thesis
      using inv by (simp add: fr send_pending_def select_pending_spec partial_ok_def unsent_def handles_none)
  next
    case False
    let ?rc = "if transmit_anchor (state rc) = WaitingForNext
      then rc\<lparr>state := (state rc)\<lparr>transmit_anchor := AfterEntryId (last_committed_entry_id (state rc))\<rparr>\<rparr> else rc"
    obtain sink' rc' out stop where
      s: "send_entries m encode conn sink ?rc (pending_of rc) (first_overflow rc) = (sink', rc', out, stop)"
      by (metis prod_cases4)
    have fr': "fr_rc fr = rc'" "fr_partial fr = keep_partial conn stop" "fr_out fr = out" "fr_end fr = stop"
      using False s by (simp_all add: fr send_pending_def select_pending_spec Let_def)
    note frame = send_entries_frame [OF s]
    define hs where "hs = handled m encode conn sink (sq_num (state ?rc)) (first_overflow rc) (pending_of rc)"
    note h = send_entries_handled [OF s hs_def]
    have same: "entries (report_buffer rc') = entries (report_buffer rc)" using frame(1) by simp
    have inv': "brc_inv rc'" using frame inv by (simp add: brc_inv_def)
    let ?a = "transmit_anchor (state ?rc)" and ?c = "last_committed_entry_id (state rc)"
    have pa: "pending_after (report_buffer rc) ?c ?a = pending_of rc" by (simp add: pending_of_def)
    have it: "iter_from (report_buffer rc') i = iter_from (report_buffer rc) i" for i
      by (simp add: iter_from_def same)
    have after: "pending_after (report_buffer rc') c' b = pending_after (report_buffer rc) c' b" for c' b
      by (cases b) (simp_all add: iter_from_def iter_entries_def same)
    from h obtain rest where rest: "pending_of rc = map fst hs @ rest" "stop = PassDone \<longrightarrow> rest = []"
      by blast
    have rest': "pending_after (report_buffer rc) c' (anchor_after ?a hs) = rest" if "hs \<noteq> []" for c'
      using pending_anchor_after [OF brc_invD(1) [OF inv]] pa rest(1) that by metis
    have left: "unsent rc' (keep_partial conn stop) = rest"
    proof (cases "\<exists>it r. stop = PassBlocked it r")
      case True
      with h obtain it r hs' e where "stop = PassBlocked it r" "hs = hs' @ [(e, True)]" "it = (entry_id e, time_of_entry_ms e)"
        by auto
      with rest' show ?thesis by (simp add: unsent_def it anchor_after_last)
    next
      case False
      with h have a: "transmit_anchor (state rc') = anchor_after ?a hs" by (cases stop) auto
      have "pending_of rc' = rest"
      proof (cases "hs = []")
        case True
        have "?a \<noteq> WaitingForNext" by simp
        then have "pending_after (report_buffer rc) (last_committed_entry_id (state rc')) ?a = pending_of rc"
          using pa by (cases ?a) simp_all
        with True a rest(1) show ?thesis by (simp add: pending_of_def after)
      qed (use rest' a in \<open>simp add: pending_of_def after\<close>)
      then show ?thesis using False by (simp add: unsent_def keep_partial_simps(1) [THEN iffD2])
    qed
    have "handles encode (pending_of rc) (sq_num (state rc)) (first_overflow rc) out rest"
      unfolding handles_def using h rest(1) by (intro exI [of _ hs]) simp
    moreover have "stop = PassDone \<Longrightarrow> pending_of rc' = []"
      using left rest(2) by (simp add: unsent_def)
    moreover have "hs = ?hs" by (simp add: hs_def)
    then have "map fst ?hs @ rest = pending_of rc" and "keep_partial conn stop \<noteq> None \<Longrightarrow> ?hs \<noteq> []"
      using h rest(1) by (simp, cases stop) auto
    ultimately show ?thesis
      using inv' fr' left frame(5) False by (simp add: keep_partial_simps(2))
  qed
  then show "brc_inv (fr_rc fr)" and "partial_ok conn (fr_partial fr)"
    and "handles encode (pending_of rc) (sq_num (state rc)) (first_overflow rc) (fr_out fr)
      (unsent (fr_rc fr) (fr_partial fr))"
    and "fr_end fr = PassDone \<Longrightarrow> fr_partial fr = None \<and> pending_of (fr_rc fr) = []"
    and "pending_of rc = [] \<Longrightarrow>
      fr = \<lparr>fr_sink = sink, fr_rc = rc, fr_partial = None, fr_out = [], fr_sent = k, fr_end = PassDone\<rparr>"
    and "fr_end fr \<noteq> PassWaiting"
    and "map fst ?hs @ unsent (fr_rc fr) (fr_partial fr) = pending_of rc"
    and "fr_partial fr \<noteq> None \<Longrightarrow> ?hs \<noteq> []"
    by blast+
qed

lemma flush_result:
  assumes inv: "brc_inv rc" and part: "partial_ok conn part"
    and fr: "fr = flush_brcb_pending m encode conn sink rc part"
  shows "brc_inv (fr_rc fr)" and "partial_ok conn (fr_partial fr)"
    and "fr_end fr \<noteq> PassGone \<Longrightarrow>
      handles encode (unsent rc part) (next_number rc part) (next_overflow rc part) (fr_out fr)
        (unsent (fr_rc fr) (fr_partial fr))"
    and "fr_end fr = PassDone \<Longrightarrow> fr_partial fr = None \<and> pending_of (fr_rc fr) = []"
proof -
  have "brc_inv (fr_rc fr) \<and> partial_ok conn (fr_partial fr) \<and>
    (fr_end fr \<noteq> PassGone \<longrightarrow>
      handles encode (unsent rc part) (next_number rc part) (next_overflow rc part) (fr_out fr)
        (unsent (fr_rc fr) (fr_partial fr))) \<and>
    (fr_end fr = PassDone \<longrightarrow> fr_partial fr = None \<and> pending_of (fr_rc fr) = [])"
  proof (cases part)
    case None
    then have fr': "fr = send_pending m encode conn sink rc 0" by (simp add: fr flush_brcb_pending_def resume_partial_def)
    have "next_overflow rc part = first_overflow rc"
      using None by (auto simp: next_overflow_def first_overflow_def)
    with send_pending_result [OF inv fr'] None show ?thesis by (simp add: unsent_def next_number_def)
  next
    case (Some p)
    with part obtain i t where p: "partial_conn p = conn" "partial_entry p = Some (i, t)"
      by (auto simp: partial_ok_def)
    obtain sink' d where d: "push_segments m sink conn (partial_rest p) = (sink', d)" by fastforce
    show ?thesis
    proof (cases d)
      case (Complete n)
      let ?rc = "brcb_entry_sent rc i t"
      have fr': "fr = send_pending m encode conn sink' ?rc 1"
        using Complete d p Some by (simp add: fr flush_brcb_pending_def resume_partial_def)
      have "brc_inv ?rc" using inv by (simp add: brc_inv_def)
      from send_pending_result [OF this fr'] p Some show ?thesis
        by (simp add: unsent_def next_number_def next_overflow_def first_overflow_def pending_of_def)
    next
      case (Blocked n rest)
      then have "fr = \<lparr>fr_sink = sink', fr_rc = rc, fr_partial = Some (p\<lparr>partial_rest := rest\<rparr>),
          fr_out = [], fr_sent = 0, fr_end = PassWaiting\<rparr>"
        using d p Some by (simp add: fr flush_brcb_pending_def resume_partial_def)
      with inv p Some show ?thesis by (simp add: partial_ok_def unsent_def handles_none)
    next
      case Gone
      then have "fr = \<lparr>fr_sink = sink', fr_rc = rc, fr_partial = None,
          fr_out = [], fr_sent = 0, fr_end = PassGone\<rparr>"
        using d p Some by (simp add: fr flush_brcb_pending_def resume_partial_def)
      with inv show ?thesis by (simp add: partial_ok_def)
    qed
  qed
  then show "brc_inv (fr_rc fr)" and "partial_ok conn (fr_partial fr)"
    and "fr_end fr \<noteq> PassGone \<Longrightarrow>
      handles encode (unsent rc part) (next_number rc part) (next_overflow rc part) (fr_out fr)
        (unsent (fr_rc fr) (fr_partial fr))"
    and "fr_end fr = PassDone \<Longrightarrow> fr_partial fr = None \<and> pending_of (fr_rc fr) = []"
    by blast+
qed

lemma send_entries_formatted:
  assumes "send_entries m encode conn sink rc es ovfl = (sink', rc', out, stop)"
    and "formatted_through (report_buffer rc) \<le> bound"
    and "\<forall>h \<in> set (handled m encode conn sink (sq_num (state rc)) ovfl es). entry_num (fst h) \<le> bound"
  shows "formatted_through (report_buffer rc') \<le> bound"
  using assms
proof (induction es arbitrary: sink rc ovfl out)
  case (Cons e es)
  from Cons.prems(1) show ?case
    by (cases rule: send_entries_cases) (use Cons in \<open>auto simp del: handled.simps send_entries.simps\<close>)
qed auto

lemma send_entries_silent:
  assumes "send_entries m encode conn sink rc es ovfl = (sink', rc', [], stop)"
  shows "report_buffer rc' = report_buffer rc"
  using assms
proof (induction es arbitrary: sink rc ovfl)
  case (Cons e es)
  from Cons.prems show ?case
    by (cases rule: send_entries_cases) (auto dest: Cons.IH)
qed auto

text \<open>
  The client is in step: the anchor, or the entry of a partly sent report, is an allocated EntryID
  and nothing past it is marked as formatted.
\<close>

definition handed_through :: "entry_id \<Rightarrow> partial_report option \<Rightarrow> entry_id" where
  "handed_through a part = (case Option.bind part partial_entry of None \<Rightarrow> a | Some (i, _) \<Rightarrow> i)"

definition in_step :: "connection_id \<Rightarrow> buffered_report_control \<Rightarrow> partial_report option \<Rightarrow> bool" where
  "in_step conn rc part \<longleftrightarrow> brc_inv rc \<and> capacity (report_buffer rc) \<noteq> 0 \<and> partial_ok conn part \<and>
     (\<exists>a. transmit_anchor (state rc) = AfterEntryId a \<and>
        as_u64 (handed_through a part) \<le> last_entry_id_ms (state rc) \<and>
        formatted_through (report_buffer rc) \<le> as_u64 (handed_through a part))"

lemma in_stepE:
  assumes "in_step conn rc part"
  obtains a where "brc_inv rc" "capacity (report_buffer rc) \<noteq> 0" "partial_ok conn part"
    "transmit_anchor (state rc) = AfterEntryId a"
    "as_u64 (handed_through a part) \<le> last_entry_id_ms (state rc)"
    "formatted_through (report_buffer rc) \<le> as_u64 (handed_through a part)"
    "unsent rc part = iter_from (report_buffer rc) (handed_through a part)"
proof -
  from assms obtain a where a: "transmit_anchor (state rc) = AfterEntryId a"
    and st: "as_u64 (handed_through a part) \<le> last_entry_id_ms (state rc)"
      "formatted_through (report_buffer rc) \<le> as_u64 (handed_through a part)"
    by (auto simp: in_step_def)
  have "unsent rc part = iter_from (report_buffer rc) (handed_through a part)"
    using a by (simp add: unsent_def pending_of_def handed_through_def split: option.split)
  with assms a st that show thesis by (simp add: in_step_def)
qed

lemma sorted_map_last:
  fixes f :: "'a \<Rightarrow> 'b::linorder"
  shows "sorted_wrt (<) (map f xs) \<Longrightarrow> x \<in> set xs \<Longrightarrow> f x \<le> f (last xs)"
  by (induction xs) (auto simp: less_imp_le)

lemma in_step_send:
  assumes step: "in_step conn rc None" and fr: "fr = send_pending m encode conn sink rc k"
  shows "in_step conn (fr_rc fr) (fr_partial fr)"
    and "is_overflow (report_buffer rc) \<Longrightarrow>
      is_overflow (report_buffer (fr_rc fr)) \<or> (\<exists>r \<in> set (fr_out fr). fst (snd r))"
proof -
  from step obtain a where st: "brc_inv rc" "capacity (report_buffer rc) \<noteq> 0"
    "transmit_anchor (state rc) = AfterEntryId a" "as_u64 a \<le> last_entry_id_ms (state rc)"
    "formatted_through (report_buffer rc) \<le> as_u64 a" "pending_of rc = iter_from (report_buffer rc) a"
    by (rule in_stepE) (auto simp: handed_through_def unsent_def)
  note res = send_pending_result [OF st(1) fr]
  have "in_step conn (fr_rc fr) (fr_partial fr) \<and> (is_overflow (report_buffer rc) \<longrightarrow>
      is_overflow (report_buffer (fr_rc fr)) \<or> (\<exists>r \<in> set (fr_out fr). fst (snd r)))"
  proof (cases "pending_of rc = []")
    case True
    with res(5) step show ?thesis by simp
  next
    case False
    obtain sink' rc' out stop where
      s: "send_entries m encode conn sink rc (pending_of rc) (first_overflow rc) = (sink', rc', out, stop)"
      by (metis prod_cases4)
    have fr': "fr_rc fr = rc'" "fr_partial fr = keep_partial conn stop" "fr_out fr = out"
      using False s st(3) by (simp_all add: fr send_pending_def select_pending_spec Let_def)
    define hs where "hs = handled m encode conn sink (sq_num (state rc)) (first_overflow rc) (pending_of rc)"
    note h = send_entries_handled [OF s hs_def] and frame = send_entries_frame [OF s]
    from h obtain rest where rest: "pending_of rc = map fst hs @ rest" by blast
    define mark where "mark = (if hs = [] then a else entry_id (fst (last hs)))"
    have sorted: "sorted_wrt (<) (map entry_num (map fst hs @ rest))"
      unfolding rest [symmetric] st(6) using buffer_invD(2) [OF brc_invD(1) [OF st(1)]]
      by (simp add: iter_from_def sorted_wrt_map sorted_wrt_filter)
    have in_pending: "as_u64 a < entry_num (fst h) \<and> fst h \<in> set (entries (report_buffer rc))" if "h \<in> set hs" for h
    proof -
      have "fst h \<in> set (pending_of rc)" using that rest by auto
      then show ?thesis by (simp add: st(6) iter_from_def)
    qed
    have "entry_num (fst h) \<le> as_u64 mark" if "h \<in> set hs" for h
      using that sorted_map_last [of "entry_num \<circ> fst" hs h] sorted
      by (auto simp: mark_def sorted_wrt_append)
    moreover have am: "as_u64 a \<le> as_u64 mark" using in_pending [of "last hs"] by (auto simp: mark_def less_imp_le)
    ultimately have ft: "formatted_through (report_buffer rc') \<le> as_u64 mark"
      using send_entries_formatted [OF s, of "as_u64 mark"] st(5) by (simp add: hs_def)
    have "as_u64 mark \<le> last_entry_id_ms (state rc')"
      using brc_invD(2) [OF st(1)] in_pending [of "last hs"] st(4) frame(4) by (simp add: mark_def)
    moreover have "\<exists>b. transmit_anchor (state rc') = AfterEntryId b \<and> handed_through b (keep_partial conn stop) = mark"
      using h st(3) by (cases stop) (auto simp: anchor_after_last mark_def handed_through_def split: if_splits)
    ultimately have "in_step conn rc' (keep_partial conn stop)"
      using res(1,2) fr' ft frame(3) st(2) by (auto simp: in_step_def)
    moreover have "is_overflow (report_buffer rc') \<or> (\<exists>r \<in> set out. fst (snd r))" if "is_overflow (report_buffer rc)"
    proof (cases "sent_of hs")
      case Nil
      with h s send_entries_silent that show ?thesis by fastforce
    next
      case (Cons e es)
      with h that show ?thesis by (simp add: first_overflow_def)
    qed
    ultimately show ?thesis using fr' by simp
  qed
  then show "in_step conn (fr_rc fr) (fr_partial fr)"
    and "is_overflow (report_buffer rc) \<Longrightarrow>
      is_overflow (report_buffer (fr_rc fr)) \<or> (\<exists>r \<in> set (fr_out fr). fst (snd r))"
    by blast+
qed

lemma in_step_flush:
  assumes step: "in_step conn rc part" and fr: "fr = flush_brcb_pending m encode conn sink rc part"
    and alive: "fr_end fr \<noteq> PassGone"
  shows "in_step conn (fr_rc fr) (fr_partial fr)"
    and "is_overflow (report_buffer rc) \<Longrightarrow>
      is_overflow (report_buffer (fr_rc fr)) \<or> (\<exists>r \<in> set (fr_out fr). fst (snd r))"
proof -
  have "in_step conn (fr_rc fr) (fr_partial fr) \<and> (is_overflow (report_buffer rc) \<longrightarrow>
      is_overflow (report_buffer (fr_rc fr)) \<or> (\<exists>r \<in> set (fr_out fr). fst (snd r)))"
  proof (cases part)
    case None
    then have "fr = send_pending m encode conn sink rc 0"
      by (simp add: fr flush_brcb_pending_def resume_partial_def)
    from in_step_send [OF _ this] step None show ?thesis by simp
  next
    case (Some p)
    with step obtain i t where p: "partial_conn p = conn" "partial_entry p = Some (i, t)"
      by (auto simp: in_step_def partial_ok_def)
    obtain sink' d where d: "push_segments m sink conn (partial_rest p) = (sink', d)" by fastforce
    show ?thesis
    proof (cases d)
      case (Complete n)
      have "fr = send_pending m encode conn sink' (brcb_entry_sent rc i t) 1"
        using Complete d p Some by (simp add: fr flush_brcb_pending_def resume_partial_def)
      moreover have "in_step conn (brcb_entry_sent rc i t) None"
        using step Some p by (auto simp: in_step_def brc_inv_def partial_ok_def handed_through_def)
      ultimately show ?thesis using in_step_send [of conn "brcb_entry_sent rc i t" fr] by simp
    next
      case (Blocked n rest)
      then have "fr_rc fr = rc" "fr_partial fr = Some (p\<lparr>partial_rest := rest\<rparr>)"
        using d p Some by (simp_all add: fr flush_brcb_pending_def resume_partial_def)
      with step Some p show ?thesis by (simp add: in_step_def partial_ok_def handed_through_def)
    next
      case Gone
      with d p Some alive show ?thesis by (simp add: fr flush_brcb_pending_def resume_partial_def)
    qed
  qed
  then show "in_step conn (fr_rc fr) (fr_partial fr)"
    and "is_overflow (report_buffer rc) \<Longrightarrow>
      is_overflow (report_buffer (fr_rc fr)) \<or> (\<exists>r \<in> set (fr_out fr). fst (snd r))"
    by blast+
qed

lemma entry_id_with_snapshot [simp]: "entry_id (report_entry_with_snapshot i t p g s) = i"
  by (simp add: report_entry_with_snapshot_def)

lemma in_step_enqueue:
  assumes step: "in_step conn rc part" and ready: "enqueue_ready rc now"
    and e: "enqueue_entry_with_snapshot rc now p g snap = (rc', i, ev)"
  shows "in_step conn rc' part"
    and "is_overflow (report_buffer rc) \<Longrightarrow> is_overflow (report_buffer rc')"
    and "is_overflow (report_buffer rc') \<or>
      unsent rc' part = unsent rc part @ [report_entry_with_snapshot i now p g snap]"
proof -
  let ?e = "report_entry_with_snapshot i now p g snap"
  have ew: "enqueue_with (\<lambda>i. report_entry_with_snapshot i now p g snap) rc now = (rc', i, ev)"
    using e by (simp add: enqueue_as_enqueue_with)
  from step obtain a where inv: "brc_inv rc" and cap: "capacity (report_buffer rc) \<noteq> 0"
    and pok: "partial_ok conn part" and anchor: "transmit_anchor (state rc) = AfterEntryId a"
    and al: "as_u64 (handed_through a part) \<le> last_entry_id_ms (state rc)"
    and th: "formatted_through (report_buffer rc) \<le> as_u64 (handed_through a part)"
    and un: "unsent rc part = iter_from (report_buffer rc) (handed_through a part)"
    by (rule in_stepE)
  note binv = brc_invD(1) [OF inv] and res = enqueue_with_result [OF ew]
  have inv': "brc_inv rc'" and lt: "\<forall>e \<in> set (iter_entries (report_buffer rc)). entry_num e < as_u64 i"
    using enqueue_with_inv [OF inv ready _ ew] by simp_all
  let ?s = "fst (allocate_entry_id (state rc) now)"
  have last: "last_entry_id_ms (state rc) < as_u64 i" and upd: "last_entry_id_ms ?s = as_u64 i"
    using ready allocate_entry_id_fresh [of now "state rc" ?s i] res(1)
    by (simp_all add: enqueue_ready_def)
  have anchor': "transmit_anchor (state rc') = AfterEntryId a"
    by (simp add: res(3) on_enqueue_def allocate_entry_id_frame anchor)
  have "last_entry_id_ms (state rc') = as_u64 i" by (simp add: res(3) upd)
  then show step': "in_step conn rc' part"
    using inv' cap pok anchor' al last th mem.cap_push [OF binv] mem.through_push [OF binv] res(2)
    by (auto simp: in_step_def)
  show "is_overflow (report_buffer rc) \<Longrightarrow> is_overflow (report_buffer rc')"
    using mem.overflow_push [OF binv] res(2) by simp
  have "accepts (report_buffer rc) ?e"
    using lt ready by (simp add: accepts_def iter_entries_def enqueue_ready_def)
  then have ext: "\<not> is_overflow (report_buffer rc') \<Longrightarrow>
      iter_from (report_buffer rc') (handed_through a part) = iter_from (report_buffer rc) (handed_through a part) @ [?e]"
    using mem.push_extends_pending [OF binv cap _ th, of ?e] al last res(2) by simp
  have "unsent rc' part = iter_from (report_buffer rc') (handed_through a part)"
    using step' anchor' by (elim in_stepE) simp
  with ext un show "is_overflow (report_buffer rc') \<or> unsent rc' part = unsent rc part @ [?e]" by auto
qed

text \<open>
  Runs of a control block whose client is connected: entries are enqueued and passes of the
  flush hand over what the channel takes. A pass comes with the sink as it finds it, so
  the channel may drain in any way between two passes. A run yields the final control block
  and partly sent report, the reports handed over and the entries enqueued.
\<close>

datatype 'tx brcb_event = EvEnqueue u64 bool bool enqueued_snapshot | EvFlush "'tx sink"

fun run_events ::
  "'tx mpsc \<Rightarrow> encoder \<Rightarrow> connection_id \<Rightarrow> buffered_report_control \<Rightarrow> partial_report option \<Rightarrow> 'tx brcb_event list \<Rightarrow>
   buffered_report_control \<times> partial_report option \<times> report_log \<times> report_entry list" where
  "run_events m encode conn rc part [] = (rc, part, [], [])"
| "run_events m encode conn rc part (EvEnqueue now integrity g snap # evs) =
     (let (rc, i, _) = enqueue_entry_with_snapshot rc now integrity g snap;
          (rc, part, out, enq) = run_events m encode conn rc part evs
      in (rc, part, out, report_entry_with_snapshot i now integrity g snap # enq))"
| "run_events m encode conn rc part (EvFlush sink # evs) =
     (let fr = flush_brcb_pending m encode conn sink rc part;
          (rc, part, out, enq) = run_events m encode conn (fr_rc fr) (fr_partial fr) evs
      in (rc, part, fr_out fr @ out, enq))"

text \<open>Along the run there is an EntryID left for each entry and the receiver stays.\<close>

fun events_ready ::
  "'tx mpsc \<Rightarrow> encoder \<Rightarrow> connection_id \<Rightarrow> buffered_report_control \<Rightarrow> partial_report option \<Rightarrow> 'tx brcb_event list \<Rightarrow> bool" where
  "events_ready m encode conn rc part [] \<longleftrightarrow> True"
| "events_ready m encode conn rc part (EvEnqueue now integrity g snap # evs) \<longleftrightarrow>
     enqueue_ready rc now \<and>
     events_ready m encode conn (fst (enqueue_entry_with_snapshot rc now integrity g snap)) part evs"
| "events_ready m encode conn rc part (EvFlush sink # evs) \<longleftrightarrow>
     (let fr = flush_brcb_pending m encode conn sink rc part
      in fr_end fr \<noteq> PassGone \<and> events_ready m encode conn (fr_rc fr) (fr_partial fr) evs)"

text \<open>The reports carry, in order, the entries of a queue up to a rest that is still to be sent.\<close>

definition delivered ::
  "encoder \<Rightarrow> report_entry list \<Rightarrow> report_log \<Rightarrow> report_entry list \<Rightarrow> bool" where
  "delivered encode queue out rest \<longleftrightarrow>
     (\<exists>hs. queue = map fst hs @ rest \<and> map (\<lambda>r. snd (snd r)) out = sent_of hs \<and>
        (\<forall>(e, b) \<in> set hs. b \<or> oversized encode e))"

lemma handles_delivered: "handles encode queue n v out rest \<Longrightarrow> delivered encode queue out rest"
  by (auto simp: handles_def delivered_def reports_of_entries)

lemma delivered_append:
  assumes "delivered encode queue out mid" and "delivered encode (mid @ new) out' rest"
  shows "delivered encode (queue @ new) (out @ out') rest"
proof -
  from assms obtain hs hs' where "queue = map fst hs @ mid" "map (\<lambda>r. snd (snd r)) out = sent_of hs"
    "\<forall>(e, b) \<in> set hs. b \<or> oversized encode e" "mid @ new = map fst hs' @ rest"
    "map (\<lambda>r. snd (snd r)) out' = sent_of hs'" "\<forall>(e, b) \<in> set hs'. b \<or> oversized encode e"
    unfolding delivered_def by blast
  then show ?thesis unfolding delivered_def by (intro exI [of _ "hs @ hs'"]) auto
qed

definition overflow_reported :: "report_log \<Rightarrow> bool" where
  "overflow_reported out \<longleftrightarrow> (\<exists>r \<in> set out. fst (snd r))"

lemma overflow_reported_append [simp]:
  "overflow_reported (out @ out') \<longleftrightarrow> overflow_reported out \<or> overflow_reported out'"
  by (auto simp: overflow_reported_def)

lemma run_events_delivery:
  assumes "in_step conn rc part" and "events_ready m encode conn rc part evs"
    and "run_events m encode conn rc part evs = (rc', part', out, enq)"
  shows "is_overflow (report_buffer rc') \<or> overflow_reported out \<or>
     (\<not> is_overflow (report_buffer rc) \<and> delivered encode (unsent rc part @ enq) out (unsent rc' part'))"
  using assms
proof (induction m encode conn rc part evs arbitrary: rc' part' out enq rule: run_events.induct)
  case (1 m encode conn rc part)
  then show ?case by (auto simp: delivered_def intro!: exI [of _ "[]"])
next
  case (2 m encode conn rc part now p g snap evs)
  obtain rc1 i ev where e: "enqueue_entry_with_snapshot rc now p g snap = (rc1, i, ev)"
    by (metis prod_cases3)
  obtain rc2 part2 out2 enq2 where r: "run_events m encode conn rc1 part evs = (rc2, part2, out2, enq2)"
    by (metis prod_cases4)
  from "2.prems" e r have ready: "enqueue_ready rc now" "events_ready m encode conn rc1 part evs"
    and eqs: "rc' = rc2" "part' = part2" "out = out2" "enq = report_entry_with_snapshot i now p g snap # enq2"
    by (simp_all add: Let_def)
  note st = in_step_enqueue [OF "2.prems"(1) ready(1) e]
  note ih = "2.IH" [OF e [symmetric] refl refl st(1) ready(2) r]
  have "unsent rc1 part @ enq2 = unsent rc part @ enq" if "\<not> is_overflow (report_buffer rc1)"
    using st(3) that eqs(4) by simp
  with ih st(2) eqs(1-3) show ?case by metis
next
  case (3 m encode conn rc part sink evs)
  define fr where "fr = flush_brcb_pending m encode conn sink rc part"
  obtain rc2 part2 out2 enq2 where
    r: "run_events m encode conn (fr_rc fr) (fr_partial fr) evs = (rc2, part2, out2, enq2)"
    by (metis prod_cases4)
  from "3.prems" r have ready: "fr_end fr \<noteq> PassGone" "events_ready m encode conn (fr_rc fr) (fr_partial fr) evs"
    and eqs: "rc' = rc2" "part' = part2" "out = fr_out fr @ out2" "enq = enq2"
    by (simp_all add: Let_def fr_def)
  note st = in_step_flush [OF "3.prems"(1) fr_def ready(1)]
  from "3.prems"(1) have "brc_inv rc" "partial_ok conn part" by (simp_all add: in_step_def)
  from handles_delivered [OF flush_result(3) [OF this fr_def ready(1)]]
  have d: "delivered encode (unsent rc part) (fr_out fr) (unsent (fr_rc fr) (fr_partial fr))" .
  have "is_overflow (report_buffer rc2) \<or> overflow_reported out2 \<or>
     (\<not> is_overflow (report_buffer (fr_rc fr)) \<and>
      delivered encode (unsent (fr_rc fr) (fr_partial fr) @ enq2) out2 (unsent rc2 part2))"
    using "3.IH" [OF fr_def st(1) ready(2) r] .
  with delivered_append [OF d] st(2) eqs show ?case by (auto simp: overflow_reported_def)
qed

section \<open>Segments\<close>

text \<open>The segments of the reports of a log, and those of a partly sent report that wait.\<close>

definition segments_of :: "encoder \<Rightarrow> report_log \<Rightarrow> bytes list" where
  "segments_of encode out = concat (map (\<lambda>(n, v, e). the (encode n v e)) out)"

definition waiting :: "partial_report option \<Rightarrow> bytes list" where
  "waiting part = (case part of None \<Rightarrow> [] | Some p \<Rightarrow> partial_rest p)"

lemma send_entries_segments:
  assumes laws: "mpsc_laws m queued receiver" and "sink conn = Some tx"
    and "send_entries m encode conn sink rc es ovfl = (sink', rc', out, stop)" and "stop \<noteq> PassGone"
  shows "\<exists>tx'. sink' conn = Some tx' \<and>
    queued tx' @ waiting (keep_partial conn stop) = queued tx @ segments_of encode out"
  using assms(2-4)
proof (induction es arbitrary: sink tx rc ovfl out)
  case Nil
  then show ?case by (auto simp: segments_of_def waiting_def)
next
  case (Cons e es)
  from Cons.prems(2) show ?case
  proof (cases rule: send_entries_cases)
    case skip
    from Cons.IH [OF Cons.prems(1) skip(2) Cons.prems(3)] show ?thesis .
  next
    case halt
    with Cons.prems show ?thesis by (auto simp: segments_of_def waiting_def split: if_splits option.splits delivery.splits prod.splits)
  next
    case (full sink1 k out1 pdus)
    from push_conserves [OF laws, of sink conn tx 0 pdus] Cons.prems(1) full(3) obtain tx1 where
      "sink1 = sink(conn \<mapsto> tx1)" and q: "queued tx1 = queued tx @ pdus"
      by (force simp: push_segments_def)
    then have "sink1 conn = Some tx1" by simp
    from Cons.IH [OF this full(4) Cons.prems(3)] q full(1,5) show ?thesis
      by (auto simp: segments_of_def)
  next
    case (part k rest pdus)
    from push_conserves [OF laws, of sink conn tx 0 pdus] Cons.prems(1) part(3) obtain tx1 where
      "sink' = sink(conn \<mapsto> tx1)" "queued tx1 @ rest = queued tx @ pdus"
      by (force simp: push_segments_def)
    with part(1,5,6) show ?thesis by (simp add: segments_of_def waiting_def)
  qed
qed

lemma send_pending_segments:
  assumes "mpsc_laws m queued receiver" and "sink conn = Some tx"
    and fr: "fr = send_pending m encode conn sink rc k" and "fr_end fr \<noteq> PassGone"
  shows "\<exists>tx'. fr_sink fr conn = Some tx' \<and>
    queued tx' @ waiting (fr_partial fr) = queued tx @ segments_of encode (fr_out fr)"
proof -
  obtain rc1 sel where s: "select_pending rc = (rc1, sel)" by fastforce
  show ?thesis
  proof (cases sel)
    case None
    with s assms(2) show ?thesis by (simp add: fr send_pending_def segments_of_def waiting_def)
  next
    case (Some eo)
    obtain es v where eo: "eo = (es, v)" by fastforce
    obtain sink' rc' out stop where
      e: "send_entries m encode conn sink rc1 es v = (sink', rc', out, stop)" by (metis prod_cases4)
    have "fr_sink fr = sink'" "fr_partial fr = keep_partial conn stop" "fr_out fr = out" "fr_end fr = stop"
      using s Some eo e by (simp_all add: fr send_pending_def Let_def)
    with send_entries_segments [OF assms(1,2) e] assms(4) show ?thesis by simp
  qed
qed

text \<open>A channel that is there and empty enough for the longest report it takes at once.\<close>

definition roomy :: "'tx mpsc \<Rightarrow> ('tx \<Rightarrow> bool) \<Rightarrow> connection_id \<Rightarrow> 'tx sink \<Rightarrow> bool" where
  "roomy m receiver conn sink \<longleftrightarrow>
     (\<exists>tx. sink conn = Some tx \<and> receiver tx \<and> REPORT_CHANNEL_CAP \<le> tx_capacity m tx)"

lemma handled_roomy:
  assumes "mpsc_laws m queued receiver" and "roomy m receiver conn sink" and "es \<noteq> []"
  shows "handled m encode conn sink n v es \<noteq> []"
proof -
  from assms(3) obtain e es' where es: "es = e # es'" by (cases es) auto
  from assms(2) obtain tx where tx: "sink conn = Some tx" "receiver tx" "REPORT_CHANNEL_CAP \<le> tx_capacity m tx"
    by (auto simp: roomy_def)
  show ?thesis
  proof (cases "encode n v e")
    case None
    then show ?thesis by (simp add: es)
  next
    case (Some pdus)
    have "channel_has_room m sink conn (length pdus)"
      using tx by (simp add: channel_has_room_def available_capacity_def)
    with Some push_open [OF assms(1), of sink conn tx 0 pdus] tx(1,2) show ?thesis
      by (auto simp: es push_segments_def split: prod.splits if_splits)
  qed
qed

text \<open>Work left: an entry counts for the segments it may turn into, a partly sent report for those it has.\<close>

definition work :: "nat \<Rightarrow> buffered_report_control \<Rightarrow> partial_report option \<Rightarrow> nat" where
  "work bound rc part =
     (bound + 2) * length (unsent rc part) + length (waiting part) + (if part = None then 0 else 1)"

definition segments_bounded :: "nat \<Rightarrow> encoder \<Rightarrow> bool" where
  "segments_bounded bound encode \<longleftrightarrow> (\<forall>n v e pdus. encode n v e = Some pdus \<longrightarrow> length pdus \<le> bound)"

lemma push_from_rest: "push_from m sink conn k segs = (sink', Blocked n rest) \<Longrightarrow> length rest \<le> length segs"
  by (induction segs arbitrary: sink k) (auto split: prod.splits send_outcome.splits simp: le_SucI)

lemma send_entries_waiting:
  assumes "segments_bounded bound encode"
    and "send_entries m encode conn sink rc es ovfl = (sink', rc', out, stop)"
  shows "length (waiting (keep_partial conn stop)) \<le> bound"
  using assms(2)
proof (induction es arbitrary: sink rc ovfl out)
  case (Cons e es)
  from Cons.prems show ?case
  proof (cases rule: send_entries_cases)
    case (part k rest pdus)
    with assms(1) push_from_rest show ?thesis
      by (fastforce simp: waiting_def segments_bounded_def push_segments_def)
  qed (auto simp: waiting_def dest: Cons.IH)
qed (auto simp: waiting_def)

lemma send_pending_work:
  assumes inv: "brc_inv rc" and bound: "segments_bounded bound encode"
    and fr: "fr = send_pending m encode conn sink rc k"
  shows "work bound (fr_rc fr) (fr_partial fr) \<le> work bound rc None"
    and "mpsc_laws m queued receiver \<Longrightarrow> roomy m receiver conn sink \<Longrightarrow> pending_of rc \<noteq> [] \<Longrightarrow>
      work bound (fr_rc fr) (fr_partial fr) < work bound rc None"
proof -
  note res = send_pending_result [OF inv fr]
  let ?hs = "handled m encode conn sink (sq_num (state rc)) (first_overflow rc) (pending_of rc)"
  have w: "length (waiting (fr_partial fr)) \<le> bound"
  proof (cases "pending_of rc = []")
    case True
    with res(5) show ?thesis by (simp add: waiting_def)
  next
    case False
    then show ?thesis
      using send_entries_waiting [OF bound]
      by (auto simp: fr send_pending_def select_pending_spec Let_def split: prod.split)
  qed
  have len: "length ?hs + length (unsent (fr_rc fr) (fr_partial fr)) = length (pending_of rc)"
    using arg_cong [OF res(7), of length] by simp
  have less: "work bound (fr_rc fr) (fr_partial fr) < work bound rc None" if "?hs \<noteq> []"
  proof -
    from that have "Suc (length (unsent (fr_rc fr) (fr_partial fr))) \<le> length (pending_of rc)"
      using len by (cases ?hs) simp_all
    from mult_le_mono2 [OF this, of "bound + 2"] w show ?thesis
      by (cases "fr_partial fr") (simp_all add: work_def unsent_def [of rc] waiting_def [of None])
  qed
  show "work bound (fr_rc fr) (fr_partial fr) \<le> work bound rc None"
  proof (cases "?hs = []")
    case True
    with res(8) len show ?thesis by (cases "fr_partial fr") (auto simp: work_def unsent_def [of rc] waiting_def)
  next
    case False
    from less [OF this] show ?thesis by simp
  qed
  show "mpsc_laws m queued receiver \<Longrightarrow> roomy m receiver conn sink \<Longrightarrow> pending_of rc \<noteq> [] \<Longrightarrow>
      work bound (fr_rc fr) (fr_partial fr) < work bound rc None"
    using handled_roomy less by metis
qed

lemma flush_work:
  assumes laws: "mpsc_laws m queued receiver" and room: "roomy m receiver conn sink"
    and inv: "brc_inv rc" and pok: "partial_ok conn part" and bound: "segments_bounded bound encode"
    and fr: "fr = flush_brcb_pending m encode conn sink rc part"
  shows "work bound (fr_rc fr) (fr_partial fr) = 0 \<or>
    work bound (fr_rc fr) (fr_partial fr) < work bound rc part"
proof (cases part)
  case None
  then have fr': "fr = send_pending m encode conn sink rc 0"
    by (simp add: fr flush_brcb_pending_def resume_partial_def)
  show ?thesis
  proof (cases "pending_of rc = []")
    case True
    with send_pending_result(5) [OF inv fr'] show ?thesis by (simp add: work_def unsent_def waiting_def)
  next
    case False
    with send_pending_work(2) [OF inv bound fr' laws room] None show ?thesis by simp
  qed
next
  case (Some p)
  with pok obtain i t where p: "partial_conn p = conn" "partial_entry p = Some (i, t)"
    by (auto simp: partial_ok_def)
  from room obtain tx where tx: "sink conn = Some tx" "receiver tx" "0 < tx_capacity m tx"
    by (auto simp: roomy_def REPORT_CHANNEL_CAP_def)
  from push_open [OF laws, of sink conn tx 0 "partial_rest p"] tx(1,2) obtain tx' where
    d: "push_segments m sink conn (partial_rest p) = (sink(conn \<mapsto> tx'),
      if length (partial_rest p) \<le> tx_capacity m tx then Complete (length (partial_rest p))
      else Blocked (tx_capacity m tx) (drop (tx_capacity m tx) (partial_rest p)))"
    by (auto simp: push_segments_def)
  show ?thesis
  proof (cases "length (partial_rest p) \<le> tx_capacity m tx")
    case True
    then have fr': "fr = send_pending m encode conn (sink(conn \<mapsto> tx')) (brcb_entry_sent rc i t) 1"
      using d p Some by (simp add: fr flush_brcb_pending_def resume_partial_def)
    have "brc_inv (brcb_entry_sent rc i t)" using inv by (simp add: brc_inv_def)
    from send_pending_work(1) [OF this bound fr']
    have "work bound (fr_rc fr) (fr_partial fr) \<le> work bound (brcb_entry_sent rc i t) None" .
    also have "\<dots> < work bound rc part"
      using Some p by (simp add: work_def unsent_def pending_of_def waiting_def)
    finally show ?thesis by simp
  next
    case False
    then have "fr_rc fr = rc" "fr_partial fr = Some (p\<lparr>partial_rest := drop (tx_capacity m tx) (partial_rest p)\<rparr>)"
      using d p Some by (simp_all add: fr flush_brcb_pending_def resume_partial_def)
    with False tx(3) Some p show ?thesis by (simp add: work_def unsent_def waiting_def)
  qed
qed

fun run_passes ::
  "'tx mpsc \<Rightarrow> encoder \<Rightarrow> connection_id \<Rightarrow> buffered_report_control \<Rightarrow> partial_report option \<Rightarrow> 'tx sink list \<Rightarrow>
   buffered_report_control \<times> partial_report option" where
  "run_passes m encode conn rc part [] = (rc, part)"
| "run_passes m encode conn rc part (sink # sinks) =
     (let fr = flush_brcb_pending m encode conn sink rc part
      in run_passes m encode conn (fr_rc fr) (fr_partial fr) sinks)"

lemma run_passes_work:
  assumes laws: "mpsc_laws m queued receiver" and bound: "segments_bounded bound encode"
    and "brc_inv rc" and "partial_ok conn part" and "\<forall>sink \<in> set sinks. roomy m receiver conn sink"
    and "work bound rc part \<le> length sinks"
    and "run_passes m encode conn rc part sinks = (rc', part')"
  shows "work bound rc' part' = 0"
  using assms(3-)
proof (induction sinks arbitrary: rc part)
  case (Cons sink sinks)
  define fr where "fr = flush_brcb_pending m encode conn sink rc part"
  note res = flush_result [OF Cons.prems(1,2) fr_def]
  have "work bound (fr_rc fr) (fr_partial fr) \<le> length sinks"
    using flush_work [OF laws _ Cons.prems(1,2) bound fr_def] Cons.prems(3,4) by auto
  with Cons.IH [OF res(1,2)] Cons.prems(3,5) show ?case by (simp add: fr_def Let_def)
qed simp

end
