(* ===== verification/Brcb_Delivery.thy ===== *)
theory Brcb_Delivery
  imports Brcb_Transmit
begin

text \<open>
  What a client of a buffered report control block receives: the properties of enqueuing, delivery,
  resynchronisation, configuration writes and purges.
\<close>

section \<open>Properties\<close>

text \<open>
  Concrete data: a client in step with a buffer of two entries, a bounded queue as the channel, an
  encoder that gives two segments, and a run in which the channel is full at first.
\<close>

definition sample_state :: brcb_state where
  "sample_state = (state_from_brcb (brcb_new ''b'' ''LLN0$ds''))\<lparr>last_entry_id_ms := 5,
     transmit_anchor := AfterEntryId (entry_id_from_ms 5)\<rparr>"

definition sample_brc :: buffered_report_control where
  "sample_brc = (brc_new ''IED/LLN0$BR$b'' (brcb_new ''b'' ''LLN0$ds''))\<lparr>
     report_buffer := sample_buffer, state := sample_state\<rparr>"

definition queue_mpsc :: "(bytes list \<times> nat) mpsc" where
  "queue_mpsc = \<lparr>tx_try_send = (\<lambda>(q, free) pdu.
       if free = 0 then ((q, 0), Inl Full) else ((q @ [pdu], free - 1), Inr ())), tx_capacity = snd\<rparr>"

definition two_pdus :: encoder where
  "two_pdus n v e = Some [[ucast n, 0], [ucast n, 1]]"

definition sample_events :: "(bytes list \<times> nat) brcb_event list" where
  "sample_events = [EvEnqueue 6 False False (snapshot_new 1), EvFlush [1 \<mapsto> ([], 1)],
     EvFlush [1 \<mapsto> ([], 32)], EvEnqueue 3 False False (snapshot_new 1)]"

lemma sample_brc_in_step: "in_step 1 sample_brc None"
  using sample_buffer_inv
  by (auto simp: in_step_def brc_inv_def sample_brc_def sample_state_def sample_buffer_def partial_ok_def
      handed_through_def clear_overflow_def buffer_new_def buffer_with_strategy_def)

lemma queue_mpsc_laws: "mpsc_laws queue_mpsc fst (\<lambda>_. True)"
  by (auto simp: mpsc_laws_def queue_mpsc_def split: if_splits)

lemmas channel_simps = flush_brcb_pending_def resume_partial_def send_pending_def push_segments_def
  try_send_pdu_def channel_has_room_def available_capacity_def REPORT_CHANNEL_CAP_def queue_mpsc_def
  two_pdus_def

lemmas sample_brc_simps = sample_brc_def sample_state_def sample_events_def sample_buffer_def
  buffer_new_def buffer_with_strategy_def clear_overflow_def mark_formatted_def iter_from_def
  iter_entries_def is_overflow_def push_def store_entry_def saturating_add_def brc_new_def
  brc_with_backend_def state_from_brcb_def brcb_new_def enqueue_ready_def
  enqueue_entry_with_snapshot_def enqueue_allocate_def allocate_entry_id_def enqueue_push_def
  enqueue_notify_def on_enqueue_def select_pending_def entry_formatted_def
  brcb_entry_sent_def report_entry_with_snapshot_def Let_def

text \<open>
  C7. While a client is connected, its control block and buffer lose nothing silently. For
  every interleaving of enqueues and transmission passes, and however full the channel is at
  each pass, the reports handed over carry, in the order of their buffering and each
  exactly once, the entries enqueued so far except those that do not fit a PDU, the rest being
  still to be sent, unless a report carried BufOvfl or the buffer still owes one.
\<close>

theorem delivery_exact_unless_overflow:
  assumes "in_step conn rc part" and "unsent rc part = []" and "events_ready m encode conn rc part evs"
    and "run_events m encode conn rc part evs = (rc', part', out, enq)"
  shows "is_overflow (report_buffer rc') \<or> overflow_reported out \<or>
    delivered encode enq out (unsent rc' part')"
  using run_events_delivery [OF assms(1,3,4)] assms(2) by auto

theorem delivery_exact_unless_overflow_witness:
  "\<exists>rc' part' out enq. run_events queue_mpsc two_pdus 1 sample_brc None sample_events = (rc', part', out, enq) \<and>
     map (\<lambda>e. as_u64 (entry_id e)) enq = [6, 7] \<and> map (\<lambda>(n, v, e). (n, v, as_u64 (entry_id e))) out = [(0, False, 6)] \<and>
     delivered two_pdus enq out (unsent rc' part')"
proof -
  obtain rc' part' out enq where
    r: "run_events queue_mpsc two_pdus 1 sample_brc None sample_events = (rc', part', out, enq)"
    by (metis prod_cases4)
  have ready: "events_ready queue_mpsc two_pdus 1 sample_brc None sample_events"
    by (simp add: sample_brc_simps channel_simps word_less_nat_alt)
  have vals: "\<not> is_overflow (report_buffer rc')" "\<not> overflow_reported out"
     "map (\<lambda>e. as_u64 (entry_id e)) enq = [6, 7]" "map (\<lambda>(n, v, e). (n, v, as_u64 (entry_id e))) out = [(0, False, 6)]"
    using r by (auto simp: sample_brc_simps channel_simps overflow_reported_def word_less_nat_alt)
  have "unsent sample_brc None = []" by (simp add: unsent_def pending_of_def sample_brc_simps)
  from delivery_exact_unless_overflow [OF sample_brc_in_step this ready r] vals
  have "delivered two_pdus enq out (unsent rc' part')" by simp
  with r vals(3,4) show ?thesis by (intro exI [of _ rc'] exI [of _ part'] exI [of _ out] exI [of _ enq] conjI)
qed

text \<open>
  Enqueuing an entry allocates an EntryID that is larger than every buffered one and not
  before the current time, keeps the invariant of the control block (so EntryIDs stay strictly
  increasing), and stores the entry according to the overflow strategy of the buffer.
\<close>

theorem enqueue_keeps_order:
  assumes "brc_inv rc" and "enqueue_ready rc now_ms"
    and "enqueue_entry rc now_ms integrity g payload = (rc', i, evicted)"
  shows "brc_inv rc' \<and> now_ms \<le> as_u64 i \<and>
    (\<forall>e \<in> set (iter_entries (report_buffer rc)). entry_num e < as_u64 i) \<and>
    iter_entries (report_buffer rc') =
      spec_push (capacity (report_buffer rc)) (strategy (report_buffer rc))
        (iter_entries (report_buffer rc)) (report_entry_new i now_ms integrity g payload)"
proof -
  have e: "enqueue_with (\<lambda>i. report_entry_new i now_ms integrity g payload) rc now_ms = (rc', i, evicted)"
    using assms(3) by (simp add: enqueue_as_enqueue_with)
  note res = enqueue_with_result(1) [OF e]
  have "now_ms \<le> as_u64 i"
    using assms(2) allocate_entry_id_fresh(2) [of now_ms "state rc" _ i] res
    by (metis enqueue_ready_def prod.collapse)
  with enqueue_with_inv [OF assms(1,2) _ e] show ?thesis by (simp add: report_entry_new_def)
qed

theorem enqueue_keeps_order_witness:
  "\<exists>rc' i evicted. enqueue_entry sample_brc 3 True False [1] = (rc', i, evicted) \<and> as_u64 i = 6 \<and>
     brc_inv rc' \<and> iter_entries (report_buffer rc') = [report_entry_new i 3 True False [1]]"
proof -
  obtain rc' i ev where r: "enqueue_entry sample_brc 3 True False [1] = (rc', i, ev)"
    by (metis prod_cases3)
  have "brc_inv sample_brc" using sample_brc_in_step by (simp add: in_step_def)
  moreover have "enqueue_ready sample_brc 3" by (simp add: sample_brc_simps word_less_nat_alt)
  ultimately have *: "brc_inv rc'" "iter_entries (report_buffer rc') = [report_entry_new i 3 True False [1]]"
    using enqueue_keeps_order [OF _ _ r] by (simp_all add: sample_brc_simps spec_push_def)
  have "as_u64 i = 6" using r by (auto simp: enqueue_entry_def sample_brc_simps)
  with r * show ?thesis by (intro exI [of _ rc'] exI [of _ i] exI [of _ ev] conjI)
qed

lemma sample_enqueued_inv: "brc_inv (fst (enqueue_entry sample_brc 9 False False []))"
proof -
  have "enqueue_ready sample_brc 9" by (simp add: sample_brc_simps word_less_nat_alt)
  then show ?thesis
    using enqueue_with_inv(1) [of sample_brc 9 "\<lambda>i. report_entry_new i 9 False False []"
        "fst (enqueue_entry sample_brc 9 False False [])" "fst (snd (enqueue_entry sample_brc 9 False False []))"
        "snd (snd (enqueue_entry sample_brc 9 False False []))"] sample_brc_in_step
    by (simp add: enqueue_as_enqueue_with in_step_def report_entry_new_def)
qed

text \<open>
  C33. A transmission pass that is not held up by the channel hands over, from every anchor, exactly
  the entries left to send that fit a PDU, with consecutive (16-bit wrapping) sequence numbers
  and BufOvfl on the first alone; a second pass right after it sends nothing, whatever the channel.
\<close>

theorem flush_sends_pending_once:
  assumes "brc_inv rc" and "partial_ok conn part"
    and "fr = flush_brcb_pending m encode conn sink rc part" and "fr_end fr = PassDone"
  shows "handles encode (unsent rc part) (next_number rc part) (next_overflow rc part) (fr_out fr) [] \<and>
    brc_inv (fr_rc fr) \<and> fr_partial fr = None \<and>
    flush_brcb_pending m encode conn sink' (fr_rc fr) None =
      \<lparr>fr_sink = sink', fr_rc = fr_rc fr, fr_partial = None, fr_out = [], fr_sent = 0, fr_end = PassDone\<rparr>"
  using flush_result [OF assms(1-3)] assms(4)
  by (simp add: unsent_def flush_brcb_pending_def resume_partial_def send_pending_def select_pending_spec)

theorem flush_sends_pending_once_witness:
  "\<exists>fr i. fr = flush_brcb_pending queue_mpsc two_pdus 1 [1 \<mapsto> ([], 32)] (fst (enqueue_entry sample_brc 9 False False [])) None \<and>
     fr_out fr = [(0, False, report_entry_new i 9 False False [])] \<and> as_u64 i = 9 \<and>
     fr_out (flush_brcb_pending queue_mpsc two_pdus 1 Map.empty (fr_rc fr) None) = []"
proof -
  let ?rc = "fst (enqueue_entry sample_brc 9 False False [])"
  define fr where "fr = flush_brcb_pending queue_mpsc two_pdus 1 [1 \<mapsto> ([], 32)] ?rc None"
  have out: "fr_out fr = [(0, False, report_entry_new (entry_id_from_ms 9) 9 False False [])]" "fr_end fr = PassDone"
    by (simp_all add: fr_def enqueue_entry_def report_entry_new_def sample_brc_simps channel_simps word_less_nat_alt)
  have "partial_ok 1 None" by (simp add: partial_ok_def)
  from flush_sends_pending_once [OF sample_enqueued_inv this fr_def out(2), of Map.empty] out(1) show ?thesis
    by (intro exI [of _ fr] exI [of _ "entry_id_from_ms 9"]) (simp add: fr_def)
qed

text \<open>
  C9. No segment of a report is lost, repeated or reordered on its way into the channel. Over a
  transmission pass, what the channel holds followed by the segments kept back is what the channel
  held, then the segments kept back before, then those of the reports the pass handed over, each complete.
\<close>

theorem segments_conserved:
  assumes "mpsc_laws m queued receiver" and "sink conn = Some tx" and "partial_ok conn part"
    and "fr = flush_brcb_pending m encode conn sink rc part" and "fr_end fr \<noteq> PassGone"
  shows "\<exists>tx'. fr_sink fr conn = Some tx' \<and>
    queued tx' @ waiting (fr_partial fr) = queued tx @ waiting part @ segments_of encode (fr_out fr)"
proof (cases part)
  case None
  then have "fr = send_pending m encode conn sink rc 0"
    using assms(4) by (simp add: flush_brcb_pending_def resume_partial_def)
  from send_pending_segments [OF assms(1,2) this assms(5)] None show ?thesis by (simp add: waiting_def)
next
  case (Some p)
  with assms(3) obtain i t where p: "partial_conn p = conn" "partial_entry p = Some (i, t)"
    by (auto simp: partial_ok_def)
  obtain sink' d where d: "push_segments m sink conn (partial_rest p) = (sink', d)" by fastforce
  with push_conserves [OF assms(1), of sink conn tx 0 "partial_rest p"] assms(2) obtain tx' where
    tx': "sink' conn = Some tx'" and q: "case d of Complete n \<Rightarrow> queued tx' = queued tx @ partial_rest p
      | Blocked n rest \<Rightarrow> queued tx' @ rest = queued tx @ partial_rest p | Gone \<Rightarrow> True"
    by (force simp: push_segments_def)
  show ?thesis
  proof (cases d)
    case (Complete n)
    then have "fr = send_pending m encode conn sink' (brcb_entry_sent rc i t) 1"
      using assms(4) d p Some by (simp add: flush_brcb_pending_def resume_partial_def)
    from send_pending_segments [OF assms(1) tx' this assms(5)] q Complete Some show ?thesis
      by (simp add: waiting_def)
  next
    case (Blocked n rest)
    with assms(4) d p Some q tx' show ?thesis
      by (simp add: flush_brcb_pending_def resume_partial_def waiting_def segments_of_def)
  next
    case Gone
    with assms(4,5) d p Some show ?thesis by (simp add: flush_brcb_pending_def resume_partial_def)
  qed
qed

theorem segments_conserved_witness:
  "\<exists>fr tx'. fr = flush_brcb_pending queue_mpsc two_pdus 1 [1 \<mapsto> ([[7]], 31)] (fst (enqueue_entry sample_brc 9 False False []))
       (Some \<lparr>partial_conn = 1, partial_entry = Some (entry_id_from_ms 5, 5), partial_rest = [[8], [9]]\<rparr>) \<and>
     fr_sink fr 1 = Some tx' \<and> fst tx' = [[7], [8], [9], [1, 0], [1, 1]]"
proof -
  let ?part = "Some \<lparr>partial_conn = 1, partial_entry = Some (entry_id_from_ms 5, 5), partial_rest = [[8], [9]]\<rparr>"
  define fr where "fr = flush_brcb_pending queue_mpsc two_pdus 1 [1 \<mapsto> ([[7]], 31)]
    (fst (enqueue_entry sample_brc 9 False False [])) ?part"
  have vals: "fr_end fr = PassDone" "fr_partial fr = None" "segments_of two_pdus (fr_out fr) = [[1, 0], [1, 1]]"
    by (simp_all add: fr_def enqueue_entry_def report_entry_new_def sample_brc_simps channel_simps
        segments_of_def word_less_nat_alt)
  have "partial_ok 1 ?part" by (simp add: partial_ok_def)
  from segments_conserved [OF queue_mpsc_laws _ this fr_def, of "([[7]], 31)"] vals
  obtain tx' where "fr_sink fr 1 = Some tx'" "fst tx' = [[7], [8], [9], [1, 0], [1, 1]]"
    by (auto simp: waiting_def)
  then show ?thesis by (intro exI [of _ fr] exI [of _ tx']) (simp add: fr_def)
qed



text \<open>Unless the receiver is gone, a pass hands over a queue up to what stays unsent.\<close>

definition pass_delivers ::
  "'tx mpsc \<Rightarrow> encoder \<Rightarrow> connection_id \<Rightarrow> 'tx sink \<Rightarrow> buffered_report_control \<Rightarrow> report_entry list \<Rightarrow> bool" where
  "pass_delivers m encode conn sink rc queue \<longleftrightarrow>
     (let fr = flush_brcb_pending m encode conn sink rc None
      in fr_end fr = PassGone \<or> delivered encode queue (fr_out fr) (unsent (fr_rc fr) (fr_partial fr)))"

text \<open>
  Resynchronising on a buffered EntryID of a disabled control block is accepted and
  leaves no gap: the next pass hands over exactly the entries buffered after that entry, and
  the entry and everything older are not sent again.
\<close>

theorem resync_sends_what_follows:
  assumes "brc_inv rc" and "\<not> rpt_ena (state rc)" and "x \<in> set (iter_entries (report_buffer rc))"
    and "\<not> entry_id_is_zero (entry_id x)"
  shows "\<exists>rc' older newer. apply_entry_id_write rc (entry_id x) = (rc', Inr ()) \<and> brc_inv rc' \<and>
    iter_entries (report_buffer rc) = older @ x # newer \<and>
    (\<forall>conn sink. pass_delivers m encode conn sink rc' newer)"
proof -
  note binv = brc_invD(1) [OF assms(1)]
  obtain older where es: "iter_entries (report_buffer rc) = older @ x # iter_from (report_buffer rc) (entry_id x)"
    and sk: "seek_to_after_entry_id (report_buffer rc) (entry_id x) =
      (case iter_from (report_buffer rc) (entry_id x) of [] \<Rightarrow> FoundLast | n # _ \<Rightarrow> FoundWithNext n)"
    by (rule mem.resume_after [OF binv assms(3)])
  obtain rc' where w: "apply_entry_id_write rc (entry_id x) = (rc', Inr ())"
    and inv': "brc_inv rc'" and pend: "pending_of rc' = iter_from (report_buffer rc) (entry_id x)"
  proof
    let ?rc = "fst (apply_entry_id_write rc (entry_id x))"
    show "apply_entry_id_write rc (entry_id x) = (?rc, Inr ())"
      using assms(2,4) sk by (simp add: apply_entry_id_write_cases split: seek_result.split list.splits)
    show "brc_inv ?rc" using assms sk
      by (simp add: apply_entry_id_write_cases brc_inv_def set_formatted_through_def split: list.splits)
    show "pending_of ?rc = iter_from (report_buffer rc) (entry_id x)" using assms(2,4) sk
      by (simp add: apply_entry_id_write_cases pending_of_def set_formatted_through_def iter_from_def split: list.splits)
  qed
  have "pass_delivers m encode conn sink rc' (iter_from (report_buffer rc) (entry_id x))" for conn sink
    using handles_delivered [OF flush_result(3) [OF inv' _ refl, of conn None m encode sink]] pend
    by (auto simp: pass_delivers_def Let_def partial_ok_def unsent_def [of rc' None])
  with w inv' es show ?thesis by blast
qed

definition resync_buffer :: report_buffer where
  "resync_buffer = fst (push (fst (push sample_buffer (sample_entry 5))) (sample_entry 6))"

lemma resync_buffer_inv: "buffer_inv resync_buffer"
  unfolding resync_buffer_def
  by (intro mem.inv_push sample_buffer_inv) (simp_all add: sample_simps sample_entry_def report_entry_new_def)

lemma resync_buffer_entries: "entries resync_buffer = [sample_entry 5, sample_entry 6]"
  by (simp add: resync_buffer_def sample_simps)

definition resync_brc :: buffered_report_control where
  "resync_brc = sample_brc\<lparr>report_buffer := resync_buffer, state := sample_state\<lparr>last_entry_id_ms := 6\<rparr>\<rparr>"

lemma resync_brc_inv: "brc_inv resync_brc"
  by (simp add: brc_inv_def resync_brc_def resync_buffer_inv resync_buffer_entries word_le_nat_alt)

lemma resync_brc_simps:
  "entries (report_buffer resync_brc) = [sample_entry 5, sample_entry 6]" "\<not> rpt_ena (state resync_brc)"
  by (simp_all add: resync_brc_def resync_buffer_entries sample_state_def state_from_brcb_def)

lemma entry_id_from_ms_is_zero [simp]: "entry_id_is_zero (entry_id_from_ms n) \<longleftrightarrow> n = 0"
  by (metis as_u64.simps as_u64_from_ms entry_id_from_ms_def entry_id_is_zero.simps
      u64_from_be_inject u64_from_be_zero8)

theorem resync_sends_what_follows_witness:
  "\<exists>rc'. apply_entry_id_write resync_brc (entry_id_from_ms 5) = (rc', Inr ()) \<and>
     pass_delivers queue_mpsc two_pdus 1 [1 \<mapsto> ([], 32)] rc' [sample_entry 6]"
proof -
  have "\<exists>rc' older newer. apply_entry_id_write resync_brc (entry_id (sample_entry 5)) = (rc', Inr ()) \<and>
    brc_inv rc' \<and> iter_entries (report_buffer resync_brc) = older @ sample_entry 5 # newer \<and>
    (\<forall>conn sink. pass_delivers queue_mpsc two_pdus conn sink rc' newer)"
    by (rule resync_sends_what_follows [OF resync_brc_inv])
       (simp_all add: resync_brc_simps iter_entries_def)
  then obtain rc' older newer where
    *: "apply_entry_id_write resync_brc (entry_id_from_ms 5) = (rc', Inr ())"
      "\<forall>conn sink. pass_delivers queue_mpsc two_pdus conn sink rc' newer"
    and es: "[sample_entry 5, sample_entry 6] = older @ sample_entry 5 # newer"
    by (auto simp: resync_brc_simps iter_entries_def)
  from es have "newer = [sample_entry 6]" by (cases older) (auto simp: Cons_eq_append_conv)
  with * show ?thesis by (intro exI [of _ rc']) simp
qed



text \<open>
  \<open>BrcbState::apply_entry_id_write\<close>, which takes the backend as an argument, and
  \<open>BufferedReportControl::apply_entry_id_write\<close>, which looks the entry up before it
  takes the state lock, leave the same state and give the same answer.
\<close>

theorem apply_entry_id_write_agrees:
  "state_apply_entry_id_write (state rc) i (report_buffer rc) =
     (state (fst (apply_entry_id_write rc i)), snd (apply_entry_id_write rc i))"
  by (simp add: state_apply_entry_id_write_def apply_entry_id_write_cases Let_def split: seek_result.split)

text \<open>
  A configuration write is refused without effect while reporting is enabled. Otherwise a value that
  is already set changes nothing at all; a new value purges the buffer, clears the record of what was
  sent and the formatted mark, counts one purge, and increments ConfRev exactly when the field is DatSet,
  skipping zero.
\<close>

theorem set_config_field_effect:
  assumes "set_config_field commit rc f = (rc', r)"
  shows "case r of
      Inl _ \<Rightarrow> rpt_ena (state rc) \<and> rc' = rc
    | Inr NoChange \<Rightarrow> \<not> rpt_ena (state rc) \<and> rc' = rc \<and> config_changed (mms_path rc) (state rc) f = None
    | Inr (RequiresPurge n) \<Rightarrow> \<not> rpt_ena (state rc) \<and> n = length (iter_entries (report_buffer rc)) \<and>
        iter_entries (report_buffer rc') = [] \<and> formatted_through (report_buffer rc') = 0 \<and>
        last_sent_entry_id (state rc') = entry_id_ZERO \<and> purges rc' = purges rc + 1 \<and>
        conf_rev (state rc') = (case f of
            CfDatSet _ \<Rightarrow> (if conf_rev (state rc) + 1 = 0 then 1 else conf_rev (state rc) + 1)
          | _ \<Rightarrow> conf_rev (state rc)) \<and>
        config_changed (mms_path rc) (state rc') f = None"
proof (cases "rpt_ena (state rc) \<or> config_changed (mms_path rc) (state rc) f = None")
  case True
  with assms show ?thesis by (auto simp: set_config_field_def split: if_splits)
next
  case False
  then obtain s where s: "config_changed (mms_path rc) (state rc) f = Some s" and ena: "\<not> rpt_ena (state rc)"
    by auto
  let ?s = "case f of CfDatSet _ \<Rightarrow> increase_conf_rev s | _ \<Rightarrow> s"
  have rc': "rc' = fst (run_purge_buf_procedure commit (rc\<lparr>state := ?s\<rparr>))"
    and r: "r = Inr (RequiresPurge (length (entries (report_buffer rc))))"
    using assms s ena by (auto simp: set_config_field_def Let_def case_prod_beta)
  have "conf_rev ?s = (case f of
      CfDatSet _ \<Rightarrow> (if conf_rev (state rc) + 1 = 0 then 1 else conf_rev (state rc) + 1)
    | _ \<Rightarrow> conf_rev (state rc)) \<and>
    (\<forall>b t. config_changed (mms_path rc) (?s\<lparr>last_sent_entry_id := b, last_sent_time_of_entry_ms := t\<rparr>) f = None)"
    using s by (cases f) (auto simp: increase_conf_rev_def Let_def split: if_splits)
  with r ena show ?thesis
    by (simp add: rc' iter_entries_def purge_def set_formatted_through_def)
qed

theorem set_config_field_effect_witness:
  "set_config_field 9 resync_brc (CfDatSet ''LLN0$other'') =
     (fst (set_config_field 9 resync_brc (CfDatSet ''LLN0$other'')), Inr (RequiresPurge 2)) \<and>
   iter_entries (report_buffer (fst (set_config_field 9 resync_brc (CfDatSet ''LLN0$other'')))) = [] \<and>
   conf_rev (state (fst (set_config_field 9 resync_brc (CfDatSet ''LLN0$other'')))) = 2"
proof -
  let ?r = "set_config_field 9 resync_brc (CfDatSet ''LLN0$other'')"
  have "snd ?r = Inr (RequiresPurge 2)"
    using resync_brc_simps
    by (simp add: set_config_field_def case_prod_beta Let_def)
       (simp add: resync_brc_def sample_brc_simps qualified_dat_set_def split_once_def
         qualified_object_reference_def starts_with_def)
  moreover have "conf_rev (state resync_brc) = 1"
    by (simp add: resync_brc_def sample_state_def state_from_brcb_def brcb_new_def)
  ultimately show ?thesis
    using set_config_field_effect [of 9 resync_brc "CfDatSet ''LLN0$other''" "fst ?r" "snd ?r"]
    by (cases ?r) simp
qed

text \<open>
  C35. Values stored before a purge do not outlive it. When other threads purge the buffer, last at commit
  number \<open>c\<close>, between the two sections of an enqueue of values committed
  no later than \<open>c\<close>, the enqueue stores nothing and reports that it did not.
\<close>

theorem purge_discards_racing_enqueue:
  assumes "oldest_commit \<le> c" and "c < c + 1"
    and "between = (\<lambda>rc. fst (run_purge_buf_procedure c (others rc)))"
  shows "snd (enqueue_stored_entry between rc oldest_commit t snap) = None \<and>
    snd (enqueue_window_entry between rc opened_at oldest_commit t snap) = None \<and>
    (stored_after_purge rc oldest_commit \<longrightarrow>
       iter_entries (report_buffer (fst (enqueue_stored_entry between rc oldest_commit t snap))) = [])"
proof -
  have "\<not> stored_after_purge (between rc') oldest_commit" for rc'
    using assms(1,2) by (simp add: assms(3) stored_after_purge_def)
  moreover have "iter_entries (report_buffer (between rc')) = []" for rc'
    by (simp add: assms(3) purge_def iter_entries_def)
  ultimately show ?thesis
    by (simp add: enqueue_stored_entry_def enqueue_window_entry_def window_purged_def Let_def split: prod.split)
qed

theorem purge_discards_racing_enqueue_witness:
  "(4 :: u64) \<le> 8 \<and> (8 :: u64) < 8 + 1 \<and> stored_after_purge resync_brc 4 \<and>
   iter_entries (report_buffer (fst (enqueue_stored_entry
     (\<lambda>rc. fst (run_purge_buf_procedure 8 rc)) resync_brc 4 7 (snapshot_new 1)))) = []"
proof -
  have "stored_after_purge resync_brc 4"
    by (simp add: stored_after_purge_def resync_brc_def sample_brc_simps)
  then show ?thesis
    using purge_discards_racing_enqueue [of 4 8 "\<lambda>rc. fst (run_purge_buf_procedure 8 rc)" "\<lambda>rc. rc"
        resync_brc 7 "snapshot_new 1" 0]
    by (simp add: word_le_nat_alt word_less_nat_alt)
qed

end
