(* ===== verification/Ber.thy ===== *)
theory Ber
  imports Prelude
begin

text \<open>
  The BER primitives every codec shares: the definite length field of crate
  \<open>iec61850-asn1\<close> (length.rs, depth.rs, error.rs), Rust strings as UTF-8 octets, and
  the integer contents of crates/iec61850-mms/src/mms/pdu/common.rs.
\<close>

section \<open>Length fields\<close>

datatype asn1_error = TruncatedInput | LengthTooLong u8

text \<open>\<open>encode_length\<close> of a release build: above 65535 only the low 16 bits are written.\<close>

definition encode_length :: "nat \<Rightarrow> bytes" where
  "encode_length len =
     (if len < 128 then [of_nat len]
      else if len \<le> 0xFF then [0x81, of_nat len]
      else [0x82, of_nat (len div 256), of_nat (len mod 256)])"

definition decode_length :: "bytes \<Rightarrow> asn1_error + nat \<times> nat" where
  "decode_length data =
     (case data of
        [] \<Rightarrow> Inl TruncatedInput
      | b0 # rest \<Rightarrow>
          if b0 < 0x80 then Inr (unat b0, 1)
          else if b0 = 0x81 then
            (case rest of [] \<Rightarrow> Inl TruncatedInput | b1 # _ \<Rightarrow> Inr (unat b1, 2))
          else if b0 = 0x82 then
            (case rest of
               b1 # b2 # _ \<Rightarrow> Inr (unat b1 * 256 + unat b2, 3)
             | _ \<Rightarrow> Inl TruncatedInput)
          else Inl (LengthTooLong b0))"

definition MAX_DATA_NESTING_DEPTH :: u8 where
  "MAX_DATA_NESTING_DEPTH = 32"

definition effective_nesting_cap :: "u8 \<Rightarrow> u8 option \<Rightarrow> u8" where
  "effective_nesting_cap local_cap negotiated =
     (case negotiated of
        Some n \<Rightarrow> (if n < local_cap then n else local_cap)
      | None \<Rightarrow> local_cap)"

definition length_size :: "nat \<Rightarrow> nat" where
  "length_size len = (if len < 128 then 1 else if len \<le> 0xff then 2 else 3)"

section \<open>Strings\<close>

text \<open>
  A \<open>String\<close> is its octets, here as the 8-bit characters of HOL; \<open>from_utf8\<close> accepts
  exactly the well-formed sequences of the Unicode standard (no overlong form, no surrogate,
  nothing above U+10FFFF).
\<close>

definition str_bytes :: "string \<Rightarrow> bytes" where
  "str_bytes s = map (\<lambda>c. of_nat (of_char c)) s"

definition utf8_cont :: "u8 \<Rightarrow> bool" where
  "utf8_cont b \<longleftrightarrow> 0x80 \<le> b \<and> b \<le> 0xBF"

fun utf8_valid :: "bytes \<Rightarrow> bool" where
  "utf8_valid [] = True"
| "utf8_valid (a # bs) =
     (if a < 0x80 then utf8_valid bs
      else case bs of
        [] \<Rightarrow> False
      | b # cs \<Rightarrow>
          if 0xC2 \<le> a \<and> a \<le> 0xDF then utf8_cont b \<and> utf8_valid cs
          else case cs of
            [] \<Rightarrow> False
          | c # ds \<Rightarrow>
              if 0xE0 \<le> a \<and> a \<le> 0xEF then
                utf8_cont b \<and> utf8_cont c \<and> (a = 0xE0 \<longrightarrow> 0xA0 \<le> b) \<and> (a = 0xED \<longrightarrow> b \<le> 0x9F) \<and>
                utf8_valid ds
              else case ds of
                [] \<Rightarrow> False
              | d # es \<Rightarrow>
                  0xF0 \<le> a \<and> a \<le> 0xF4 \<and> utf8_cont b \<and> utf8_cont c \<and> utf8_cont d \<and>
                  (a = 0xF0 \<longrightarrow> 0x90 \<le> b) \<and> (a = 0xF4 \<longrightarrow> b \<le> 0x8F) \<and> utf8_valid es)"

definition from_utf8 :: "bytes \<Rightarrow> string option" where
  "from_utf8 bs = (if utf8_valid bs then Some (map (\<lambda>b. char_of (unat b)) bs) else None)"

definition str_valid :: "string \<Rightarrow> bool" where
  "str_valid s \<longleftrightarrow> utf8_valid (str_bytes s)"

section \<open>Integer contents\<close>

definition decode_unsigned_int :: "bytes \<Rightarrow> u64 option" where
  "decode_unsigned_int data =
     (if data = [] \<or> length data > 8 then None
      else Some (foldl (\<lambda>v b. push_bit 8 v OR ucast b) 0 data))"

definition decode_signed_int :: "bytes \<Rightarrow> i64 option" where
  "decode_signed_int data =
     (case data of
        [] \<Rightarrow> None
      | b # _ \<Rightarrow>
          if length data > 8 then None
          else Some (foldl (\<lambda>v b. push_bit 8 v OR ucast b) (if b AND 0x80 \<noteq> 0 then -1 else 0) data))"

text \<open>The loops that drop redundant leading octets; at least one octet stays.\<close>

fun strip_unsigned :: "bytes \<Rightarrow> bytes" where
  "strip_unsigned (a # b # bs) =
     (if a = 0 \<and> b AND 0x80 = 0 then strip_unsigned (b # bs) else a # b # bs)"
| "strip_unsigned bs = bs"

fun strip_signed :: "bytes \<Rightarrow> bytes" where
  "strip_signed (a # b # bs) =
     (if (a = 0 \<and> b AND 0x80 = 0) \<or> (a = 0xff \<and> b AND 0x80 \<noteq> 0)
      then strip_signed (b # bs) else a # b # bs)"
| "strip_signed bs = bs"

definition encode_unsigned_int_minimal :: "u64 \<Rightarrow> bytes" where
  "encode_unsigned_int_minimal v = (if v = 0 then [0] else strip_unsigned (be_of_nat 8 (unat v)))"

definition encode_signed_int_minimal :: "i64 \<Rightarrow> bytes" where
  "encode_signed_int_minimal v = (if v = 0 then [0] else strip_signed (be_of_nat 8 (unat v)))"

section \<open>Length field lemmas\<close>

lemma length_encode_length [simp]: "length (encode_length n) = length_size n"
  by (simp add: encode_length_def length_size_def)

lemma length_size_pos [simp]: "0 < length_size n"
  by (simp add: length_size_def)

lemma decode_encode_length [simp]:
  "n \<le> 0xFFFF \<Longrightarrow> decode_length (encode_length n @ rest) = Inr (n, length_size n)"
  by (auto simp: decode_length_def encode_length_def length_size_def word_less_nat_alt unat_of_nat)

lemma decode_length_header:
  "decode_length data = Inr (n, h) \<Longrightarrow> 1 \<le> h \<and> h \<le> 3 \<and> h \<le> length data \<and> n \<le> 0xFFFF"
proof -
  assume a: "decode_length data = Inr (n, h)"
  have "unat b1 * 256 + unat b2 \<le> 0xFFFF" for b1 b2 :: u8
    using unat_u8_less [of b1] unat_u8_less [of b2] by linarith
  moreover have "unat (b :: u8) \<le> 0xFFFF" for b using unat_u8_less [of b] by linarith
  ultimately show ?thesis using a
    by (auto simp: decode_length_def split: list.splits if_splits)
qed

section \<open>String lemmas\<close>

lemma char_of_of_char_u8: "char_of (unat (of_nat (of_char c) :: u8)) = c"
  by (simp add: unat_of_nat)

lemma from_utf8_str_bytes [simp]: "from_utf8 (str_bytes s) = (if str_valid s then Some s else None)"
  by (simp add: from_utf8_def str_valid_def str_bytes_def comp_def char_of_of_char_u8)

lemma length_str_bytes [simp]: "length (str_bytes s) = length s"
  by (simp add: str_bytes_def)

section \<open>Integer lemmas\<close>

lemma shift_or_u8: "push_bit 8 (v :: 'a::len word) OR ucast (b :: u8) = v * 256 + ucast b"
proof -
  have "push_bit 8 v + ucast b = push_bit 8 v OR ucast b"
    by (rule disjunctive_add) (auto simp: bit_simps dest: bit_imp_le_length)
  moreover have "push_bit 8 v = v * 256" by (simp add: push_bit_eq_mult)
  ultimately show ?thesis by simp
qed

abbreviation fold_octets :: "'a::len word \<Rightarrow> bytes \<Rightarrow> 'a word" where
  "fold_octets \<equiv> foldl (\<lambda>v b. push_bit 8 v OR ucast b)"

lemma fold_octets_value:
  "fold_octets (v :: 'a::len word) bs = v * 256 ^ length bs + of_nat (nat_of_be bs)"
proof (induction bs rule: rev_induct)
  case (snoc b bs)
  have "(ucast b :: 'a word) = of_nat (unat b)" by simp
  with snoc show ?case by (simp add: shift_or_u8 algebra_simps)
qed simp

lemma fold_octets_u64: "fold_octets v (be_of_nat 8 (unat w)) = (w :: u64)"
proof -
  have z: "(256 :: u64) ^ 8 = 0" by simp
  have n: "nat_of_be (be_of_nat 8 (unat w)) = unat w"
    using unat_u64_less [of w] by (simp add: nat_of_be_of_nat)
  show ?thesis unfolding fold_octets_value length_be_of_nat z n by simp
qed

abbreviation sign_fill :: "bytes \<Rightarrow> u64" where
  "sign_fill bs \<equiv> (if hd bs AND 0x80 \<noteq> 0 then -1 else 0)"

lemma strip_unsigned_fold: "fold_octets 0 (strip_unsigned bs) = fold_octets 0 bs"
  by (induction bs rule: strip_unsigned.induct) simp_all

lemma strip_signed_fold:
  "fold_octets (sign_fill (strip_signed bs)) (strip_signed bs) = fold_octets (sign_fill bs) bs"
  unfolding shift_or_u8 by (induction bs rule: strip_signed.induct) auto

lemma strip_unsigned_length:
  "length (strip_unsigned bs) \<le> length bs \<and> (strip_unsigned bs = [] \<longleftrightarrow> bs = [])"
  by (induction bs rule: strip_unsigned.induct) auto

lemma strip_signed_length:
  "length (strip_signed bs) \<le> length bs \<and> (strip_signed bs = [] \<longleftrightarrow> bs = [])"
  by (induction bs rule: strip_signed.induct) auto

lemma be_of_nat_8_neq: "be_of_nat 8 x \<noteq> []"
  by (metis length_be_of_nat list.size(3) zero_neq_numeral)

lemma encode_int_length:
  "encode_unsigned_int_minimal v \<noteq> []" "length (encode_unsigned_int_minimal v) \<le> 8"
  "encode_signed_int_minimal v \<noteq> []" "length (encode_signed_int_minimal v) \<le> 8"
  using strip_unsigned_length [of "be_of_nat 8 (unat v)"] strip_signed_length [of "be_of_nat 8 (unat v)"]
  by (auto simp: encode_unsigned_int_minimal_def encode_signed_int_minimal_def be_of_nat_8_neq)

lemma decode_encode_unsigned [simp]: "decode_unsigned_int (encode_unsigned_int_minimal v) = Some v"
  using encode_int_length(1,2) [of v]
  by (auto simp: decode_unsigned_int_def encode_unsigned_int_minimal_def strip_unsigned_fold fold_octets_u64)

lemma decode_signed_fold:
  "bs \<noteq> [] \<Longrightarrow> length bs \<le> 8 \<Longrightarrow> decode_signed_int bs = Some (fold_octets (sign_fill bs) bs)"
  by (cases bs) (auto simp: decode_signed_int_def)

lemma decode_encode_signed [simp]: "decode_signed_int (encode_signed_int_minimal v) = Some v"
proof (cases "v = 0")
  case True
  then show ?thesis by (simp add: decode_signed_int_def encode_signed_int_minimal_def)
next
  case False
  then have e: "encode_signed_int_minimal v = strip_signed (be_of_nat 8 (unat v))"
    by (simp add: encode_signed_int_minimal_def)
  have "decode_signed_int (encode_signed_int_minimal v) =
      Some (fold_octets (sign_fill (be_of_nat 8 (unat v))) (be_of_nat 8 (unat v)))"
    using decode_signed_fold [OF encode_int_length(3,4), of v] unfolding e strip_signed_fold .
  then show ?thesis by (simp only: fold_octets_u64)
qed

lemma be_of_nat_Cons: "be_of_nat (Suc n) x = of_nat (x div 256 ^ n) # be_of_nat n x"
proof (induction n arbitrary: x)
  case (Suc n)
  have "be_of_nat (Suc (Suc n)) x = be_of_nat (Suc n) (x div 256) @ [of_nat x]" by simp
  also have "\<dots> = of_nat (x div 256 div 256 ^ n) # be_of_nat n (x div 256) @ [of_nat x]"
    unfolding Suc.IH [of "x div 256"] by simp
  finally show ?case by (simp add: div_mult2_eq [symmetric] del: of_nat_div)
qed simp

section \<open>Properties\<close>

text \<open>
  A length field that fits two octets reads back as itself, whatever follows it, and occupies the
  number of octets the size functions predict.
\<close>

theorem length_field_roundtrip:
  assumes "n \<le> 0xFFFF"
  shows "decode_length (encode_length n @ rest) = Inr (n, length_size n) \<and>
    length (encode_length n) = length_size n"
  using assms by simp

theorem length_field_roundtrip_witness:
  "(300 :: nat) \<le> 0xFFFF \<and> decode_length (encode_length 300 @ [9]) = Inr (300, 3)"
  using length_field_roundtrip [of 300 "[9]"] by (simp add: length_size_def)

text \<open>
  The shortest-form integer contents lose nothing: every signed and every unsigned 64-bit value decodes from
  its own encoding, which has between one and eight octets.
\<close>

theorem integer_contents_roundtrip:
  "decode_signed_int (encode_signed_int_minimal i) = Some i \<and>
   decode_unsigned_int (encode_unsigned_int_minimal u) = Some u \<and>
   length (encode_signed_int_minimal i) \<in> {1..8} \<and> length (encode_unsigned_int_minimal u) \<in> {1..8}"
  using encode_int_length(1,2) [of u] encode_int_length(3,4) [of i]
  by (auto simp: Suc_le_eq)

text \<open>
  C39. An unsigned value with its top bit set is written without the leading zero octet a BER INTEGER needs:
  its eight octets are those of a negative number.
\<close>

theorem unsigned_top_bit_reads_negative:
  assumes "2 ^ 63 \<le> unat v"
  shows "length (encode_unsigned_int_minimal v) = 8 \<and>
    decode_signed_int (encode_unsigned_int_minimal v) = Some v \<and> sint v < 0"
proof -
  let ?bs = "be_of_nat 8 (unat v)"
  have 8: "be_of_nat 8 x = of_nat (x div 256 ^ 7) # be_of_nat 7 x" for x
    using be_of_nat_Cons [of 7 x] by simp
  have "128 \<le> unat v div 256 ^ 7" using assms by (simp add: less_eq_div_iff_mult_less_eq)
  moreover have "unat v div 256 ^ 7 < 256" using unat_u64_less [of v] by (simp add: less_mult_imp_div_less)
  ultimately have "(of_nat (unat v div 256 ^ 7) :: u8) \<noteq> 0"
    by (simp add: word_unat_eq_iff unat_of_nat del: of_nat_div)
  then have s: "strip_unsigned ?bs = ?bs"
    unfolding 8 by (cases "be_of_nat 7 (unat v)") (simp_all del: of_nat_div)
  have e: "encode_unsigned_int_minimal v = ?bs"
    using assms s by (auto simp: encode_unsigned_int_minimal_def)
  have "decode_signed_int ?bs = Some v"
    using decode_signed_fold [of ?bs] be_of_nat_8_neq [of "unat v"] by (simp only: fold_octets_u64 length_be_of_nat simp_thms)
  moreover have "sint v < 0"
  proof -
    have "unat v div 2 ^ 63 = 1" using assms unat_u64_less [of v] by (intro div_nat_eqI) simp_all
    then have "bit (unat v) 63" by (simp add: bit_iff_odd)
    then have "bit (uint v) 63" by (simp only: uint_nat bit_of_nat_iff_bit)
    then show ?thesis by (simp add: sint_uint)
  qed
  ultimately show ?thesis by (simp add: e)
qed

theorem unsigned_top_bit_reads_negative_witness:
  "2 ^ 63 \<le> unat (2 ^ 63 + 1 :: u64) \<and>
   decode_signed_int (encode_unsigned_int_minimal (2 ^ 63 + 1)) = Some (2 ^ 63 + 1)"
  using unsigned_top_bit_reads_negative [of "2 ^ 63 + 1"] by simp

end
