(* ===== verification/Mms_Data.thy ===== *)
theory Mms_Data
  imports Ber
begin

text \<open>
  The \<open>Data\<close> CHOICE of MMS and what is built on it, from
  crates/iec61850-mms/src/mms/pdu/common.rs: \<open>MmsData\<close> with its encoder, size estimate and
  recursive decoder, \<open>DataAccessError\<close>, \<open>ObjectName\<close>, \<open>AccessResult\<close> and
  \<open>WriteOutcome\<close>. A buffer that is only appended to is the octets appended; floats are
  their bit patterns; \<open>MmsError\<close> has the constructors these functions return.
\<close>

section \<open>Errors\<close>

datatype mms_error =
    InvalidTag u8 u8
  | InvalidLength
  | TruncatedPdu
  | NestingLevelExceeded u8 u8
  | InvalidUtf8
  | IdentifierTooLong nat
  | UnknownObjectNameTag u8
  | UnknownDataTag u8
  | UnknownDataAccessError u8
  | InvalidUtcTimeLength nat
  | InvalidFloatSize nat
  | UnknownWriteOutcomeTag u8
  | InvalidPdu

fun mms_error_from :: "asn1_error \<Rightarrow> mms_error" where
  "mms_error_from TruncatedInput = TruncatedPdu"
| "mms_error_from (LengthTooLong b) = InvalidLength"

datatype data_access_error =
    ObjectInvalidated | HardwareFault | TemporarilyUnavailable | ObjectAccessDenied
  | ObjectUndefined | InvalidAddress | TypeUnsupported | TypeInconsistent
  | ObjectAttributeInconsistent | ObjectAccessUnsupported | ObjectNonExistent | ObjectValueInvalid

definition dae_list :: "data_access_error list" where
  "dae_list = [ObjectInvalidated, HardwareFault, TemporarilyUnavailable, ObjectAccessDenied,
     ObjectUndefined, InvalidAddress, TypeUnsupported, TypeInconsistent,
     ObjectAttributeInconsistent, ObjectAccessUnsupported, ObjectNonExistent, ObjectValueInvalid]"

definition dae_from_code :: "u8 \<Rightarrow> mms_error + data_access_error" where
  "dae_from_code code =
     (if code \<le> 11 then Inr (dae_list ! unat code) else Inl (UnknownDataAccessError code))"

fun dae_code :: "data_access_error \<Rightarrow> u8" where
  "dae_code ObjectInvalidated = 0"
| "dae_code HardwareFault = 1"
| "dae_code TemporarilyUnavailable = 2"
| "dae_code ObjectAccessDenied = 3"
| "dae_code ObjectUndefined = 4"
| "dae_code InvalidAddress = 5"
| "dae_code TypeUnsupported = 6"
| "dae_code TypeInconsistent = 7"
| "dae_code ObjectAttributeInconsistent = 8"
| "dae_code ObjectAccessUnsupported = 9"
| "dae_code ObjectNonExistent = 10"
| "dae_code ObjectValueInvalid = 11"

section \<open>Data\<close>

datatype mms_data =
    DataBoolean bool
  | DataArray "mms_data list"
  | DataStructure "mms_data list"
  | DataInteger i64
  | DataUnsigned u64
  | DataFloat32 u32
  | DataFloat64 u64
  | DataOctetString bytes
  | DataVisibleString string
  | DataGeneralizedTime string
  | DataBinaryTime bytes
  | DataBooleanArray u8 bytes
  | DataBitString u8 bytes
  | DataMmsString string
  | DataUtcTime array8

text \<open>Tag, length field, contents: what every branch of the encoders writes.\<close>

definition tlv :: "u8 \<Rightarrow> bytes \<Rightarrow> bytes" where
  "tlv tag contents = tag # encode_length (length contents) @ contents"

fun data_encode :: "mms_data \<Rightarrow> bytes" where
  "data_encode (DataBoolean v) = [0x83, 0x01, if v then 0xff else 0x00]"
| "data_encode (DataArray items) = tlv 0xa1 (concat (map data_encode items))"
| "data_encode (DataStructure items) = tlv 0xa2 (concat (map data_encode items))"
| "data_encode (DataInteger v) = tlv 0x85 (encode_signed_int_minimal v)"
| "data_encode (DataUnsigned v) = tlv 0x86 (encode_unsigned_int_minimal v)"
| "data_encode (DataFloat32 v) = [0x87, 0x05, 0x08] @ u32_to_be v"
| "data_encode (DataFloat64 v) = [0x87, 0x09, 0x0b] @ bytes8 (u64_to_be v)"
| "data_encode (DataOctetString bs) = tlv 0x89 bs"
| "data_encode (DataVisibleString s) = tlv 0x8a (str_bytes s)"
| "data_encode (DataGeneralizedTime s) = tlv 0x8b (str_bytes s)"
| "data_encode (DataBinaryTime bs) = tlv 0x8c bs"
| "data_encode (DataBitString padding bs) = tlv 0x84 (padding # bs)"
| "data_encode (DataBooleanArray padding bs) = tlv 0x8e (padding # bs)"
| "data_encode (DataMmsString s) = tlv 0x90 (str_bytes s)"
| "data_encode (DataUtcTime a) = [0x91, 0x08] @ bytes8 a"

fun estimated_encoded_size :: "mms_data \<Rightarrow> nat" where
  "estimated_encoded_size (DataBoolean _) = 3"
| "estimated_encoded_size (DataArray items) =
     (let inner = sum_list (map estimated_encoded_size items) in 1 + length_size inner + inner)"
| "estimated_encoded_size (DataStructure items) =
     (let inner = sum_list (map estimated_encoded_size items) in 1 + length_size inner + inner)"
| "estimated_encoded_size (DataInteger v) =
     (let n = length (encode_signed_int_minimal v) in 1 + length_size n + n)"
| "estimated_encoded_size (DataUnsigned v) =
     (let n = length (encode_unsigned_int_minimal v) in 1 + length_size n + n)"
| "estimated_encoded_size (DataFloat32 _) = 7"
| "estimated_encoded_size (DataFloat64 _) = 11"
| "estimated_encoded_size (DataOctetString b) = 1 + length_size (length b) + length b"
| "estimated_encoded_size (DataVisibleString s) = (let n = length s in 1 + length_size n + n)"
| "estimated_encoded_size (DataGeneralizedTime s) = (let n = length s in 1 + length_size n + n)"
| "estimated_encoded_size (DataBinaryTime b) = 1 + length_size (length b) + length b"
| "estimated_encoded_size (DataBitString _ d) = (let n = 1 + length d in 1 + length_size n + n)"
| "estimated_encoded_size (DataBooleanArray _ d) = (let n = 1 + length d in 1 + length_size n + n)"
| "estimated_encoded_size (DataMmsString s) = (let n = length s in 1 + length_size n + n)"
| "estimated_encoded_size (DataUtcTime _) = 10"

section \<open>Decoding\<close>

definition decode_bit_string :: "bytes \<Rightarrow> mms_error + u8 \<times> bytes" where
  "decode_bit_string val =
     (case val of
        [] \<Rightarrow> Inl InvalidLength
      | padding # d \<Rightarrow>
          if padding > 7 \<or> (d = [] \<and> padding \<noteq> 0) then Inl InvalidPdu else Inr (padding, d))"

definition decode_floating_point :: "bytes \<Rightarrow> mms_error + mms_data" where
  "decode_floating_point val =
     (if length val = 5 then Inr (DataFloat32 (from_be (tl val)))
      else if length val = 9 then Inr (DataFloat64 (from_be (tl val)))
      else Inl (InvalidFloatSize (length val)))"

definition array8_of :: "bytes \<Rightarrow> array8" where
  "array8_of bs = Array8 (bs ! 0) (bs ! 1) (bs ! 2) (bs ! 3) (bs ! 4) (bs ! 5) (bs ! 6) (bs ! 7)"

definition decode_string :: "(string \<Rightarrow> mms_data) \<Rightarrow> bytes \<Rightarrow> mms_error + mms_data" where
  "decode_string mk val = (case from_utf8 val of None \<Rightarrow> Inl InvalidUtf8 | Some s \<Rightarrow> Inr (mk s))"

text \<open>The branches of the \<open>match\<close> on the tag whose contents are primitive.\<close>

definition decode_primitive :: "u8 \<Rightarrow> bytes \<Rightarrow> mms_error + mms_data" where
  "decode_primitive tag val =
     (if tag = 0x83 then (if val = [] then Inl InvalidLength else Inr (DataBoolean (hd val \<noteq> 0)))
      else if tag = 0x85 then
        (case decode_signed_int val of None \<Rightarrow> Inl InvalidLength | Some v \<Rightarrow> Inr (DataInteger v))
      else if tag = 0x86 then
        (case decode_unsigned_int val of None \<Rightarrow> Inl InvalidLength | Some v \<Rightarrow> Inr (DataUnsigned v))
      else if tag = 0x87 then decode_floating_point val
      else if tag = 0x89 then Inr (DataOctetString val)
      else if tag = 0x8a then decode_string DataVisibleString val
      else if tag = 0x8b then decode_string DataGeneralizedTime val
      else if tag = 0x8c then
        (if length val \<noteq> 4 \<and> length val \<noteq> 6 then Inl InvalidLength else Inr (DataBinaryTime val))
      else if tag = 0x84 then
        (case decode_bit_string val of Inl e \<Rightarrow> Inl e | Inr (p, d) \<Rightarrow> Inr (DataBitString p d))
      else if tag = 0x8e then
        (case decode_bit_string val of Inl e \<Rightarrow> Inl e | Inr (p, d) \<Rightarrow> Inr (DataBooleanArray p d))
      else if tag = 0x90 then decode_string DataMmsString val
      else if tag = 0x91 then
        (if length val \<noteq> 8 then Inl (InvalidUtcTimeLength (length val)) else Inr (DataUtcTime (array8_of val)))
      else Inl (UnknownDataTag tag))"

text \<open>
  The header every decoder reads first: the tag, the contents and the number of octets
  consumed, or the error for a truncated or overlong field.
\<close>

definition decode_tlv :: "bytes \<Rightarrow> mms_error + u8 \<times> bytes \<times> nat" where
  "decode_tlv data =
     (case data of
        [] \<Rightarrow> Inl TruncatedPdu
      | tag # rest \<Rightarrow>
          (case decode_length rest of
             Inl e \<Rightarrow> Inl (mms_error_from e)
           | Inr (len, hdr) \<Rightarrow>
               if 1 + hdr + len > length data then Inl TruncatedPdu
               else Inr (tag, take len (drop hdr rest), 1 + hdr + len)))"

lemma decode_tlv_bounds:
  assumes "decode_tlv data = Inr (tag, val, consumed)"
  shows "length val + 2 \<le> consumed" and "consumed \<le> length data"
  using assms decode_length_header
  by (fastforce simp: decode_tlv_def split: list.splits sum.splits prod.splits if_splits)+

lemma decode_tlv_shrinks:
  "decode_tlv data = Inr (tag, val, consumed) \<Longrightarrow> Suc (2 * length val) < 2 * length data"
  using decode_tlv_bounds [of data tag val consumed] by linarith

function decode_recursive :: "bytes \<Rightarrow> u8 \<Rightarrow> u8 \<Rightarrow> mms_error + mms_data \<times> nat"
  and decode_seq_of_mmsdata :: "bytes \<Rightarrow> u8 \<Rightarrow> u8 \<Rightarrow> mms_error + mms_data list" where
  "decode_recursive data depth max_depth =
     (if depth > max_depth then Inl (NestingLevelExceeded max_depth depth)
      else case decode_tlv data of
        Inl e \<Rightarrow> Inl e
      | Inr (tag, val, consumed) \<Rightarrow>
          if tag = 0xa1 \<or> tag = 0xa2 then
            (case decode_seq_of_mmsdata val (depth + 1) max_depth of
               Inl e \<Rightarrow> Inl e
             | Inr items \<Rightarrow> Inr ((if tag = 0xa1 then DataArray items else DataStructure items), consumed))
          else (case decode_primitive tag val of Inl e \<Rightarrow> Inl e | Inr v \<Rightarrow> Inr (v, consumed)))"
| "decode_seq_of_mmsdata data depth max_depth =
     (if data = [] then Inr []
      else case decode_recursive data depth max_depth of
        Inl e \<Rightarrow> Inl e
      | Inr (item, consumed) \<Rightarrow>
          (case decode_seq_of_mmsdata (drop consumed data) depth max_depth of
             Inl e \<Rightarrow> Inl e
           | Inr items \<Rightarrow> Inr (item # items)))"
  by pat_completeness auto

lemma decode_recursive_consumes:
  assumes "decode_recursive_decode_seq_of_mmsdata_dom (Inl (data, depth, max_depth))"
    and "decode_recursive data depth max_depth = Inr (v, consumed)"
  shows "2 \<le> consumed" and "consumed \<le> length data"
  using assms decode_tlv_bounds
  by (fastforce simp: decode_recursive.psimps split: if_splits sum.splits prod.splits)+

termination decode_recursive
proof (relation "measure (\<lambda>x. case x of Inl (d, _, _) \<Rightarrow> 2 * length d | Inr (d, _, _) \<Rightarrow> 2 * length d + 1)")
qed (auto dest: decode_tlv_shrinks decode_recursive_consumes)

declare decode_recursive.simps [simp del] decode_seq_of_mmsdata.simps [simp del]

definition data_decode :: "bytes \<Rightarrow> mms_error + mms_data \<times> nat" where
  "data_decode data = decode_recursive data 0 MAX_DATA_NESTING_DEPTH"

definition data_decode_with_max :: "bytes \<Rightarrow> u8 \<Rightarrow> mms_error + mms_data \<times> nat" where
  "data_decode_with_max data max_depth = decode_recursive data 0 max_depth"

section \<open>Object names\<close>

datatype object_name = VmdSpecific string | DomainSpecific string string | AaSpecific string

definition MAX_IDENTIFIER_LEN :: nat where
  "MAX_IDENTIFIER_LEN = 64"

fun name_encode :: "object_name \<Rightarrow> bytes" where
  "name_encode (VmdSpecific name) = tlv 0x80 (str_bytes name)"
| "name_encode (DomainSpecific domain item) =
     [0xa1] @ encode_length (2 + length domain + 2 + length item) @
     [0x1a] @ encode_length (length domain) @ str_bytes domain @
     [0x1a] @ encode_length (length item) @ str_bytes item"
| "name_encode (AaSpecific name) = tlv 0x82 (str_bytes name)"

text \<open>An identifier of at most 64 octets; the length is checked before the encoding.\<close>

definition decode_identifier :: "bytes \<Rightarrow> mms_error + string" where
  "decode_identifier val =
     (if length val > MAX_IDENTIFIER_LEN then Inl (IdentifierTooLong (length val))
      else case from_utf8 val of None \<Rightarrow> Inl InvalidUtf8 | Some s \<Rightarrow> Inr s)"

text \<open>One of the two VisibleStrings of a domain-specific name, and what follows it.\<close>

definition decode_visible :: "bytes \<Rightarrow> mms_error + string \<times> bytes" where
  "decode_visible val =
     (case val of
        [] \<Rightarrow> Inl TruncatedPdu
      | t # rest \<Rightarrow>
          if t \<noteq> 0x1a then Inl (InvalidTag 0x1a t)
          else (case decode_length rest of
             Inl e \<Rightarrow> Inl (mms_error_from e)
           | Inr (len, hdr) \<Rightarrow>
               if 1 + hdr + len > length val then Inl TruncatedPdu
               else (case decode_identifier (take len (drop hdr rest)) of
                  Inl e \<Rightarrow> Inl e
                | Inr s \<Rightarrow> Inr (s, drop (hdr + len) rest))))"

definition decode_domain_specific :: "bytes \<Rightarrow> mms_error + string \<times> string" where
  "decode_domain_specific val =
     (if length val < 2 then Inl TruncatedPdu
      else case decode_visible val of
        Inl e \<Rightarrow> Inl e
      | Inr (domain, rest) \<Rightarrow>
          (case decode_visible rest of
             Inl e \<Rightarrow> Inl e
           | Inr (item, _) \<Rightarrow> Inr (domain, item)))"

definition name_decode :: "bytes \<Rightarrow> mms_error + object_name \<times> nat" where
  "name_decode data =
     (case decode_tlv data of
        Inl e \<Rightarrow> Inl e
      | Inr (tag, val, consumed) \<Rightarrow>
          if tag = 0x80 then
            (case decode_identifier val of Inl e \<Rightarrow> Inl e | Inr s \<Rightarrow> Inr (VmdSpecific s, consumed))
          else if tag = 0xa1 then
            (case decode_domain_specific val of
               Inl e \<Rightarrow> Inl e | Inr (d, i) \<Rightarrow> Inr (DomainSpecific d i, consumed))
          else if tag = 0x82 then
            (case decode_identifier val of Inl e \<Rightarrow> Inl e | Inr s \<Rightarrow> Inr (AaSpecific s, consumed))
          else Inl (UnknownObjectNameTag tag))"

definition ber_len_size :: "nat \<Rightarrow> nat" where
  "ber_len_size len = (if len < 128 then 1 else if len \<le> 0xff then 2 else 3)"

fun name_encoded_len :: "object_name \<Rightarrow> nat" where
  "name_encoded_len (VmdSpecific name) = 1 + ber_len_size (length name) + length name"
| "name_encoded_len (DomainSpecific domain item) =
     (let inner = 2 + length domain + 2 + length item in 1 + ber_len_size inner + inner)"
| "name_encoded_len (AaSpecific name) = 1 + ber_len_size (length name) + length name"

section \<open>Results\<close>

datatype access_result = Success mms_data | Failure data_access_error

fun access_result_encode :: "access_result \<Rightarrow> bytes" where
  "access_result_encode (Success d) = data_encode d"
| "access_result_encode (Failure e) = [0x80, 0x01, dae_code e]"

fun access_result_size :: "access_result \<Rightarrow> nat" where
  "access_result_size (Success d) = estimated_encoded_size d"
| "access_result_size (Failure _) = 3"

definition access_result_decode :: "bytes \<Rightarrow> mms_error + access_result \<times> nat" where
  "access_result_decode data =
     (case data of
        [] \<Rightarrow> Inl TruncatedPdu
      | tag # _ \<Rightarrow>
          if tag = 0x80 then
            (case decode_tlv data of
               Inl e \<Rightarrow> Inl e
             | Inr (_, val, consumed) \<Rightarrow>
                 if val = [] then Inl InvalidLength
                 else (case dae_from_code (hd val) of
                    Inl e \<Rightarrow> Inl e | Inr err \<Rightarrow> Inr (Failure err, consumed)))
          else (case data_decode data of
             Inl e \<Rightarrow> Inl e | Inr (d, consumed) \<Rightarrow> Inr (Success d, consumed)))"

datatype write_outcome = WriteSuccess | WriteFailure data_access_error

fun write_outcome_encode :: "write_outcome \<Rightarrow> bytes" where
  "write_outcome_encode WriteSuccess = [0x81, 0x00]"
| "write_outcome_encode (WriteFailure e) = [0x80, 0x01, dae_code e]"

definition write_outcome_decode :: "bytes \<Rightarrow> mms_error + write_outcome \<times> nat" where
  "write_outcome_decode data =
     (case data of
        [] \<Rightarrow> Inl TruncatedPdu
      | tag # rest \<Rightarrow>
          if tag = 0x81 then
            (case decode_length rest of
               Inl e \<Rightarrow> Inl (mms_error_from e)
             | Inr (len, hdr) \<Rightarrow> Inr (WriteSuccess, 1 + hdr + len))
          else if tag = 0x80 then
            (case decode_tlv data of
               Inl e \<Rightarrow> Inl e
             | Inr (_, val, consumed) \<Rightarrow>
                 if val = [] \<or> length val > 4 then Inl InvalidLength
                 else (case dae_from_code (hd val) of
                    Inl e \<Rightarrow> Inl e | Inr err \<Rightarrow> Inr (WriteFailure err, consumed)))
          else Inl (UnknownWriteOutcomeTag tag))"

section \<open>Lemmas of the codec\<close>

lemma length_tlv [simp]: "length (tlv tag c) = 1 + length_size (length c) + length c"
  by (simp add: tlv_def)

lemma decode_tlv_tlv:
  "length c \<le> 0xFFFF \<Longrightarrow> decode_tlv (tlv tag c @ rest) = Inr (tag, c, length (tlv tag c))"
  by (simp add: decode_tlv_def tlv_def)

lemma array8_of_bytes8 [simp]: "array8_of (bytes8 a) = a"
  by (cases a) (simp add: array8_of_def)

text \<open>The fixed-size branches are TLVs as well.\<close>

lemma data_encode_fixed:
  "data_encode (DataBoolean v) = tlv 0x83 [if v then 0xff else 0x00]"
  "data_encode (DataFloat32 f) = tlv 0x87 (0x08 # u32_to_be f)"
  "data_encode (DataFloat64 d) = tlv 0x87 (0x0b # bytes8 (u64_to_be d))"
  "data_encode (DataUtcTime a) = tlv 0x91 (bytes8 a)"
  by (simp_all add: tlv_def encode_length_def)

text \<open>
  The values the wire can carry: strings are UTF-8 (every Rust string is), a binary time
  has four or six octets, a bit string a sound padding count, and no contents are longer
  than a two-octet length field can say.
\<close>

fun data_ok :: "mms_data \<Rightarrow> bool" where
  "data_ok (DataBoolean _) = True"
| "data_ok (DataArray items) \<longleftrightarrow> (\<forall>v \<in> set items. data_ok v) \<and> length (concat (map data_encode items)) \<le> 0xFFFF"
| "data_ok (DataStructure items) \<longleftrightarrow> (\<forall>v \<in> set items. data_ok v) \<and> length (concat (map data_encode items)) \<le> 0xFFFF"
| "data_ok (DataInteger _) = True"
| "data_ok (DataUnsigned _) = True"
| "data_ok (DataFloat32 _) = True"
| "data_ok (DataFloat64 _) = True"
| "data_ok (DataOctetString b) \<longleftrightarrow> length b \<le> 0xFFFF"
| "data_ok (DataVisibleString s) \<longleftrightarrow> str_valid s \<and> length s \<le> 0xFFFF"
| "data_ok (DataGeneralizedTime s) \<longleftrightarrow> str_valid s \<and> length s \<le> 0xFFFF"
| "data_ok (DataBinaryTime b) \<longleftrightarrow> length b = 4 \<or> length b = 6"
| "data_ok (DataBitString p d) \<longleftrightarrow> p \<le> 7 \<and> (d = [] \<longrightarrow> p = 0) \<and> length d < 0xFFFF"
| "data_ok (DataBooleanArray p d) \<longleftrightarrow> p \<le> 7 \<and> (d = [] \<longrightarrow> p = 0) \<and> length d < 0xFFFF"
| "data_ok (DataMmsString s) \<longleftrightarrow> str_valid s \<and> length s \<le> 0xFFFF"
| "data_ok (DataUtcTime _) = True"

text \<open>How many levels of array or structure enclose the innermost value.\<close>

fun data_depth :: "mms_data \<Rightarrow> nat" where
  "data_depth (DataArray items) = foldr (\<lambda>v. max (Suc (data_depth v))) items 0"
| "data_depth (DataStructure items) = foldr (\<lambda>v. max (Suc (data_depth v))) items 0"
| "data_depth _ = 0"

fun is_constructed :: "mms_data \<Rightarrow> bool" where
  "is_constructed (DataArray _) = True"
| "is_constructed (DataStructure _) = True"
| "is_constructed _ = False"

lemma from_be_bytes8: "(from_be (bytes8 (u64_to_be d)) :: u64) = d"
  using u64_from_to_be [of d] by (simp add: u64_from_be_def)

lemma decode_bit_string_ok:
  "p \<le> 7 \<Longrightarrow> (d = [] \<longrightarrow> p = 0) \<Longrightarrow> decode_bit_string (p # d) = Inr (p, d)"
  by (auto simp: decode_bit_string_def not_less)

lemma primitive_tlv:
  assumes "data_ok v" and "\<not> is_constructed v"
  obtains tag c where "data_encode v = tlv tag c" and "length c \<le> 0xFFFF" and "tag \<noteq> 0xa1"
    and "tag \<noteq> 0xa2" and "decode_primitive tag c = Inr v"
proof -
  have int: "length (encode_signed_int_minimal i) \<le> 0xFFFF" "length (encode_unsigned_int_minimal i) \<le> 0xFFFF" for i
    using encode_int_length(2,4) [of i] by linarith+
  show thesis
    using assms that int
    by (cases v) (force simp: data_encode_fixed decode_primitive_def decode_floating_point_def
      decode_string_def from_be_bytes8 decode_bit_string_ok simp del: data_encode.simps(1,6,7,15))+
qed

lemma foldr_max_le:
  "d + foldr (\<lambda>v. max (Suc (f v))) xs 0 \<le> m \<longleftrightarrow> d \<le> m \<and> (\<forall>v \<in> set xs. Suc d + f v \<le> m)"
  by (induction xs) auto

definition decode_outcome :: "mms_data \<Rightarrow> u8 \<Rightarrow> u8 \<Rightarrow> mms_error + mms_data \<times> nat" where
  "decode_outcome v depth max_depth =
     (if unat depth + data_depth v \<le> unat max_depth then Inr (v, length (data_encode v))
      else Inl (NestingLevelExceeded max_depth (max_depth + 1)))"

lemma decode_seq_encoded:
  assumes "\<And>v rest. v \<in> set items \<Longrightarrow>
      decode_recursive (data_encode v @ rest) depth max_depth = decode_outcome v depth max_depth"
    and "\<And>v. v \<in> set items \<Longrightarrow> data_encode v \<noteq> []"
  shows "decode_seq_of_mmsdata (concat (map data_encode items)) depth max_depth =
    (if \<forall>v \<in> set items. unat depth + data_depth v \<le> unat max_depth then Inr items
     else Inl (NestingLevelExceeded max_depth (max_depth + 1)))"
  using assms
proof (induction items)
  case Nil
  show ?case by (simp add: decode_seq_of_mmsdata.simps)
next
  case (Cons v vs)
  then show ?case
    by (subst decode_seq_of_mmsdata.simps) (simp add: decode_outcome_def)
qed

lemma data_encode_nonempty: "data_encode v \<noteq> []"
  by (cases v) (simp_all add: tlv_def)

lemma succ_depth: "unat (d :: u8) < 255 \<Longrightarrow> unat (d + 1) = Suc (unat d)"
  by (simp add: unat_word_ariths)

lemma too_deep:
  assumes "max_depth < depth" and "unat depth \<le> Suc (unat max_depth)" and "unat (max_depth :: u8) < 255"
  shows "depth = max_depth + 1"
  using assms by (intro word_unat_eq_iff [THEN iffD2]) (simp add: succ_depth word_less_nat_alt)

lemma decode_constructed:
  assumes "tag = 0xa1 \<or> tag = 0xa2" and "length (concat (map data_encode items)) \<le> 0xFFFF"
    and "depth \<le> max_depth" and "unat max_depth < 255"
    and "\<And>v rest. v \<in> set items \<Longrightarrow>
      decode_recursive (data_encode v @ rest) (depth + 1) max_depth = decode_outcome v (depth + 1) max_depth"
  shows "decode_recursive (tlv tag (concat (map data_encode items)) @ rest) depth max_depth =
    (if unat depth + foldr (\<lambda>v. max (Suc (data_depth v))) items 0 \<le> unat max_depth
     then Inr ((if tag = 0xa1 then DataArray items else DataStructure items),
       length (tlv tag (concat (map data_encode items))))
     else Inl (NestingLevelExceeded max_depth (max_depth + 1)))"
proof -
  have d: "unat (depth + 1) = Suc (unat depth)"
    using assms(3,4) by (intro succ_depth) (simp add: word_le_nat_alt)
  have "decode_seq_of_mmsdata (concat (map data_encode items)) (depth + 1) max_depth =
    (if \<forall>v \<in> set items. unat (depth + 1) + data_depth v \<le> unat max_depth then Inr items
     else Inl (NestingLevelExceeded max_depth (max_depth + 1)))"
    using assms(5) data_encode_nonempty by (rule decode_seq_encoded)
  then show ?thesis
    using assms(1-3)
    by (subst decode_recursive.simps)
       (auto simp: decode_tlv_tlv d foldr_max_le word_le_nat_alt word_less_nat_alt)
qed

lemma decode_too_deep:
  assumes "max_depth < depth" and "unat depth \<le> Suc (unat max_depth)" and "unat max_depth < 255"
  shows "decode_recursive data depth max_depth = Inl (NestingLevelExceeded max_depth (max_depth + 1))"
  using assms(1) too_deep [OF assms] by (simp add: decode_recursive.simps)

lemma decode_primitive_encoded:
  assumes "data_ok v" and "\<not> is_constructed v"
    and "unat depth \<le> Suc (unat max_depth)" and "unat max_depth < 255"
  shows "decode_recursive (data_encode v @ rest) depth max_depth = decode_outcome v depth max_depth"
proof (cases "max_depth < depth")
  case True
  then show ?thesis using decode_too_deep [OF True assms(3,4)]
    by (simp add: decode_outcome_def word_less_nat_alt)
next
  case False
  obtain tag c where "data_encode v = tlv tag c" "length c \<le> 0xFFFF" "tag \<noteq> 0xa1" "tag \<noteq> 0xa2"
    "decode_primitive tag c = Inr v"
    using assms(1,2) by (rule primitive_tlv)
  moreover have "data_depth v = 0" using assms(2) by (cases v) simp_all
  ultimately show ?thesis using False
    by (subst decode_recursive.simps)
       (simp add: decode_tlv_tlv decode_outcome_def word_less_nat_alt)
qed

lemma decode_encoded:
  assumes "data_ok v" and "unat depth \<le> Suc (unat max_depth)" and "unat max_depth < 255"
  shows "decode_recursive (data_encode v @ rest) depth max_depth = decode_outcome v depth max_depth"
  using assms
proof (induction v arbitrary: depth rest)
  case (DataArray items)
  show ?case
  proof (cases "max_depth < depth")
    case True
    then show ?thesis using decode_too_deep [OF True] DataArray.prems
      by (simp add: decode_outcome_def word_less_nat_alt)
  next
    case False
    then have "unat (depth + 1) \<le> Suc (unat max_depth)"
      using DataArray.prems succ_depth [of depth] by (simp add: word_less_nat_alt)
    with False DataArray show ?thesis
      by (simp add: decode_constructed decode_outcome_def not_less)
  qed
next
  case (DataStructure items)
  show ?case
  proof (cases "max_depth < depth")
    case True
    then show ?thesis using decode_too_deep [OF True] DataStructure.prems
      by (simp add: decode_outcome_def word_less_nat_alt)
  next
    case False
    then have "unat (depth + 1) \<le> Suc (unat max_depth)"
      using DataStructure.prems succ_depth [of depth] by (simp add: word_less_nat_alt)
    with False DataStructure show ?thesis
      by (simp add: decode_constructed decode_outcome_def not_less)
  qed
qed (rule decode_primitive_encoded; simp)+

lemma estimated_size_exact: "estimated_encoded_size v = length (data_encode v)"
proof (induction v)
  case (DataArray items)
  then show ?case by (simp add: length_concat comp_def Let_def cong: map_cong)
next
  case (DataStructure items)
  then show ?case by (simp add: length_concat comp_def Let_def cong: map_cong)
qed (simp_all add: Let_def)

lemma decode_sound:
  "decode_recursive data depth max_depth = Inr (v, c) \<Longrightarrow> unat max_depth < 255 \<Longrightarrow>
     2 \<le> c \<and> c \<le> length data \<and> unat depth + data_depth v \<le> unat max_depth"
  "decode_seq_of_mmsdata data depth max_depth = Inr vs \<Longrightarrow> unat max_depth < 255 \<Longrightarrow>
     \<forall>v \<in> set vs. unat depth + data_depth v \<le> unat max_depth"
proof (induction data depth max_depth and data depth max_depth
    arbitrary: v c and vs rule: decode_recursive_decode_seq_of_mmsdata.induct)
  case (1 data depth max_depth)
  from "1.prems" obtain tag val where d: "depth \<le> max_depth" and t: "decode_tlv data = Inr (tag, val, c)"
    by (auto simp: decode_recursive.simps split: if_splits sum.splits)
  note b = decode_tlv_bounds [OF t]
  have succ: "unat (depth + 1) = Suc (unat depth)"
    using d "1.prems"(2) by (intro succ_depth) (simp add: word_le_nat_alt)
  show ?case
  proof (cases "tag = 0xa1 \<or> tag = 0xa2")
    case True
    with "1.prems" d t obtain items where s: "decode_seq_of_mmsdata val (depth + 1) max_depth = Inr items"
      and v: "v = (if tag = 0xa1 then DataArray items else DataStructure items)"
      by (auto simp: decode_recursive.simps not_less split: if_splits sum.splits)
    have "\<forall>v \<in> set items. Suc (unat depth) + data_depth v \<le> unat max_depth"
      using "1.IH" [OF _ t refl refl True s "1.prems"(2)] d by (simp add: succ not_less)
    with b d show ?thesis by (auto simp: v foldr_max_le word_le_nat_alt)
  next
    case False
    have "data_depth v = 0"
      using "1.prems"(1) d t False
      by (auto simp: decode_recursive.simps decode_primitive_def decode_floating_point_def decode_string_def
          not_less split: if_splits sum.splits option.splits)
    with b d show ?thesis by (simp add: word_le_nat_alt)
  qed
next
  case (2 data depth max_depth)
  show ?case
  proof (cases "data = []")
    case True
    with "2.prems" show ?thesis by (simp add: decode_seq_of_mmsdata.simps)
  next
    case False
    with "2.prems"(1) obtain item n items where r: "decode_recursive data depth max_depth = Inr (item, n)"
      and s: "decode_seq_of_mmsdata (drop n data) depth max_depth = Inr items" and vs: "vs = item # items"
      by (subst (asm) decode_seq_of_mmsdata.simps) (auto split: sum.splits)
    with "2.IH"(1) [OF False r "2.prems"(2)] "2.IH"(2) [OF False r refl s "2.prems"(2)] show ?thesis
      by simp
  qed
qed

section \<open>Properties\<close>

text \<open>
  C30. Encoding and decoding a value are inverse. A value the wire can carry, with any octets behind it,
  decodes to itself and consumes exactly its encoding, however it nests arrays and structures, as long as
  the nesting stays within the negotiated depth; a deeper value is refused with \<open>NestingLevelExceeded\<close>
  at the first level past the limit.
\<close>

theorem data_roundtrip:
  assumes "data_ok v" and "unat max_depth < 255"
  shows "data_decode_with_max (data_encode v @ rest) max_depth =
    (if data_depth v \<le> unat max_depth then Inr (v, length (data_encode v))
     else Inl (NestingLevelExceeded max_depth (max_depth + 1)))"
  using decode_encoded [OF assms(1) _ assms(2), of 0] by (simp add: data_decode_with_max_def decode_outcome_def)

definition sample_data :: mms_data where
  "sample_data = DataStructure [DataBoolean True, DataArray [DataBoolean False, DataOctetString [1, 2]],
     DataVisibleString ''ab'', DataBitString 6 [0x40, 0]]"

theorem data_roundtrip_witness:
  "data_decode_with_max (data_encode sample_data @ [7]) 5 = Inr (sample_data, 23) \<and>
   data_decode_with_max (data_encode sample_data @ [7]) 1 = Inl (NestingLevelExceeded 1 2)"
proof -
  have len: "length (data_encode sample_data) = 23"
    by (simp add: sample_data_def length_size_def)
  have ok: "data_ok sample_data"
    by (simp add: sample_data_def length_size_def str_valid_def str_bytes_def)
  have "data_depth sample_data = 2" by (simp add: sample_data_def)
  with len ok show ?thesis
    using data_roundtrip [OF ok, of 5 "[7]"] data_roundtrip [OF ok, of 1 "[7]"] by simp
qed

text \<open>
  C37. Decoding is safe on arbitrary octets: a value comes back only with a count of consumed octets within
  the input, at least two, and its nesting never exceeds the cap, so neither the recursion nor the caller's
  position in the buffer can run away.
\<close>

theorem data_decode_bounded:
  assumes "data_decode_with_max data max_depth = Inr (v, consumed)" and "unat max_depth < 255"
  shows "2 \<le> consumed \<and> consumed \<le> length data \<and> data_depth v \<le> unat max_depth"
  using decode_sound(1) [of data 0 max_depth v consumed] assms by (simp add: data_decode_with_max_def)

theorem data_decode_bounded_witness:
  "data_decode_with_max [0xa1, 3, 0x83, 1, 9, 5] 4 = Inr (DataArray [DataBoolean True], 5) \<and>
   2 \<le> (5 :: nat) \<and> 5 \<le> length [0xa1, 3, 0x83, 1, 9, 5 :: u8] \<and> data_depth (DataArray [DataBoolean True]) \<le> unat (4 :: u8)"
proof -
  have r: "data_decode_with_max [0xa1, 3, 0x83, 1, 9, 5] 4 = Inr (DataArray [DataBoolean True], 5)"
    by (simp add: data_decode_with_max_def decode_recursive.simps decode_seq_of_mmsdata.simps
        decode_tlv_def decode_length_def decode_primitive_def)
  from r data_decode_bounded [OF r] show ?thesis by simp
qed

text \<open>
  The size estimate the dispatcher checks against the negotiated PDU size is exact: for every value and
  every access result it is the number of octets the encoder writes.
\<close>

theorem estimated_size_is_exact:
  "access_result_size r = length (access_result_encode r)"
  by (cases r) (simp_all add: estimated_size_exact)

lemma unat_dae_code: "dae_from_code (dae_code e) = Inr e"
  by (cases e) (simp_all add: dae_from_code_def dae_list_def)

text \<open>
  The outcomes of a read and of a write survive the wire: each access result that carries a decodable
  value or an error code, and each write outcome, decodes to itself and consumes its own encoding.
\<close>

theorem outcomes_roundtrip:
  assumes "case r of Success d \<Rightarrow> data_ok d \<and> data_depth d \<le> 32 | Failure _ \<Rightarrow> True"
  shows "access_result_decode (access_result_encode r @ rest) = Inr (r, length (access_result_encode r)) \<and>
    write_outcome_decode (write_outcome_encode w @ rest) = Inr (w, length (write_outcome_encode w))"
proof
  show "access_result_decode (access_result_encode r @ rest) = Inr (r, length (access_result_encode r))"
  proof (cases r)
    case (Success d)
    obtain tag bs where e: "data_encode d = tag # bs" and t: "tag \<noteq> 0x80"
      by (cases d) (simp_all add: tlv_def)
    have "data_decode (data_encode d @ rest) = Inr (d, length (data_encode d))"
      using decode_encoded [of d 0 32 rest] assms Success
      by (simp add: data_decode_def MAX_DATA_NESTING_DEPTH_def decode_outcome_def)
    with Success e t show ?thesis by (simp add: access_result_decode_def)
  next
    case (Failure e)
    then show ?thesis
      by (simp add: access_result_decode_def decode_tlv_def decode_length_def unat_dae_code)
  qed
  show "write_outcome_decode (write_outcome_encode w @ rest) = Inr (w, length (write_outcome_encode w))"
    by (cases w) (simp_all add: write_outcome_decode_def decode_tlv_def decode_length_def unat_dae_code)
qed

theorem outcomes_roundtrip_witness:
  "access_result_decode (access_result_encode (Success (DataOctetString [1])) @ [3]) =
     Inr (Success (DataOctetString [1]), 3) \<and>
   write_outcome_decode (write_outcome_encode (WriteFailure ObjectAccessDenied) @ [3]) =
     Inr (WriteFailure ObjectAccessDenied, 3)"
  using outcomes_roundtrip [of "Success (DataOctetString [1])" "[3]" "WriteFailure ObjectAccessDenied"]
  by (simp add: length_size_def)



fun name_ok :: "object_name \<Rightarrow> bool" where
  "name_ok (VmdSpecific s) \<longleftrightarrow> str_valid s \<and> length s \<le> MAX_IDENTIFIER_LEN"
| "name_ok (DomainSpecific d i) \<longleftrightarrow> str_valid d \<and> length d \<le> MAX_IDENTIFIER_LEN \<and>
     str_valid i \<and> length i \<le> MAX_IDENTIFIER_LEN"
| "name_ok (AaSpecific s) \<longleftrightarrow> str_valid s \<and> length s \<le> MAX_IDENTIFIER_LEN"

lemma decode_identifier_ok:
  "str_valid s \<Longrightarrow> length s \<le> MAX_IDENTIFIER_LEN \<Longrightarrow> decode_identifier (str_bytes s) = Inr s"
  by (simp add: decode_identifier_def)

lemma decode_visible_ok:
  "str_valid s \<Longrightarrow> length s \<le> MAX_IDENTIFIER_LEN \<Longrightarrow>
   decode_visible ([0x1a] @ encode_length (length s) @ str_bytes s @ rest) = Inr (s, rest)"
  by (simp add: decode_visible_def decode_identifier_ok MAX_IDENTIFIER_LEN_def)

lemma domain_specific_tlv:
  assumes "length d \<le> MAX_IDENTIFIER_LEN" and "length i \<le> MAX_IDENTIFIER_LEN"
  shows "name_encode (DomainSpecific d i) = tlv 0xa1 ([0x1a] @ encode_length (length d) @ str_bytes d @
     [0x1a] @ encode_length (length i) @ str_bytes i)"
  using assms by (simp add: tlv_def length_size_def MAX_IDENTIFIER_LEN_def)

text \<open>
  Every object name of the three scopes whose identifiers are within the 64 octets of ISO 9506 encodes
  to octets that decode to the same name, and \<open>encoded_len\<close> is their number.
\<close>

theorem object_name_roundtrip:
  assumes "name_ok n"
  shows "name_decode (name_encode n @ rest) = Inr (n, length (name_encode n)) \<and>
    name_encoded_len n = length (name_encode n)"
proof (cases n)
  case (DomainSpecific d i)
  let ?c = "[0x1a] @ encode_length (length d) @ str_bytes d @ [0x1a] @ encode_length (length i) @ str_bytes i"
  from assms DomainSpecific have ok: "str_valid d" "length d \<le> MAX_IDENTIFIER_LEN" "str_valid i"
    "length i \<le> MAX_IDENTIFIER_LEN" by simp_all
  have e: "name_encode n = tlv 0xa1 ?c" using DomainSpecific ok domain_specific_tlv by simp
  have len: "length ?c = 2 + length d + 2 + length i"
    using ok by (simp add: length_size_def MAX_IDENTIFIER_LEN_def)
  have "decode_domain_specific ?c = Inr (d, i)"
    using decode_visible_ok [OF ok(1,2)] decode_visible_ok [OF ok(3,4), of "[]"] len
    by (simp add: decode_domain_specific_def)
  moreover have "decode_tlv (tlv 0xa1 ?c @ rest) = Inr (0xa1, ?c, length (tlv 0xa1 ?c))"
    using len ok by (intro decode_tlv_tlv) (simp add: MAX_IDENTIFIER_LEN_def)
  moreover have "name_encoded_len n = length (tlv 0xa1 ?c)"
    unfolding length_tlv len by (simp add: DomainSpecific ber_len_size_def length_size_def Let_def)
  ultimately show ?thesis unfolding e name_decode_def by (simp add: DomainSpecific del: length_tlv)
qed (use assms in \<open>simp_all add: name_decode_def decode_tlv_tlv decode_identifier_ok ber_len_size_def
  length_size_def MAX_IDENTIFIER_LEN_def\<close>)

theorem object_name_roundtrip_witness:
  "name_decode (name_encode (DomainSpecific ''IED'' ''LLN0$BR$b'') @ [1]) = Inr (DomainSpecific ''IED'' ''LLN0$BR$b'', 18)"
  using object_name_roundtrip [of "DomainSpecific ''IED'' ''LLN0$BR$b''" "[1]"]
  by (simp add: str_valid_def str_bytes_def MAX_IDENTIFIER_LEN_def length_size_def)

end
