(* ===== verification/Binary_Time.thy ===== *)
theory Binary_Time
  imports Prelude
begin

text \<open>
  The six-octet BINARY-TIME of crates/iec61850-mms/src/mms/binary_time.rs: milliseconds of
  the day and days since 1984-01-01, from and to milliseconds since 1970-01-01. All
  arithmetic is on 64-bit words as in the source.
\<close>

definition MS_PER_DAY :: u64 where
  "MS_PER_DAY = 86400000"

definition DAYS_1970_TO_1984 :: u64 where
  "DAYS_1970_TO_1984 = 5113"

definition EPOCH_1984_MS :: u64 where
  "EPOCH_1984_MS = DAYS_1970_TO_1984 * MS_PER_DAY"

definition MAX_BINARY_TIME6_MS :: u64 where
  "MAX_BINARY_TIME6_MS = EPOCH_1984_MS + 0xFFFF * MS_PER_DAY + (MS_PER_DAY - 1)"

definition binary_time6_from_epoch_ms :: "u64 \<Rightarrow> bytes" where
  "binary_time6_from_epoch_ms epoch_ms =
     (let clamped = min (max epoch_ms EPOCH_1984_MS) MAX_BINARY_TIME6_MS;
          since_1984 = clamped - EPOCH_1984_MS;
          days_since_1984 = ucast (since_1984 div MS_PER_DAY) :: u16;
          ms_of_day = ucast (since_1984 mod MS_PER_DAY) :: u32
      in u32_to_be ms_of_day @ u16_to_be days_since_1984)"

definition epoch_ms_from_binary_time6 :: "bytes \<Rightarrow> u64" where
  "epoch_ms_from_binary_time6 b =
     (let ms_of_day = ucast (from_be (take 4 b) :: u32);
          days_since_1984 = ucast (from_be (drop 4 b) :: u16)
      in EPOCH_1984_MS + days_since_1984 * MS_PER_DAY + ms_of_day)"

lemmas binary_time_consts = EPOCH_1984_MS_def MAX_BINARY_TIME6_MS_def MS_PER_DAY_def DAYS_1970_TO_1984_def

lemma split_days:
  fixes d :: u64
  assumes "unat d < 65536 * 86400000"
  shows "unat (ucast (d div MS_PER_DAY) :: u16) = unat d div 86400000"
    and "unat (ucast (d mod MS_PER_DAY) :: u32) = unat d mod 86400000"
proof -
  have "unat d div 86400000 < 65536" using assms by (simp add: less_mult_imp_div_less)
  then show "unat (ucast (d div MS_PER_DAY) :: u16) = unat d div 86400000"
    by (simp add: MS_PER_DAY_def unsigned_ucast_eq unat_div take_bit_nat_eq_self)
  have "unat d mod 86400000 < 86400000" by simp
  then have "unat d mod 86400000 < 2 ^ 32" by (rule less_trans) simp
  then show "unat (ucast (d mod MS_PER_DAY) :: u32) = unat d mod 86400000"
    by (simp add: MS_PER_DAY_def unsigned_ucast_eq unat_mod take_bit_nat_eq_self)
qed

lemma ucast_eq_of_nat: "unat w = n \<Longrightarrow> ucast w = of_nat n"
  by auto

lemma join_days:
  fixes d :: u64
  assumes "unat d < 65536 * 86400000"
  shows "ucast (ucast (d div MS_PER_DAY) :: u16) * MS_PER_DAY + ucast (ucast (d mod MS_PER_DAY) :: u32) = d"
proof -
  have q: "(ucast (ucast (d div MS_PER_DAY) :: u16) :: u64) = of_nat (unat d div 86400000)"
    by (rule ucast_eq_of_nat) (rule split_days(1) [OF assms])
  have r: "(ucast (ucast (d mod MS_PER_DAY) :: u32) :: u64) = of_nat (unat d mod 86400000)"
    by (rule ucast_eq_of_nat) (rule split_days(2) [OF assms])
  have "of_nat (unat d div 86400000) * MS_PER_DAY + of_nat (unat d mod 86400000) =
      (of_nat (unat d div 86400000 * 86400000 + unat d mod 86400000) :: u64)"
    by (simp only: MS_PER_DAY_def of_nat_add of_nat_mult of_nat_numeral)
  then show ?thesis unfolding q r by (simp only: div_mult_mod_eq) simp
qed

text \<open>
  Encoding an instant as six octets and decoding it gives the instant clamped to what the type can
  express: exactly itself between 1984-01-01 and the last millisecond of day 65535, the nearest of the two
  bounds outside.
\<close>

theorem binary_time6_roundtrip:
  "epoch_ms_from_binary_time6 (binary_time6_from_epoch_ms ms) =
     min (max ms EPOCH_1984_MS) MAX_BINARY_TIME6_MS"
proof -
  let ?c = "min (max ms EPOCH_1984_MS) MAX_BINARY_TIME6_MS"
  have bound: "EPOCH_1984_MS \<le> ?c" "?c \<le> MAX_BINARY_TIME6_MS"
    by (auto simp: binary_time_consts)
  then have "unat (?c - EPOCH_1984_MS) \<le> unat MAX_BINARY_TIME6_MS - unat EPOCH_1984_MS"
    by (simp add: unat_diff word_le_nat_alt)
  also have "\<dots> < 65536 * 86400000" by (simp add: binary_time_consts)
  finally have less: "unat (?c - EPOCH_1984_MS) < 65536 * 86400000" .
  have "epoch_ms_from_binary_time6 (binary_time6_from_epoch_ms ms) = EPOCH_1984_MS + (?c - EPOCH_1984_MS)"
    using join_days [OF less]
    by (simp add: epoch_ms_from_binary_time6_def binary_time6_from_epoch_ms_def Let_def add.assoc)
  then show ?thesis by simp
qed

end
