(* ===== verification/Brcb_Service.thy ===== *)
theory Brcb_Service
  imports Brcb_Delivery Mms_Data Binary_Time
begin

text \<open>
  SetBRCBValues and GetBRCBValues of crates/iec61850-server/src/reporting/service.rs with the
  parts of reporting/engine.rs they call, the reservation timer, and the release of a control
  block when its connection ends.

  The engine is a record of its maps from the MMS path of a control block. The members of
  a data set stay abstract (a type parameter); the inverted indexes the engine derives from
  the bound data sets, and the unbuffered control blocks, are not part of the record. Poisoned
  mutexes do not occur.
\<close>

section \<open>Fields and values\<close>

datatype rcb_field =
    FRptId | FRptEna | FResv | FDatSet | FConfRev | FOptFlds | FBufTm | FSqNum | FTrgOps | FIntgPd
  | FGi | FOwner | FEntryId | FPurgeBuf | FTimeOfEntry | FResvTms | FUnknown string

definition field_from_name :: "string \<Rightarrow> rcb_field" where
  "field_from_name name =
     (if name = ''RptID'' then FRptId else if name = ''RptEna'' then FRptEna
      else if name = ''Resv'' then FResv else if name = ''DatSet'' then FDatSet
      else if name = ''ConfRev'' then FConfRev else if name = ''OptFlds'' then FOptFlds
      else if name = ''BufTm'' then FBufTm else if name = ''SqNum'' then FSqNum
      else if name = ''TrgOps'' then FTrgOps else if name = ''IntgPd'' then FIntgPd
      else if name = ''GI'' then FGi else if name = ''Owner'' then FOwner
      else if name = ''EntryID'' then FEntryId else if name = ''PurgeBuf'' then FPurgeBuf
      else if name = ''TimeofEntry'' then FTimeOfEntry else if name = ''ResvTms'' then FResvTms
      else FUnknown name)"

fun field_as_str :: "rcb_field \<Rightarrow> string" where
  "field_as_str FRptId = ''RptID''"
| "field_as_str FRptEna = ''RptEna''"
| "field_as_str FResv = ''Resv''"
| "field_as_str FDatSet = ''DatSet''"
| "field_as_str FConfRev = ''ConfRev''"
| "field_as_str FOptFlds = ''OptFlds''"
| "field_as_str FBufTm = ''BufTm''"
| "field_as_str FSqNum = ''SqNum''"
| "field_as_str FTrgOps = ''TrgOps''"
| "field_as_str FIntgPd = ''IntgPd''"
| "field_as_str FGi = ''GI''"
| "field_as_str FOwner = ''Owner''"
| "field_as_str FEntryId = ''EntryID''"
| "field_as_str FPurgeBuf = ''PurgeBuf''"
| "field_as_str FTimeOfEntry = ''TimeofEntry''"
| "field_as_str FResvTms = ''ResvTms''"
| "field_as_str (FUnknown s) = s"

datatype rcb_write_value =
    WvBool bool | WvUnsigned u32 | WvInteger i64 | WvVisibleString string
  | WvBitString bytes | WvOctetString bytes

section \<open>The engine\<close>

record 'ds reporting_engine =
  brcbs :: "string \<rightharpoonup> buffered_report_control"
  peers :: "connection_id \<rightharpoonup> ip_addr"
  dataset_registry :: "string \<times> string \<rightharpoonup> 'ds"
  brcb_datasets :: "string \<rightharpoonup> 'ds"
  brcb_buftm_pending :: "string set"
  brcb_next_intg :: "string \<rightharpoonup> nat"
  partial_reports :: "string \<rightharpoonup> partial_report"
  brcb_blocked :: "string set"

abbreviation put_brcb :: "'ds reporting_engine \<Rightarrow> string \<Rightarrow> buffered_report_control \<Rightarrow> 'ds reporting_engine" where
  "put_brcb eng path rc \<equiv> eng\<lparr>brcbs := (brcbs eng)(path \<mapsto> rc)\<rparr>"

definition dataset_key :: "string \<Rightarrow> string \<Rightarrow> (string \<times> string) option" where
  "dataset_key path ds =
     (if ds = [] then None
      else case split_once CHR ''/'' ds of
        Some (domain, item) \<Rightarrow> Some (domain, item)
      | None \<Rightarrow> (case split_once CHR ''/'' path of None \<Rightarrow> None | Some (domain, _) \<Rightarrow> Some (domain, ds)))"

definition resolve_dataset :: "'ds reporting_engine \<Rightarrow> string \<Rightarrow> string \<Rightarrow> 'ds option" where
  "resolve_dataset eng path ds =
     (case dataset_key path ds of None \<Rightarrow> None | Some key \<Rightarrow> dataset_registry eng key)"

definition rebind_brcb_dataset :: "'ds reporting_engine \<Rightarrow> string \<Rightarrow> 'ds option \<Rightarrow> 'ds reporting_engine" where
  "rebind_brcb_dataset eng path ds =
     (case brcbs eng path of
        None \<Rightarrow> eng
      | Some _ \<Rightarrow> eng\<lparr>brcb_datasets := (brcb_datasets eng)(path := ds),
                      brcb_buftm_pending := brcb_buftm_pending eng - {path}\<rparr>)"

definition forget_partial :: "'ds reporting_engine \<Rightarrow> string \<Rightarrow> 'ds reporting_engine" where
  "forget_partial eng path =
     (case partial_reports eng path of
        None \<Rightarrow> eng
      | Some _ \<Rightarrow>
          let eng = eng\<lparr>partial_reports := (partial_reports eng)(path := None)\<rparr>
          in case brcbs eng path of
               None \<Rightarrow> eng
             | Some rc \<Rightarrow> put_brcb eng path (rewind_formatted rc))"

text \<open>Timer deadlines are milliseconds here; \<open>now\<close> is the clock reading of the call.\<close>

definition refresh_brcb_integrity_period :: "nat \<Rightarrow> 'ds reporting_engine \<Rightarrow> string \<Rightarrow> 'ds reporting_engine" where
  "refresh_brcb_integrity_period now eng path =
     (let eng = forget_partial eng path
      in case brcbs eng path of
           None \<Rightarrow> eng
         | Some rc \<Rightarrow>
             let pd = intg_pd_ms (state rc)
             in eng\<lparr>brcb_next_intg := (brcb_next_intg eng)(path :=
                      (if pd > 0 then Some (now + unat pd) else None))\<rparr>)"

section \<open>Reservation\<close>

definition claim_brcb_locked ::
  "buffered_report_control \<Rightarrow> connection_id \<Rightarrow> ip_addr option \<Rightarrow>
   buffered_report_control \<times> (data_access_error + unit)" where
  "claim_brcb_locked rc writer writer_ip =
     (let s = state rc; reserved = (resv_tms s \<noteq> NotReserved)
      in if client_conn_id s = Some writer then (rc, Inr ())
      else if client_conn_id s \<noteq> None \<and> (rpt_ena s \<or> reserved) then (rc, Inl ObjectAccessDenied)
      else if \<not> reserved then (rc, Inr ())
      else let own = (case resv_tms s of
          Preconfigured \<Rightarrow> (case client_reservation (brcb_cfg rc) of Some ip \<Rightarrow> Some ip | None \<Rightarrow> owner s)
        | _ \<Rightarrow> owner s)
      in if own \<noteq> None \<and> own \<noteq> writer_ip then (rc, Inl ObjectAccessDenied)
      else (rc\<lparr>state := s\<lparr>client_conn_id := Some writer,
                 owner := (case own of Some ip \<Rightarrow> Some ip | None \<Rightarrow> writer_ip),
                 reservation_timeout := None\<rparr>\<rparr>, Inr ()))"

definition set_brcb_resv_tms ::
  "buffered_report_control \<Rightarrow> rcb_write_value \<Rightarrow> connection_id \<Rightarrow> ip_addr option \<Rightarrow>
   buffered_report_control \<times> (data_access_error + unit)" where
  "set_brcb_resv_tms rc v conn writer_ip =
     (case (case v of WvInteger i \<Rightarrow> Some (sint i) | WvUnsigned u \<Rightarrow> Some (uint u) | _ \<Rightarrow> None) of
        None \<Rightarrow> (rc, Inl TypeInconsistent)
      | Some wide \<Rightarrow>
          if \<not> (0 \<le> wide \<and> wide \<le> 32767) then (rc, Inl ObjectValueInvalid)
          else (case claim_brcb_locked rc conn writer_ip of
             (rc, Inl e) \<Rightarrow> (rc, Inl e)
           | (rc, Inr _) \<Rightarrow>
               if rpt_ena (state rc) then (rc, Inl TemporarilyUnavailable)
               else let new = resv_from_wire (of_int wide); s = (state rc)\<lparr>resv_tms := new\<rparr>
               in (rc\<lparr>state := (case new of
                     WithTimeout _ \<Rightarrow> s\<lparr>client_conn_id := Some conn, owner := writer_ip,
                                         reservation_timeout := None\<rparr>
                   | NotReserved \<Rightarrow>
                       let s = s\<lparr>reservation_timeout := None\<rparr>
                       in if \<not> rpt_ena s then s\<lparr>client_conn_id := None, owner := None\<rparr> else s
                   | Preconfigured \<Rightarrow> s)\<rparr>, Inr ())))"

section \<open>Field writes\<close>

definition set_brcb_rpt_ena ::
  "buffered_report_control \<Rightarrow> rcb_write_value \<Rightarrow> connection_id \<Rightarrow> ip_addr option \<Rightarrow>
   buffered_report_control \<times> (data_access_error + bool)" where
  "set_brcb_rpt_ena rc value conn writer_ip =
     (case value of
        WvBool v \<Rightarrow>
          (case claim_brcb_locked rc conn writer_ip of
             (rc, Inl e) \<Rightarrow> (rc, Inl e)
           | (rc, Inr _) \<Rightarrow>
               let s = state rc
               in if v then
                 (if dat_set s = [] then (rc, Inl TemporarilyUnavailable)
                  else let s = s\<lparr>client_conn_id := Some conn\<rparr>;
                    s = (if resv_tms s = NotReserved then s\<lparr>owner := writer_ip\<rparr> else s)
                  in if rpt_ena s then (rc\<lparr>state := s\<rparr>, Inr False)
                  else let s = s\<lparr>rpt_ena := True, overflow_on_enable := True\<rparr>;
                    s = (if transmit_anchor s = AnchorNone then s\<lparr>transmit_anchor := FromHead\<rparr> else s)
                  in (rc\<lparr>state := s\<rparr>, Inr True))
               else
                 (if \<not> rpt_ena s then (rc, Inr False)
                  else let s = s\<lparr>rpt_ena := False\<rparr>;
                    s = (if resv_tms s = NotReserved then s\<lparr>owner := None\<rparr> else s)
                  in (rc\<lparr>state := s\<rparr>, Inr False)))
      | _ \<Rightarrow> (rc, Inl TypeInconsistent))"

definition set_brcb_gi ::
  "buffered_report_control \<Rightarrow> rcb_write_value \<Rightarrow> buffered_report_control \<times> (data_access_error + unit)" where
  "set_brcb_gi rc value =
     (case value of
        WvBool v \<Rightarrow>
          if \<not> v then (rc, Inr ())
          else if \<not> rpt_ena (state rc) then (rc\<lparr>state := (state rc)\<lparr>gi := False\<rparr>\<rparr>, Inl TemporarilyUnavailable)
          else if \<not> trg_contains (trg_ops (state rc)) TRG_GI then (rc, Inr ())
          else (rc\<lparr>state := (state rc)\<lparr>gi := True\<rparr>\<rparr>, Inr ())
      | _ \<Rightarrow> (rc, Inl TypeInconsistent))"

fun brcb_write_error_code :: "brcb_write_error \<Rightarrow> data_access_error" where
  "brcb_write_error_code WriteReportingEnabled = TemporarilyUnavailable"

definition set_config ::
  "u64 \<Rightarrow> buffered_report_control \<Rightarrow> brcb_config_field \<Rightarrow> buffered_report_control \<times> (data_access_error + unit)" where
  "set_config commit rc f =
     (case set_config_field commit rc f of
        (rc, Inr _) \<Rightarrow> (rc, Inr ())
      | (rc, Inl e) \<Rightarrow> (rc, Inl (brcb_write_error_code e)))"

definition set_brcb_purge_buf ::
  "u64 \<Rightarrow> buffered_report_control \<Rightarrow> rcb_write_value \<Rightarrow> buffered_report_control \<times> (data_access_error + unit)" where
  "set_brcb_purge_buf commit rc value =
     (case value of
        WvBool v \<Rightarrow>
          (case handle_purge_buf_write commit rc v of
             (rc, Inr _) \<Rightarrow> (rc, Inr ())
           | (rc, Inl e) \<Rightarrow> (rc, Inl (brcb_write_error_code e)))
      | _ \<Rightarrow> (rc, Inl TypeInconsistent))"

definition set_brcb_config_string ::
  "u64 \<Rightarrow> buffered_report_control \<Rightarrow> rcb_write_value \<Rightarrow> buffered_report_control \<times> (data_access_error + unit)" where
  "set_brcb_config_string commit rc value =
     (case value of
        WvVisibleString s \<Rightarrow>
          if length s > 129 then (rc, Inl ObjectValueInvalid) else set_config commit rc (CfRptId s)
      | _ \<Rightarrow> (rc, Inl TypeInconsistent))"

definition set_brcb_unsigned32 ::
  "u64 \<Rightarrow> buffered_report_control \<Rightarrow> rcb_write_value \<Rightarrow> (u32 \<Rightarrow> brcb_config_field) \<Rightarrow>
   buffered_report_control \<times> (data_access_error + unit)" where
  "set_brcb_unsigned32 commit rc value mk =
     (case value of
        WvUnsigned v \<Rightarrow> set_config commit rc (mk v)
      | _ \<Rightarrow> (rc, Inl TypeInconsistent))"

definition set_brcb_trg_ops ::
  "u64 \<Rightarrow> buffered_report_control \<Rightarrow> rcb_write_value \<Rightarrow> buffered_report_control \<times> (data_access_error + unit)" where
  "set_brcb_trg_ops commit rc value =
     (case value of
        WvBitString bs \<Rightarrow>
          (case trg_from_ber bs of
             Some ops \<Rightarrow> set_config commit rc (CfTrgOps ops)
           | None \<Rightarrow> (rc, Inl TypeInconsistent))
      | _ \<Rightarrow> (rc, Inl TypeInconsistent))"

definition set_brcb_opt_flds ::
  "buffered_report_control \<Rightarrow> rcb_write_value \<Rightarrow> buffered_report_control \<times> (data_access_error + unit)" where
  "set_brcb_opt_flds rc value =
     (case value of
        WvBitString bs \<Rightarrow>
          (case opt_from_ber bs of
             Some flds \<Rightarrow>
               if rpt_ena (state rc) then (rc, Inl TemporarilyUnavailable)
               else (rc\<lparr>state := (state rc)\<lparr>opt_flds := flds\<rparr>\<rparr>, Inr ())
           | None \<Rightarrow> (rc, Inl TypeInconsistent))
      | _ \<Rightarrow> (rc, Inl TypeInconsistent))"

definition set_brcb_entry_id ::
  "buffered_report_control \<Rightarrow> rcb_write_value \<Rightarrow> buffered_report_control \<times> (data_access_error + unit)" where
  "set_brcb_entry_id rc value =
     (case value of
        WvOctetString bs \<Rightarrow>
          if length bs \<noteq> 8 then (rc, Inl ObjectValueInvalid)
          else (case apply_entry_id_write rc (EntryId (array8_of bs)) of
             (rc, Inr _) \<Rightarrow> (rc, Inr ())
           | (rc, Inl InvalidEntryId) \<Rightarrow> (rc, Inl ObjectValueInvalid)
           | (rc, Inl ReportingEnabled) \<Rightarrow> (rc, Inl TemporarilyUnavailable))
      | _ \<Rightarrow> (rc, Inl TypeInconsistent))"

definition set_brcb_dat_set ::
  "u64 \<Rightarrow> 'ds reporting_engine \<Rightarrow> string \<Rightarrow> buffered_report_control \<Rightarrow> rcb_write_value \<Rightarrow>
   'ds reporting_engine \<times> (data_access_error + unit)" where
  "set_brcb_dat_set commit eng path rc value =
     (case value of
        WvVisibleString name \<Rightarrow>
          let s = qualified_dat_set (mms_path rc) name
          in if length s > 129 then (eng, Inl ObjectValueInvalid)
          else if rpt_ena (state rc) then (eng, Inl TemporarilyUnavailable)
          else if dat_set (state rc) = s then (eng, Inr ())
          else let item = (case split_once CHR ''/'' s of None \<Rightarrow> s | Some (_, item) \<Rightarrow> item)
          in if starts_with item CHR ''@'' then (eng, Inl ObjectValueInvalid)
          else let ds = resolve_dataset eng (mms_path rc) s
          in if s \<noteq> [] \<and> ds = None then (eng, Inl ObjectValueInvalid)
          else (case set_config_field commit rc (CfDatSet s) of
             (rc', Inr NoChange) \<Rightarrow> (put_brcb eng path rc', Inr ())
           | (rc', Inr _) \<Rightarrow>
               (rebind_brcb_dataset (put_brcb eng path rc') (mms_path rc) (if s = [] then None else ds), Inr ())
           | (rc', Inl e) \<Rightarrow> (put_brcb eng path rc', Inl (brcb_write_error_code e)))
      | _ \<Rightarrow> (eng, Inl TypeInconsistent))"

definition brcb_has_field :: "buffered_report_control \<Rightarrow> rcb_field \<Rightarrow> bool" where
  "brcb_has_field rc f =
     (case f of FOwner \<Rightarrow> with_owner (brcb_cfg rc) | FResvTms \<Rightarrow> with_resv_tms (brcb_cfg rc) | _ \<Rightarrow> True)"

text \<open>The writes that touch nothing but the control block.\<close>

fun set_brcb_local ::
  "u64 \<Rightarrow> buffered_report_control \<Rightarrow> rcb_field \<Rightarrow> rcb_write_value \<Rightarrow> connection_id \<Rightarrow> ip_addr option \<Rightarrow>
   (buffered_report_control \<times> (data_access_error + unit)) option" where
  "set_brcb_local commit rc FEntryId v conn ip = Some (set_brcb_entry_id rc v)"
| "set_brcb_local commit rc FPurgeBuf v conn ip = Some (set_brcb_purge_buf commit rc v)"
| "set_brcb_local commit rc FGi v conn ip = Some (set_brcb_gi rc v)"
| "set_brcb_local commit rc FRptId v conn ip = Some (set_brcb_config_string commit rc v)"
| "set_brcb_local commit rc FOptFlds v conn ip = Some (set_brcb_opt_flds rc v)"
| "set_brcb_local commit rc FBufTm v conn ip = Some (set_brcb_unsigned32 commit rc v CfBufTmMs)"
| "set_brcb_local commit rc FTrgOps v conn ip = Some (set_brcb_trg_ops commit rc v)"
| "set_brcb_local commit rc FIntgPd v conn ip = Some (set_brcb_unsigned32 commit rc v CfIntgPdMs)"
| "set_brcb_local commit rc FResvTms v conn ip = Some (set_brcb_resv_tms rc v conn ip)"
| "set_brcb_local commit rc FOwner v conn ip = Some (rc, Inl ObjectAccessDenied)"
| "set_brcb_local commit rc FTimeOfEntry v conn ip = Some (rc, Inl ObjectAccessDenied)"
| "set_brcb_local commit rc FConfRev v conn ip = Some (rc, Inl ObjectAccessDenied)"
| "set_brcb_local commit rc FSqNum v conn ip = Some (rc, Inl ObjectAccessDenied)"
| "set_brcb_local commit rc FResv v conn ip = Some (rc, Inl ObjectAccessDenied)"
| "set_brcb_local commit rc FRptEna v conn ip = None"
| "set_brcb_local commit rc FDatSet v conn ip = None"
| "set_brcb_local commit rc (FUnknown _) v conn ip = None"

definition handle_set_brcb_field ::
  "u64 \<Rightarrow> nat \<Rightarrow> 'ds reporting_engine \<Rightarrow> string \<Rightarrow> rcb_field \<Rightarrow> rcb_write_value \<Rightarrow> connection_id \<Rightarrow>
   'ds reporting_engine \<times> (data_access_error + unit) option" where
  "handle_set_brcb_field commit now eng path f v conn =
     (if f = FConfRev \<or> f = FSqNum then (eng, Some (Inl ObjectAccessDenied))
      else if f = FResv then (eng, None)
      else case brcbs eng path of
        None \<Rightarrow> (eng, Some (Inl ObjectNonExistent))
      | Some rc \<Rightarrow>
          if \<not> brcb_has_field rc f then (eng, Some (Inl ObjectNonExistent))
          else let ip = peers eng conn
          in (case claim_brcb_locked rc conn ip of
             (rc, Inl e) \<Rightarrow> (put_brcb eng path rc, Some (Inl e))
           | (rc, Inr _) \<Rightarrow>
               let eng = put_brcb eng path rc
               in if f = FRptEna then
                 (case set_brcb_rpt_ena rc v conn ip of
                    (rc, Inr True) \<Rightarrow>
                      (refresh_brcb_integrity_period now (put_brcb eng path rc) path, Some (Inr ()))
                  | (rc, Inr False) \<Rightarrow> (put_brcb eng path rc, Some (Inr ()))
                  | (rc, Inl e) \<Rightarrow> (put_brcb eng path rc, Some (Inl e)))
               else if f = FDatSet then
                 (case set_brcb_dat_set commit eng path rc v of (eng, r) \<Rightarrow> (eng, Some r))
               else (case set_brcb_local commit rc f v conn ip of
                  None \<Rightarrow> (eng, None)
                | Some (rc, r) \<Rightarrow> (put_brcb eng path rc, Some r))))"

section \<open>Field reads\<close>

definition exposed_entry :: "buffered_report_control \<Rightarrow> entry_id \<times> u64" where
  "exposed_entry rc =
     (if rpt_ena (state rc) then (last_sent_entry_id (state rc), last_sent_time_of_entry_ms (state rc))
      else case newest_entry (report_buffer rc) of
        None \<Rightarrow> (entry_id_ZERO, 0)
      | Some e \<Rightarrow> (entry_id e, time_of_entry_ms e))"

definition owner_octets :: "ip_addr option \<Rightarrow> mms_data" where
  "owner_octets o' = DataOctetString (case o' of
      Some (V4 a b c d) \<Rightarrow> [a, b, c, d]
    | Some (V6 x y) \<Rightarrow> bytes8 x @ bytes8 y
    | None \<Rightarrow> [])"

text \<open>The entry EntryID and TimeofEntry describe is read once and passed to both.\<close>

fun brcb_field_value :: "buffered_report_control \<Rightarrow> (entry_id \<times> u64) \<Rightarrow> rcb_field \<Rightarrow> mms_data option" where
  "brcb_field_value rc ex FEntryId = Some (DataOctetString (bytes8 (entry_id_bytes (fst ex))))"
| "brcb_field_value rc ex FTimeOfEntry = Some (DataBinaryTime (binary_time6_from_epoch_ms (snd ex)))"
| "brcb_field_value rc ex FRptId = Some (DataVisibleString (rpt_id (state rc)))"
| "brcb_field_value rc ex FRptEna = Some (DataBoolean (rpt_ena (state rc)))"
| "brcb_field_value rc ex FResv = None"
| "brcb_field_value rc ex FDatSet = Some (DataVisibleString (dat_set (state rc)))"
| "brcb_field_value rc ex FConfRev = Some (DataUnsigned (ucast (conf_rev (state rc))))"
| "brcb_field_value rc ex FOptFlds =
     (case opt_flds (state rc) of OptFlds v \<Rightarrow> Some (DataBitString 6 [opt_byte0 v, opt_byte1 v]))"
| "brcb_field_value rc ex FBufTm = Some (DataUnsigned (ucast (buf_tm_ms (state rc))))"
| "brcb_field_value rc ex FSqNum = Some (DataUnsigned (ucast (sq_num (state rc))))"
| "brcb_field_value rc ex FTrgOps =
     (let wire = trg_to_ber (trg_ops (state rc)) in Some (DataBitString (hd wire) (tl wire)))"
| "brcb_field_value rc ex FIntgPd = Some (DataUnsigned (ucast (intg_pd_ms (state rc))))"
| "brcb_field_value rc ex FGi = Some (DataBoolean (gi (state rc)))"
| "brcb_field_value rc ex FOwner =
     (if \<not> brcb_has_field rc FOwner then None
      else Some (owner_octets (case resv_tms (state rc) of
          Preconfigured \<Rightarrow> (case client_reservation (brcb_cfg rc) of Some ip \<Rightarrow> Some ip | None \<Rightarrow> owner (state rc))
        | _ \<Rightarrow> owner (state rc))))"
| "brcb_field_value rc ex FPurgeBuf = Some (DataBoolean (purge_buf_pending (state rc)))"
| "brcb_field_value rc ex FResvTms =
     (if \<not> brcb_has_field rc FResvTms then None
      else Some (DataInteger (scast (resv_to_wire (resv_tms (state rc))))))"
| "brcb_field_value rc ex (FUnknown _) = None"

definition handle_get_brcb_field :: "'ds reporting_engine \<Rightarrow> string \<Rightarrow> rcb_field \<Rightarrow> access_result option" where
  "handle_get_brcb_field eng path f =
     (case brcbs eng path of
        None \<Rightarrow> None
      | Some rc \<Rightarrow>
          if \<not> brcb_has_field rc f then Some (Failure ObjectNonExistent)
          else map_option Success (brcb_field_value rc (exposed_entry rc) f))"

definition BRCB_STRUCTURE_FIELDS :: "rcb_field list" where
  "BRCB_STRUCTURE_FIELDS = [FRptId, FRptEna, FDatSet, FConfRev, FOptFlds, FBufTm, FSqNum, FTrgOps,
     FIntgPd, FGi, FPurgeBuf, FEntryId, FTimeOfEntry, FResvTms, FOwner]"

definition handle_get_brcb_values ::
  "'ds reporting_engine \<Rightarrow> string \<Rightarrow> rcb_field option \<times> data_access_error + mms_data list" where
  "handle_get_brcb_values eng path =
     (case brcbs eng path of
        None \<Rightarrow> Inl (None, ObjectNonExistent)
      | Some rc \<Rightarrow>
          let fs = filter (brcb_has_field rc) BRCB_STRUCTURE_FIELDS; ex = exposed_entry rc
          in case find (\<lambda>f. brcb_field_value rc ex f = None) fs of
               Some f \<Rightarrow> Inl (Some f, HardwareFault)
             | None \<Rightarrow> Inr (map (\<lambda>f. the (brcb_field_value rc ex f)) fs))"

section \<open>Connection loss and the reservation timer\<close>

text \<open>The part of \<open>on_connection_dropped\<close> for one control block; \<open>now\<close> in seconds.\<close>

definition release_brcb :: "nat \<Rightarrow> connection_id \<Rightarrow> buffered_report_control \<Rightarrow> buffered_report_control" where
  "release_brcb now conn rc =
     (if client_conn_id (state rc) \<noteq> Some conn then rc
      else let s = (state rc)\<lparr>rpt_ena := False, client_conn_id := None, gi := False\<rparr>
      in rc\<lparr>state := (case resv_tms s of
            WithTimeout secs \<Rightarrow> s\<lparr>reservation_timeout := Some (now + unat secs)\<rparr>
          | NotReserved \<Rightarrow> s\<lparr>owner := None\<rparr>
          | Preconfigured \<Rightarrow> s)\<rparr>)"

definition partial_to :: "'ds reporting_engine \<Rightarrow> connection_id \<Rightarrow> string \<Rightarrow> bool" where
  "partial_to eng conn p =
     (case partial_reports eng p of None \<Rightarrow> False | Some part \<Rightarrow> partial_conn part = conn)"

definition on_connection_dropped :: "nat \<Rightarrow> 'ds reporting_engine \<Rightarrow> connection_id \<Rightarrow> 'ds reporting_engine" where
  "on_connection_dropped now eng conn =
     eng\<lparr>partial_reports := (\<lambda>p. if partial_to eng conn p then None else partial_reports eng p),
         brcbs := (\<lambda>p. map_option (\<lambda>rc. release_brcb now conn
             (if partial_to eng conn p then rewind_formatted rc else rc)) (brcbs eng p)),
         brcb_blocked := {p \<in> brcb_blocked eng. \<forall>rc. brcbs eng p = Some rc \<longrightarrow> client_conn_id (state rc) \<noteq> Some conn}\<rparr>"

definition tick_brcb :: "nat \<Rightarrow> buffered_report_control \<Rightarrow> buffered_report_control" where
  "tick_brcb now rc = rc\<lparr>state := fst (tick_reservation (state rc) now)\<rparr>"

definition tick_brcb_reservations_at :: "nat \<Rightarrow> 'ds reporting_engine \<Rightarrow> 'ds reporting_engine" where
  "tick_brcb_reservations_at now eng = eng\<lparr>brcbs := (\<lambda>p. map_option (tick_brcb now) (brcbs eng p))\<rparr>"

section \<open>Transmission\<close>

text \<open>
  \<open>flush_brcb_pending\<close> on the maps of the engine: the control block, its partly sent report and the
  set of blocked control blocks; a receiver that is gone ends its connection. The result counts the
  entries sent completely. \<open>flush_all_brcb_pending\<close> visits the control blocks in the
  order of \<open>paths\<close>, which stands for the iteration order of the hash map.
\<close>

definition blocked_after :: "string \<Rightarrow> nat \<Rightarrow> pass_end \<Rightarrow> string set \<Rightarrow> string set" where
  "blocked_after path sent stop blocked =
     (let blocked = (if sent > 0 then blocked - {path} else blocked)
      in case stop of
           PassNoRoom \<Rightarrow> insert path blocked
         | PassBlocked _ _ \<Rightarrow> insert path blocked
         | _ \<Rightarrow> blocked)"

definition flush_brcb ::
  "'tx mpsc \<Rightarrow> (string \<Rightarrow> encoder) \<Rightarrow> nat \<Rightarrow> 'ds reporting_engine \<Rightarrow> 'tx sink \<Rightarrow> string \<Rightarrow> buffered_report_control \<Rightarrow>
   connection_id \<Rightarrow> 'ds reporting_engine \<times> 'tx sink \<times> nat" where
  "flush_brcb m encode now eng sink path rc conn =
     (let fr = flush_brcb_pending m (encode path) conn sink rc (partial_reports eng path);
        eng = eng\<lparr>brcbs := (brcbs eng)(path \<mapsto> fr_rc fr),
                  partial_reports := (partial_reports eng)(path := fr_partial fr),
                  brcb_blocked := blocked_after path (fr_sent fr) (fr_end fr) (brcb_blocked eng)\<rparr>;
        eng = (if fr_end fr = PassGone then on_connection_dropped now eng conn else eng)
      in (eng, fr_sink fr, fr_sent fr))"

fun flush_all_brcb_pending ::
  "'tx mpsc \<Rightarrow> (string \<Rightarrow> encoder) \<Rightarrow> nat \<Rightarrow> 'ds reporting_engine \<Rightarrow> 'tx sink \<Rightarrow> string list \<Rightarrow>
   'ds reporting_engine \<times> 'tx sink \<times> nat" where
  "flush_all_brcb_pending m encode now eng sink [] = (eng, sink, 0)"
| "flush_all_brcb_pending m encode now eng sink (path # paths) =
     (case brcbs eng path of
        None \<Rightarrow> flush_all_brcb_pending m encode now eng sink paths
      | Some rc \<Rightarrow>
          (case if rpt_ena (state rc) then client_conn_id (state rc) else None of
             None \<Rightarrow> flush_all_brcb_pending m encode now eng sink paths
           | Some conn \<Rightarrow>
               let (eng, sink, n) = flush_brcb m encode now eng sink path rc conn;
                 (eng, sink, k) = flush_all_brcb_pending m encode now eng sink paths
               in (eng, sink, n + k)))"

end
