(* ===== verification/Brcb_Engine.thy ===== *)
theory Brcb_Engine
  imports Brcb_Service
begin

text \<open>
  The invariant of the reporting engine over every step that changes a buffered report control
  block, and the access rules of SetBRCBValues and GetBRCBValues: exclusivity, reservation,
  enabling, refused writes and read-back.
\<close>

section \<open>The invariant of the engine\<close>

text \<open>
  An enabled control block has a connection and a data set, and the reservation timer runs only for
  a timed reservation whose connection has ended.
\<close>

definition hold_ok :: "brcb_state \<Rightarrow> bool" where
  "hold_ok s \<longleftrightarrow> (rpt_ena s \<longrightarrow> client_conn_id s \<noteq> None \<and> dat_set s \<noteq> []) \<and>
     (reservation_timeout s \<noteq> None \<longrightarrow> client_conn_id s = None \<and> (\<exists>secs. resv_tms s = WithTimeout secs))"

definition brc_ok :: "buffered_report_control \<Rightarrow> bool" where
  "brc_ok rc \<longleftrightarrow> brc_inv rc \<and> hold_ok (state rc)"

definition engine_ok :: "'ds reporting_engine \<Rightarrow> bool" where
  "engine_ok eng \<longleftrightarrow> (\<forall>p rc. brcbs eng p = Some rc \<longrightarrow> brc_ok rc)"

named_theorems hold_defs

lemmas [hold_defs] = hold_ok_def claim_brcb_locked_def set_brcb_resv_tms_def set_brcb_rpt_ena_def
  set_brcb_gi_def set_brcb_opt_flds_def Let_def

lemma brc_inv_state:
  "last_entry_id_ms s = last_entry_id_ms (state rc) \<Longrightarrow> brc_inv (rc\<lparr>state := s\<rparr>) \<longleftrightarrow> brc_inv rc"
  by (simp add: brc_inv_def)

lemma brc_ok_state:
  "last_entry_id_ms s = last_entry_id_ms (state rc) \<Longrightarrow>
   brc_ok (rc\<lparr>state := s\<rparr>) \<longleftrightarrow> brc_inv rc \<and> hold_ok s"
  by (simp add: brc_ok_def brc_inv_state)

lemma claim_result:
  assumes "claim_brcb_locked rc conn ip = (rc', r)"
  shows "\<exists>s. rc' = rc\<lparr>state := s\<rparr> \<and> last_entry_id_ms s = last_entry_id_ms (state rc) \<and>
      rpt_ena s = rpt_ena (state rc) \<and> (hold_ok (state rc) \<longrightarrow> hold_ok s) \<and>
      (r = Inr () \<longrightarrow> reservation_timeout (state rc) = None \<or> hold_ok (state rc) \<longrightarrow> reservation_timeout s = None)"
  using assms
  by (auto simp: hold_defs split: if_splits intro!: exI [of _ "state rc'"])

lemma claim_ok:
  assumes "claim_brcb_locked rc conn ip = (rc', r)" and "brc_ok rc"
  shows "brc_ok rc'" and "rpt_ena (state rc') = rpt_ena (state rc)"
    and "r = Inr () \<Longrightarrow> reservation_timeout (state rc') = None"
  using claim_result [OF assms(1)] assms(2) by (auto simp: brc_ok_def brc_inv_state)

lemma purge_ok: "brc_ok rc \<Longrightarrow> brc_ok (fst (run_purge_buf_procedure commit rc))"
  using run_purge_inv [of rc commit] by (simp add: brc_ok_def hold_ok_def)

lemma config_changed_ok:
  assumes "config_changed path s f = Some s'" and "hold_ok s" and "\<not> rpt_ena s"
  shows "hold_ok s'" and "last_entry_id_ms s' = last_entry_id_ms s"
  using assms by (cases f; auto simp: hold_ok_def Let_def split: if_splits)+

lemma hold_ok_conf_rev [simp]:
  "hold_ok (increase_conf_rev s) = hold_ok s" "last_entry_id_ms (increase_conf_rev s) = last_entry_id_ms s"
  by (simp_all add: hold_ok_def increase_conf_rev_def Let_def)

lemma set_config_field_ok:
  assumes "set_config_field commit rc f = (rc', r)" and "brc_ok rc"
  shows "brc_ok rc'"
proof (cases "rpt_ena (state rc) \<or> config_changed (mms_path rc) (state rc) f = None")
  case True
  with assms show ?thesis by (auto simp: set_config_field_def split: if_splits)
next
  case False
  then obtain s where s: "config_changed (mms_path rc) (state rc) f = Some s" and ena: "\<not> rpt_ena (state rc)"
    by auto
  let ?s = "case f of CfDatSet _ \<Rightarrow> increase_conf_rev s | _ \<Rightarrow> s"
  have "brc_ok (rc\<lparr>state := ?s\<rparr>)"
    using config_changed_ok [OF s _ ena] assms(2)
    by (auto simp: brc_ok_def brc_inv_state split: brcb_config_field.split)
  from purge_ok [OF this] show ?thesis
    using assms(1) s ena by (auto simp: set_config_field_def Let_def case_prod_beta)
qed

lemma set_config_ok: "set_config commit rc f = (rc', r) \<Longrightarrow> brc_ok rc \<Longrightarrow> brc_ok rc'"
  by (auto simp: set_config_def split: prod.splits sum.splits dest: set_config_field_ok)

lemma set_brcb_purge_buf_ok: "set_brcb_purge_buf commit rc v = (rc', r) \<Longrightarrow> brc_ok rc \<Longrightarrow> brc_ok rc'"
  using purge_ok [of rc commit]
  by (auto simp: set_brcb_purge_buf_def handle_purge_buf_write_def Let_def case_prod_beta
      split: rcb_write_value.splits if_splits)

lemma apply_entry_id_write_ok:
  "apply_entry_id_write rc i = (rc', r) \<Longrightarrow> brc_ok rc \<Longrightarrow> brc_ok rc'"
  by (auto simp: apply_entry_id_write_cases brc_ok_def brc_inv_def hold_ok_def set_formatted_through_def
      split: if_splits seek_result.splits)

lemma set_brcb_entry_id_ok: "set_brcb_entry_id rc v = (rc', r) \<Longrightarrow> brc_ok rc \<Longrightarrow> brc_ok rc'"
  by (auto simp: set_brcb_entry_id_def split: rcb_write_value.splits if_splits prod.splits sum.splits
      apply_entry_id_error.splits dest: apply_entry_id_write_ok)

lemma set_brcb_gi_ok: "set_brcb_gi rc v = (rc', r) \<Longrightarrow> brc_ok rc \<Longrightarrow> brc_ok rc'"
  by (auto simp: set_brcb_gi_def brc_ok_def brc_inv_def hold_ok_def split: rcb_write_value.splits if_splits)

lemma set_brcb_opt_flds_ok: "set_brcb_opt_flds rc v = (rc', r) \<Longrightarrow> brc_ok rc \<Longrightarrow> brc_ok rc'"
  by (auto simp: set_brcb_opt_flds_def brc_ok_def brc_inv_def hold_ok_def
      split: rcb_write_value.splits if_splits option.splits)

lemma set_brcb_resv_tms_ok:
  assumes "set_brcb_resv_tms rc v conn ip = (rc', r)" and "brc_ok rc"
  shows "brc_ok rc'"
proof -
  obtain rc1 r1 where c: "claim_brcb_locked rc conn ip = (rc1, r1)" by fastforce
  note ok = claim_ok [OF c assms(2)]
  have "brc_ok (rc1\<lparr>state := s\<rparr>)"
    if "last_entry_id_ms s = last_entry_id_ms (state rc1)" "hold_ok s" for s
    using that ok(1) by (simp add: brc_ok_def brc_inv_state)
  then show ?thesis
    using assms c ok
    by (auto simp: set_brcb_resv_tms_def Let_def hold_ok_def split: option.splits if_splits sum.splits
        resv_tms_state.splits)
qed

lemma set_brcb_rpt_ena_ok:
  assumes "set_brcb_rpt_ena rc v conn ip = (rc', r)" and "brc_ok rc"
  shows "brc_ok rc'"
proof -
  obtain rc1 r1 where c: "claim_brcb_locked rc conn ip = (rc1, r1)" by fastforce
  note ok = claim_ok [OF c assms(2)]
  have st: "brc_ok (rc1\<lparr>state := s\<rparr>)"
    if "last_entry_id_ms s = last_entry_id_ms (state rc1)" "hold_ok s" for s
    using that ok(1) by (simp add: brc_ok_def brc_inv_state)
  have hold: "hold_ok (state rc1)" using ok(1) by (simp add: brc_ok_def)
  show ?thesis
  proof (cases v)
    case (WvBool b)
    show ?thesis
    proof (cases r1)
      case (Inl e)
      with assms WvBool c ok(1) show ?thesis by (simp add: set_brcb_rpt_ena_def)
    next
      case (Inr u)
      with assms WvBool c ok(1,3) hold show ?thesis
        by (cases b) (auto simp: set_brcb_rpt_ena_def Let_def hold_ok_def split: if_splits intro!: st)
    qed
  qed (use assms in \<open>simp_all add: set_brcb_rpt_ena_def\<close>)
qed

lemma set_brcb_local_ok:
  assumes "set_brcb_local commit rc f v conn ip = Some (rc', r)" and "brc_ok rc"
  shows "brc_ok rc'"
  using assms
  by (cases f) (auto dest: set_brcb_entry_id_ok set_brcb_purge_buf_ok set_brcb_gi_ok
      set_brcb_opt_flds_ok set_brcb_resv_tms_ok set_config_ok
      simp: set_brcb_config_string_def set_brcb_unsigned32_def set_brcb_trg_ops_def
      split: rcb_write_value.splits if_splits option.splits)

lemma engine_ok_put: "engine_ok eng \<Longrightarrow> brc_ok rc \<Longrightarrow> engine_ok (put_brcb eng path rc)"
  by (auto simp: engine_ok_def)

lemma engine_okD: "engine_ok eng \<Longrightarrow> brcbs eng path = Some rc \<Longrightarrow> brc_ok rc"
  by (simp add: engine_ok_def)

lemma rewind_ok: "brc_ok rc \<Longrightarrow> brc_ok (rewind_formatted rc)"
  by (simp add: brc_ok_def brc_inv_def rewind_formatted_def set_formatted_through_def)

lemma forget_partial_ok: "engine_ok eng \<Longrightarrow> engine_ok (forget_partial eng path)"
  by (auto simp: forget_partial_def engine_ok_def Let_def rewind_ok split: option.splits)

lemma refresh_ok: "engine_ok eng \<Longrightarrow> engine_ok (refresh_brcb_integrity_period now eng path)"
  using forget_partial_ok [of eng path]
  by (simp add: refresh_brcb_integrity_period_def Let_def engine_ok_def split: option.split)

lemma rebind_ok: "engine_ok (rebind_brcb_dataset eng path ds) = engine_ok eng"
  by (simp add: rebind_brcb_dataset_def engine_ok_def split: option.split)

lemma set_brcb_dat_set_ok:
  assumes "set_brcb_dat_set commit eng path rc v = (eng', r)" and "engine_ok eng" and "brc_ok rc"
  shows "engine_ok eng'"
proof -
  have "engine_ok (put_brcb eng path rc')" if "set_config_field commit rc f = (rc', r')" for f rc' r'
    using that set_config_field_ok [OF that assms(3)] engine_ok_put [OF assms(2)] by blast
  with assms(1,2) show ?thesis
    by (auto simp: set_brcb_dat_set_def Let_def rebind_ok split: rcb_write_value.splits if_splits prod.splits
        sum.splits config_change_result.splits)
qed

lemma handle_set_ok:
  assumes "engine_ok eng"
  shows "engine_ok (fst (handle_set_brcb_field commit now eng path f v conn))"
proof (cases "brcbs eng path")
  case None
  with assms show ?thesis by (simp add: handle_set_brcb_field_def)
next
  case (Some rc)
  obtain rc1 r1 where c: "claim_brcb_locked rc conn (peers eng conn) = (rc1, r1)" by fastforce
  have ok1: "brc_ok rc1" using claim_ok(1) [OF c engine_okD [OF assms Some]] .
  note eng1 = engine_ok_put [OF assms ok1, of path]
  have "engine_ok (put_brcb (put_brcb eng path rc1) path rc2)" if "brc_ok rc2" for rc2
    using eng1 that by (rule engine_ok_put)
  then have put: "engine_ok (put_brcb eng path rc2)" if "brc_ok rc2" for rc2
    using that by simp
  obtain rc2 r2 where e: "set_brcb_rpt_ena rc1 v conn (peers eng conn) = (rc2, r2)" by fastforce
  obtain eng2 r3 where d: "set_brcb_dat_set commit (put_brcb eng path rc1) path rc1 v = (eng2, r3)" by fastforce
  note oks = set_brcb_rpt_ena_ok [OF e ok1] set_brcb_dat_set_ok [OF d eng1 ok1]
  show ?thesis
  proof (cases r1)
    case (Inl a)
    with assms Some c put [OF ok1] show ?thesis by (simp add: handle_set_brcb_field_def Let_def)
  next
    case (Inr u)
    consider (ena) "f = FRptEna" | (ds) "f = FDatSet" | (loc) "f \<noteq> FRptEna" "f \<noteq> FDatSet" by blast
    then show ?thesis
    proof cases
      case ena
      with assms Some c Inr e oks(1) put refresh_ok [OF put, of rc2 now path] show ?thesis
        by (cases r2) (simp_all add: handle_set_brcb_field_def Let_def split: bool.split)
    next
      case ds
      with assms Some c Inr d oks(2) show ?thesis by (simp add: handle_set_brcb_field_def Let_def)
    next
      case loc
      obtain rc3 r3 where "set_brcb_local commit rc1 f v conn (peers eng conn) = Some (rc3, r3) \<and> brc_ok rc3 \<or>
          set_brcb_local commit rc1 f v conn (peers eng conn) = None"
        using set_brcb_local_ok [OF _ ok1] by (metis option.exhaust prod.exhaust)
      with loc assms Some c Inr put ok1 show ?thesis
        by (auto simp: handle_set_brcb_field_def Let_def)
    qed
  qed
qed

lemma release_ok: "brc_ok rc \<Longrightarrow> brc_ok (release_brcb now conn rc)"
  by (auto simp: release_brcb_def brc_ok_def brc_inv_def hold_ok_def Let_def split: resv_tms_state.splits)

lemma drop_ok:
  assumes "engine_ok eng"
  shows "engine_ok (on_connection_dropped now eng conn)"
  unfolding engine_ok_def
proof (intro allI impI)
  fix p rc'
  assume "brcbs (on_connection_dropped now eng conn) p = Some rc'"
  then obtain rc where "brcbs eng p = Some rc"
    "rc' = release_brcb now conn (if partial_to eng conn p then rewind_formatted rc else rc)"
    by (auto simp: on_connection_dropped_def)
  with engine_okD [OF assms] show "brc_ok rc'" by (simp add: release_ok rewind_ok)
qed

lemma tick_reservation_hold:
  "last_entry_id_ms (fst (tick_reservation s now)) = last_entry_id_ms s"
  "hold_ok s \<Longrightarrow> hold_ok (fst (tick_reservation s now))"
  by (auto simp: tick_reservation_def Let_def hold_ok_def split: option.split)

lemma tick_brcb_ok: "brc_ok rc \<Longrightarrow> brc_ok (tick_brcb now rc)"
  by (simp add: tick_brcb_def brc_ok_def brc_inv_state tick_reservation_hold)

lemma tick_ok:
  assumes "engine_ok eng"
  shows "engine_ok (tick_brcb_reservations_at now eng)"
  unfolding engine_ok_def
proof (intro allI impI)
  fix p rc'
  assume "brcbs (tick_brcb_reservations_at now eng) p = Some rc'"
  then obtain rc where "brcbs eng p = Some rc" "rc' = tick_brcb now rc"
    by (auto simp: tick_brcb_reservations_at_def)
  with engine_okD [OF assms] show "brc_ok rc'" by (simp add: tick_brcb_ok)
qed

lemma enqueue_ok:
  assumes "brc_ok rc" and "enqueue_ready rc now"
  shows "brc_ok (fst (enqueue_entry_with_snapshot rc now p g snap))"
proof -
  obtain rc' i ev where e: "enqueue_with (\<lambda>i. report_entry_with_snapshot i now p g snap) rc now = (rc', i, ev)"
    by (metis prod_cases3)
  have "hold_ok (state rc')"
    using assms(1) enqueue_with_result(3) [OF e]
    by (simp add: brc_ok_def hold_ok_def on_enqueue_def allocate_entry_id_frame)
  with enqueue_with_inv(1) [OF _ assms(2) _ e] assms(1) e show ?thesis
    by (simp add: brc_ok_def enqueue_as_enqueue_with)
qed

lemma send_entries_hold:
  "send_entries m encode conn sink rc es ovfl = (sink', rc', out, stop) \<Longrightarrow> hold_ok (state rc') = hold_ok (state rc)"
proof (induction es arbitrary: sink rc ovfl out)
  case (Cons e es)
  from Cons.prems show ?case
    by (cases rule: send_entries_cases)
      (auto dest!: Cons.IH simp: hold_ok_def brcb_entry_sent_def Let_def)
qed simp

lemma send_pending_hold: "hold_ok (state (fr_rc (send_pending m encode conn sink rc k))) = hold_ok (state rc)"
proof -
  let ?rc = "if transmit_anchor (state rc) = WaitingForNext
    then rc\<lparr>state := (state rc)\<lparr>transmit_anchor := AfterEntryId (last_committed_entry_id (state rc))\<rparr>\<rparr> else rc"
  have "hold_ok (state ?rc) = hold_ok (state rc)" by (simp add: hold_ok_def)
  then show ?thesis
    using send_entries_hold [of m encode conn sink ?rc "pending_of rc" "first_overflow rc"]
    by (auto simp: send_pending_def select_pending_spec Let_def split: prod.split)
qed

lemma flush_ok:
  assumes "brc_ok rc"
  shows "brc_ok (fr_rc (flush_brcb_pending m encode conn sink rc part))"
proof -
  have inv: "brc_ok (fr_rc (send_pending m encode conn sink rc k))" if "brc_ok rc" for sink rc k
    using send_pending_result(1) [OF _ refl, of rc m encode conn sink k] that by (simp add: brc_ok_def send_pending_hold)
  have "brc_ok (brcb_entry_sent rc i t)" for i t
    using assms by (simp add: brc_ok_def brc_inv_def hold_ok_def brcb_entry_sent_def Let_def)
  with assms inv show ?thesis
    by (simp add: flush_brcb_pending_def split: prod.split resumed.split option.split)
qed

lemma flush_brcb_ok:
  assumes "engine_ok eng" and "brc_ok rc"
  shows "engine_ok (fst (flush_brcb m encode now eng sink path rc conn))"
proof -
  define fr where "fr = flush_brcb_pending m (encode path) conn sink rc (partial_reports eng path)"
  let ?eng = "eng\<lparr>brcbs := (brcbs eng)(path \<mapsto> fr_rc fr),
      partial_reports := (partial_reports eng)(path := fr_partial fr),
      brcb_blocked := blocked_after path (fr_sent fr) (fr_end fr) (brcb_blocked eng)\<rparr>"
  have eq: "fst (flush_brcb m encode now eng sink path rc conn) =
      (if fr_end fr = PassGone then on_connection_dropped now ?eng conn else ?eng)"
    by (simp add: flush_brcb_def Let_def fr_def)
  have "brc_ok (fr_rc fr)" using flush_ok [OF assms(2)] by (simp add: fr_def)
  with assms(1) have "engine_ok ?eng" by (simp add: engine_ok_def)
  with drop_ok [OF this, of now conn] show ?thesis by (simp only: eq split: if_split) blast
qed

lemma flush_all_ok: "engine_ok eng \<Longrightarrow> engine_ok (fst (flush_all_brcb_pending m encode now eng sink paths))"
proof (induction m encode now eng sink paths rule: flush_all_brcb_pending.induct)
  case (2 m encode now eng sink path paths)
  show ?case
  proof (cases "brcbs eng path")
    case None
    with 2 show ?thesis by simp
  next
    case (Some rc)
    show ?thesis
    proof (cases "if rpt_ena (state rc) then client_conn_id (state rc) else None")
      case None
      with Some 2 show ?thesis by simp
    next
      case (Some conn)
      obtain eng1 sink1 n where f: "flush_brcb m encode now eng sink path rc conn = (eng1, sink1, n)"
        by (metis prod_cases3)
      have "engine_ok eng1"
        using flush_brcb_ok [OF 2(4) engine_okD [OF 2(4) \<open>brcbs eng path = Some rc\<close>], of m encode now sink path conn] f
        by simp
      with 2(3) [OF \<open>brcbs eng path = Some rc\<close> Some f [symmetric] refl] Some f \<open>brcbs eng path = Some rc\<close>
      show ?thesis by (simp add: Let_def case_prod_beta)
    qed
  qed
qed simp

text \<open>Everything that changes the control blocks of a running engine.\<close>

inductive brcb_step :: "'tx mpsc \<Rightarrow> 'ds reporting_engine \<Rightarrow> 'ds reporting_engine \<Rightarrow> bool" for m where
  set_field: "brcb_step m eng (fst (handle_set_brcb_field commit now eng path f v conn))"
| dropped: "brcb_step m eng (on_connection_dropped now eng conn)"
| tick: "brcb_step m eng (tick_brcb_reservations_at now eng)"
| enqueue: "brcbs eng path = Some rc \<Longrightarrow> enqueue_ready rc now_ms \<Longrightarrow>
    brcb_step m eng (put_brcb eng path (fst (enqueue_entry_with_snapshot rc now_ms p g snap)))"
| flush: "brcb_step m eng (fst (flush_all_brcb_pending m encode now eng sink paths))"

lemma brcb_step_ok: "brcb_step m eng eng' \<Longrightarrow> engine_ok eng \<Longrightarrow> engine_ok eng'"
proof (induction rule: brcb_step.induct)
  case (enqueue eng path rc now_ms p g snap)
  then show ?case by (intro engine_ok_put enqueue_ok engine_okD [of eng path])
qed (rule handle_set_ok drop_ok tick_ok flush_all_ok, assumption)+

lemma brcb_steps_ok: "(brcb_step m)\<^sup>*\<^sup>* eng eng' \<Longrightarrow> engine_ok eng \<Longrightarrow> engine_ok eng'"
  by (induction rule: rtranclp_induct) (auto intro: brcb_step_ok)

section \<open>Properties\<close>

text \<open>Concrete data: one control block, two connections from different addresses.\<close>

definition addr :: "u8 \<Rightarrow> ip_addr" where
  "addr n = V4 10 0 0 n"

definition sample_engine :: "brcb_state \<Rightarrow> nat reporting_engine" where
  "sample_engine s = \<lparr>brcbs = [''IED/LLN0$BR$b'' \<mapsto> resync_brc\<lparr>state := s\<rparr>],
     peers = [1 \<mapsto> addr 1, 2 \<mapsto> addr 2, 3 \<mapsto> addr 1], dataset_registry = [(''IED'', ''LLN0$ds'') \<mapsto> 4], brcb_datasets = Map.empty,
     brcb_buftm_pending = {}, brcb_next_intg = Map.empty, partial_reports = Map.empty, brcb_blocked = {}\<rparr>"

definition idle_state :: brcb_state where
  "idle_state = sample_state\<lparr>last_entry_id_ms := 6, transmit_anchor := AnchorNone, dat_set := ''IED/LLN0$ds''\<rparr>"

definition enabled_state :: brcb_state where
  "enabled_state = idle_state\<lparr>rpt_ena := True, client_conn_id := Some 1, owner := Some (addr 1)\<rparr>"

definition reserved_state :: brcb_state where
  "reserved_state = idle_state\<lparr>resv_tms := WithTimeout 30, client_conn_id := Some 1, owner := Some (addr 1)\<rparr>"

lemmas sample_states = idle_state_def enabled_state_def reserved_state_def sample_state_def
  state_from_brcb_def brcb_new_def

lemma sample_engine_brcbs [simp]:
  "brcbs (sample_engine s) ''IED/LLN0$BR$b'' = Some (resync_brc\<lparr>state := s\<rparr>)"
  "peers (sample_engine s) 1 = Some (addr 1)" "peers (sample_engine s) 2 = Some (addr 2)"
  "peers (sample_engine s) 3 = Some (addr 1)"
  by (simp_all add: sample_engine_def)

lemma sample_engine_ok:
  "last_entry_id_ms s = 6 \<Longrightarrow> hold_ok s \<Longrightarrow> engine_ok (sample_engine s)"
  using resync_brc_inv
  by (auto simp: engine_ok_def sample_engine_def brc_ok_def brc_inv_def resync_brc_def split: if_splits)



definition held_by_other :: "buffered_report_control \<Rightarrow> connection_id \<Rightarrow> bool" where
  "held_by_other rc conn \<longleftrightarrow> (\<exists>h. client_conn_id (state rc) = Some h \<and> h \<noteq> conn) \<and>
     (rpt_ena (state rc) \<or> resv_tms (state rc) \<noteq> NotReserved)"

text \<open>
  C15. A control block that another connection has enabled or reserved cannot be changed: whatever field and
  value a connection writes, the engine stays exactly as it was and the answer is not a success.
\<close>

theorem held_brcb_is_exclusive:
  assumes "brcbs eng path = Some rc" and "held_by_other rc conn"
  shows "fst (handle_set_brcb_field commit now eng path f v conn) = eng \<and>
    snd (handle_set_brcb_field commit now eng path f v conn) \<noteq> Some (Inr ())"
proof -
  have "claim_brcb_locked rc conn ip = (rc, Inl ObjectAccessDenied)" for ip
    using assms(2) by (auto simp: held_by_other_def claim_brcb_locked_def Let_def)
  with assms(1) show ?thesis
    by (simp add: handle_set_brcb_field_def Let_def fun_upd_idem)
qed

theorem held_brcb_is_exclusive_witness:
  "held_by_other (resync_brc\<lparr>state := enabled_state\<rparr>) 2 \<and>
   fst (handle_set_brcb_field 1 0 (sample_engine enabled_state) ''IED/LLN0$BR$b'' FRptEna (WvBool False) 2) =
     sample_engine enabled_state"
proof -
  have "held_by_other (resync_brc\<lparr>state := enabled_state\<rparr>) 2"
    by (simp add: held_by_other_def sample_states)
  then show ?thesis
    using held_brcb_is_exclusive [OF sample_engine_brcbs(1), of enabled_state 2 1 0 FRptEna "WvBool False"] by blast
qed

text \<open>
  C36. A timed reservation outlives its connection for exactly ResvTms seconds. Until then the control block is
  refused to every other address and handed over to a new connection of the owner, which stops the
  timer; at the deadline the tick frees it for everyone.
\<close>

theorem reservation_outlives_connection:
  assumes "client_conn_id (state rc) = Some conn" and "resv_tms (state rc) = WithTimeout secs"
    and "owner (state rc) = Some ip" and "rc' = tick_brcb t (release_brcb now conn rc)"
  shows "if t < now + unat secs
    then (other \<noteq> Some ip \<longrightarrow> claim_brcb_locked rc' writer other = (rc', Inl ObjectAccessDenied)) \<and>
      (\<exists>rc''. claim_brcb_locked rc' writer (Some ip) = (rc'', Inr ()) \<and>
         client_conn_id (state rc'') = Some writer \<and> reservation_timeout (state rc'') = None)
    else resv_tms (state rc') = NotReserved \<and> owner (state rc') = None \<and>
      claim_brcb_locked rc' writer other = (rc', Inr ())"
proof (cases "t < now + unat secs")
  case True
  have "rc' = release_brcb now conn rc"
    using assms True by (simp add: tick_brcb_def release_brcb_def tick_reservation_def Let_def)
  with assms True show ?thesis
    by (auto simp: release_brcb_def claim_brcb_locked_def Let_def)
next
  case False
  with assms show ?thesis
    by (simp add: tick_brcb_def release_brcb_def tick_reservation_def claim_brcb_locked_def Let_def)
qed

theorem reservation_outlives_connection_witness:
  "claim_brcb_locked (tick_brcb 129 (release_brcb 100 1 (resync_brc\<lparr>state := reserved_state\<rparr>))) 2 (Some (addr 2)) =
     (tick_brcb 129 (release_brcb 100 1 (resync_brc\<lparr>state := reserved_state\<rparr>)), Inl ObjectAccessDenied) \<and>
   resv_tms (state (tick_brcb 130 (release_brcb 100 1 (resync_brc\<lparr>state := reserved_state\<rparr>)))) = NotReserved"
proof -
  have s: "client_conn_id (state (resync_brc\<lparr>state := reserved_state\<rparr>)) = Some 1"
    "resv_tms (state (resync_brc\<lparr>state := reserved_state\<rparr>)) = WithTimeout 30"
    "owner (state (resync_brc\<lparr>state := reserved_state\<rparr>)) = Some (addr 1)"
    by (simp_all add: sample_states)
  have "Some (addr 2) \<noteq> Some (addr 1)" by (simp add: addr_def)
  with reservation_outlives_connection [OF s refl, of 129 100 "Some (addr 2)" 2]
    reservation_outlives_connection [OF s refl, of 130 100 "Some (addr 2)" 2]
  show ?thesis by simp
qed

text \<open>
  Enabling binds the control block to the writing connection, and the first report sent
  afterwards announces a possible loss (BufOvfl), whatever the transmit anchor was; the reports after
  it in the same pass do not.
\<close>

theorem first_report_after_enable_overflows:
  assumes "brc_inv rc" and "set_brcb_rpt_ena rc (WvBool True) conn ip = (rc', Inr True)"
    and "fr = flush_brcb_pending m encode conn sink rc' None"
  shows "rpt_ena (state rc') \<and> client_conn_id (state rc') = Some conn \<and>
    (case fr_out fr of [] \<Rightarrow> True | r # rs \<Rightarrow> fst (snd r) \<and> \<not> overflow_reported rs)"
proof -
  obtain rc1 r1 where c: "claim_brcb_locked rc conn ip = (rc1, r1)" by fastforce
  obtain s where rc1: "rc1 = rc\<lparr>state := s\<rparr>" "last_entry_id_ms s = last_entry_id_ms (state rc)"
    using claim_result [OF c] by blast
  have "r1 = Inr ()" using assms(2) c by (cases r1) (auto simp: set_brcb_rpt_ena_def)
  with assms(2) c rc1 have ena: "rpt_ena (state rc')" "client_conn_id (state rc') = Some conn"
    "overflow_on_enable (state rc')" and eq: "report_buffer rc' = report_buffer rc"
    "last_entry_id_ms (state rc') = last_entry_id_ms (state rc)"
    by (auto simp: set_brcb_rpt_ena_def Let_def split: if_splits)
  have inv: "brc_inv rc'" using assms(1) eq by (simp add: brc_inv_def)
  have fr: "fr = send_pending m encode conn sink rc' 0"
    using assms(3) by (simp add: flush_brcb_pending_def resume_partial_def)
  from send_pending_result(3) [OF inv fr] ena
  obtain es where out: "fr_out fr = reports_of (sq_num (state rc')) True es"
    by (auto simp: handles_def first_overflow_def)
  have rest: "\<not> overflow_reported (reports_of n False es)" for n es
    by (induction n False es rule: reports_of.induct) (simp_all add: overflow_reported_def)
  show ?thesis using ena rest by (cases es) (simp_all add: out)
qed

theorem first_report_after_enable_overflows_witness:
  "\<exists>e1 e2. fr_out (flush_brcb_pending queue_mpsc two_pdus 1 [1 \<mapsto> ([], 32)]
       (fst (set_brcb_rpt_ena (resync_brc\<lparr>state := idle_state\<rparr>) (WvBool True) 1 (Some (addr 1)))) None) =
     [(0, True, e1), (1, False, e2)]"
proof -
  let ?rc = "resync_brc\<lparr>state := idle_state\<rparr>"
  let ?rc' = "fst (set_brcb_rpt_ena ?rc (WvBool True) 1 (Some (addr 1)))"
  define fr where "fr = flush_brcb_pending queue_mpsc two_pdus 1 [1 \<mapsto> ([], 32)] ?rc' None"
  have inv: "brc_inv ?rc"
    using resync_brc_inv by (simp add: brc_inv_def sample_states resync_brc_def)
  have en: "set_brcb_rpt_ena ?rc (WvBool True) 1 (Some (addr 1)) = (?rc', Inr True)"
    by (simp add: set_brcb_rpt_ena_def claim_brcb_locked_def Let_def sample_states)
  have pend: "pending_of ?rc' = [sample_entry 5, sample_entry 6]" "sq_num (state ?rc') = 0"
    "transmit_anchor (state ?rc') = FromHead"
    by (simp_all add: set_brcb_rpt_ena_def claim_brcb_locked_def Let_def sample_states pending_of_def
        iter_entries_def resync_brc_def resync_buffer_entries)
  obtain b where out: "fr_out fr = [(0, b, sample_entry 5), (1, False, sample_entry 6)]"
    using pend by (simp add: fr_def channel_simps select_pending_spec Let_def)
  with first_report_after_enable_overflows [OF inv en fr_def] have b by simp
  with out show ?thesis by (simp add: fr_def)
qed



text \<open>
  What a client writes to TrgOps and OptFlds of a disabled control block it holds is what a read
  returns: the octets of the BIT STRING with every undefined bit cleared, buffer-overflow and entryID
  included.
\<close>

theorem written_flags_read_back:
  assumes "brcbs eng path = Some rc" and "\<not> rpt_ena (state rc)" and "client_conn_id (state rc) = Some conn"
    and "3 \<le> length bs"
  shows "handle_get_brcb_field (fst (handle_set_brcb_field commit now eng path FOptFlds (WvBitString bs) conn)) path FOptFlds =
      Some (Success (DataBitString 6 [bs ! 1 AND 0x7f, bs ! 2 AND 0xc0])) \<and>
    handle_get_brcb_field (fst (handle_set_brcb_field commit now eng path FTrgOps (WvBitString bs) conn)) path FTrgOps =
      Some (Success (DataBitString 2 [bs ! 1 AND 0x7c]))"
proof -
  have claim: "claim_brcb_locked rc conn ip = (rc, Inr ())" for ip
    using assms(3) by (simp add: claim_brcb_locked_def Let_def)
  obtain w where w: "opt_from_ber bs = Some (OptFlds w)"
    using assms(4) by (simp add: opt_from_ber_def Let_def)
  obtain t where t: "trg_from_ber bs = Some t" "trg_to_ber t = [2, bs ! 1 AND 0x7c]"
    using trg_to_from_ber [of bs] assms(4) by auto
  obtain rc' r where c: "set_config commit rc (CfTrgOps t) = (rc', r)" by fastforce
  have "trg_ops (state rc') = t" "brcb_cfg rc' = brcb_cfg rc"
    using c assms(2)
    by (auto simp: set_config_def set_config_field_def Let_def case_prod_beta split: if_splits)
  then have "handle_get_brcb_field (fst (handle_set_brcb_field commit now eng path FTrgOps (WvBitString bs) conn)) path FTrgOps =
      Some (Success (DataBitString 2 [bs ! 1 AND 0x7c]))"
    using assms(1) c t claim
    by (simp add: handle_get_brcb_field_def handle_set_brcb_field_def brcb_has_field_def Let_def set_brcb_trg_ops_def)
  moreover have "handle_get_brcb_field (fst (handle_set_brcb_field commit now eng path FOptFlds (WvBitString bs) conn)) path FOptFlds =
      Some (Success (DataBitString 6 [bs ! 1 AND 0x7f, bs ! 2 AND 0xc0]))"
    using assms(1,2) w claim opt_to_bytes [OF w]
    by (simp add: handle_get_brcb_field_def handle_set_brcb_field_def brcb_has_field_def Let_def set_brcb_opt_flds_def)
  ultimately show ?thesis by blast
qed

theorem written_flags_read_back_witness:
  "handle_get_brcb_field (fst (handle_set_brcb_field 1 0 (sample_engine reserved_state) ''IED/LLN0$BR$b'' FOptFlds
     (WvBitString [6, 0xff, 0xff]) 1)) ''IED/LLN0$BR$b'' FOptFlds = Some (Success (DataBitString 6 [0x7f, 0xc0]))"
  using written_flags_read_back [OF sample_engine_brcbs(1), of reserved_state 1 "[6, 0xff, 0xff]" 1 0]
  by (simp add: sample_states)

text \<open>
  Reading the whole control block never fails on a registered path: it returns one value per attribute
  the configuration includes, fifteen at most, and its EntryID and TimeofEntry describe the same entry.
\<close>

theorem brcb_structure_read_complete:
  assumes "brcbs eng path = Some rc"
  shows "\<exists>vs. handle_get_brcb_values eng path = Inr vs \<and>
    length vs = 13 + of_bool (with_resv_tms (brcb_cfg rc)) + of_bool (with_owner (brcb_cfg rc)) \<and>
    vs ! 11 = DataOctetString (bytes8 (entry_id_bytes (fst (exposed_entry rc)))) \<and>
    vs ! 12 = DataBinaryTime (binary_time6_from_epoch_ms (snd (exposed_entry rc)))"
proof -
  let ?fs = "filter (brcb_has_field rc) BRCB_STRUCTURE_FIELDS"
  have "brcb_field_value rc ex f \<noteq> None" if "f \<in> set ?fs" for f ex
  proof -
    from that have "brcb_has_field rc f" "f \<in> set BRCB_STRUCTURE_FIELDS" by simp_all
    then show ?thesis by (cases f) (simp_all add: BRCB_STRUCTURE_FIELDS_def Let_def split: opt_flds.split)
  qed
  then have "find (\<lambda>f. brcb_field_value rc (exposed_entry rc) f = None) ?fs = None"
    by (auto simp: find_None_iff)
  with assms show ?thesis
    by (simp add: handle_get_brcb_values_def Let_def BRCB_STRUCTURE_FIELDS_def brcb_has_field_def)
qed

theorem brcb_structure_read_complete_witness:
  "\<exists>vs. handle_get_brcb_values (sample_engine idle_state) ''IED/LLN0$BR$b'' = Inr vs \<and> length vs = 15"
  using brcb_structure_read_complete [OF sample_engine_brcbs(1), of idle_state]
  by (auto simp: resync_brc_def sample_brc_def brc_new_def brc_with_backend_def brcb_new_def Let_def)

end
