(* ===== verification/Convert.thy ===== *)
theory Convert
  imports Mms_Data Model_Value
begin

text \<open>
  The conversions between the model value \<open>MmsValue\<close> and the wire value \<open>MmsData\<close>: those of
  the server (crates/iec61850-server/src/service/convert.rs), which clear the unused bits of a bit
  string, and those of the client (crates/iec61850-client/src/mms_compat.rs), which do not.
\<close>

definition bit_string_bytes :: "u8 \<Rightarrow> bytes \<Rightarrow> bytes" where
  "bit_string_bytes padding data =
     (if data = [] \<or> padding \<ge> 8 then data
      else butlast data @ [last data AND push_bit (unat padding) 0xFF])"

fun value_to_data :: "mms_value \<Rightarrow> mms_data" where
  "value_to_data (Boolean b) = DataBoolean b"
| "value_to_data (Integer i) = DataInteger i"
| "value_to_data (Unsigned u) = DataUnsigned u"
| "value_to_data (Float32 f) = DataFloat32 f"
| "value_to_data (Float64 f) = DataFloat64 f"
| "value_to_data (BitString p d) = DataBitString p (bit_string_bytes p d)"
| "value_to_data (OctetString bs) = DataOctetString bs"
| "value_to_data (VisibleString s) = DataVisibleString s"
| "value_to_data (MmsString s) = DataMmsString s"
| "value_to_data (UtcTimeValue a) = DataUtcTime a"
| "value_to_data (BinaryTime bs) = DataBinaryTime bs"
| "value_to_data (Array items) = DataArray (map value_to_data items)"
| "value_to_data (Structure items) = DataStructure (map value_to_data items)"

fun data_to_value :: "mms_data \<Rightarrow> mms_value" where
  "data_to_value (DataBoolean b) = Boolean b"
| "data_to_value (DataInteger i) = Integer i"
| "data_to_value (DataUnsigned u) = Unsigned u"
| "data_to_value (DataFloat32 f) = Float32 f"
| "data_to_value (DataFloat64 f) = Float64 f"
| "data_to_value (DataBitString p d) = BitString p (bit_string_bytes p d)"
| "data_to_value (DataOctetString bs) = OctetString bs"
| "data_to_value (DataVisibleString s) = VisibleString s"
| "data_to_value (DataMmsString s) = MmsString s"
| "data_to_value (DataUtcTime a) = UtcTimeValue a"
| "data_to_value (DataBinaryTime bs) = BinaryTime bs"
| "data_to_value (DataArray items) = Array (map data_to_value items)"
| "data_to_value (DataStructure items) = Structure (map data_to_value items)"
| "data_to_value (DataBooleanArray p d) = BitString p (bit_string_bytes p d)"
| "data_to_value (DataGeneralizedTime s) = VisibleString s"

fun same_data_variant :: "mms_data \<Rightarrow> mms_value \<Rightarrow> bool" where
  "same_data_variant (DataBoolean _) v = (case v of Boolean _ \<Rightarrow> True | _ \<Rightarrow> False)"
| "same_data_variant (DataInteger _) v = (case v of Integer _ \<Rightarrow> True | _ \<Rightarrow> False)"
| "same_data_variant (DataUnsigned _) v = (case v of Unsigned _ \<Rightarrow> True | _ \<Rightarrow> False)"
| "same_data_variant (DataFloat32 _) v = (case v of Float32 _ \<Rightarrow> True | _ \<Rightarrow> False)"
| "same_data_variant (DataFloat64 _) v = (case v of Float64 _ \<Rightarrow> True | _ \<Rightarrow> False)"
| "same_data_variant (DataBitString _ _) v = (case v of BitString _ _ \<Rightarrow> True | _ \<Rightarrow> False)"
| "same_data_variant (DataBooleanArray _ _) v = (case v of BitString _ _ \<Rightarrow> True | _ \<Rightarrow> False)"
| "same_data_variant (DataOctetString _) v = (case v of OctetString _ \<Rightarrow> True | _ \<Rightarrow> False)"
| "same_data_variant (DataVisibleString _) v = (case v of VisibleString _ \<Rightarrow> True | _ \<Rightarrow> False)"
| "same_data_variant (DataMmsString _) v = (case v of MmsString _ \<Rightarrow> True | _ \<Rightarrow> False)"
| "same_data_variant (DataUtcTime _) v = (case v of UtcTimeValue _ \<Rightarrow> True | _ \<Rightarrow> False)"
| "same_data_variant (DataBinaryTime _) v = (case v of BinaryTime _ \<Rightarrow> True | _ \<Rightarrow> False)"
| "same_data_variant (DataArray _) v = (case v of Array _ \<Rightarrow> True | _ \<Rightarrow> False)"
| "same_data_variant (DataStructure _) v = (case v of Structure _ \<Rightarrow> True | _ \<Rightarrow> False)"
| "same_data_variant (DataGeneralizedTime _) v = False"

text \<open>The client's conversions, with their bit strings as they are.\<close>

fun client_value_to_data :: "mms_value \<Rightarrow> mms_data" where
  "client_value_to_data (BitString p d) = DataBitString p d"
| "client_value_to_data (Array items) = DataArray (map client_value_to_data items)"
| "client_value_to_data (Structure items) = DataStructure (map client_value_to_data items)"
| "client_value_to_data v = value_to_data v"

fun client_data_to_value :: "mms_data \<Rightarrow> mms_value" where
  "client_data_to_value (DataBitString p d) = BitString p d"
| "client_data_to_value (DataBooleanArray p d) = BitString p d"
| "client_data_to_value (DataArray items) = Array (map client_data_to_value items)"
| "client_data_to_value (DataStructure items) = Structure (map client_data_to_value items)"
| "client_data_to_value d = data_to_value d"

section \<open>Lemmas\<close>

text \<open>A value with the unused bits of its bit strings cleared.\<close>

fun cleared :: "mms_value \<Rightarrow> mms_value" where
  "cleared (BitString p d) = BitString p (bit_string_bytes p d)"
| "cleared (Array items) = Array (map cleared items)"
| "cleared (Structure items) = Structure (map cleared items)"
| "cleared v = v"

lemma bit_string_bytes_idem [simp]: "bit_string_bytes p (bit_string_bytes p d) = bit_string_bytes p d"
  by (simp add: bit_string_bytes_def ac_simps)

lemma length_bit_string_bytes [simp]: "length (bit_string_bytes p d) = length d"
  by (cases d) (simp_all add: bit_string_bytes_def)

lemma bit_string_bytes_Nil [simp]: "bit_string_bytes p d = [] \<longleftrightarrow> d = []"
  using length_bit_string_bytes [of p d] by (metis length_0_conv)

lemma data_to_value_to_data [simp]: "data_to_value (value_to_data v) = cleared v"
  by (induction v) simp_all

lemma client_to_server [simp]: "data_to_value (client_value_to_data v) = cleared v"
  by (induction v) simp_all

lemma server_to_client [simp]: "client_data_to_value (value_to_data v) = cleared v"
  by (induction v) simp_all

lemma client_to_client [simp]: "client_data_to_value (client_value_to_data v) = v"
  by (induction v) (simp_all add: map_idI)

lemma cleared_idem [simp]: "cleared (cleared v) = cleared v"
  by (induction v) simp_all

end
