(* ===== verification/Control_Model.thy ===== *)
theory Control_Model
  imports Model_Value
begin

text \<open>
  The types of the control model: crates/iec61850-server/src/control/model.rs with the state and
  notification types of control/state.rs and control/handler.rs, and the client's encoders of
  crates/iec61850-client/src/control/encode.rs. \<open>i32\<close> is a 32-bit word read with \<open>sint\<close>.
\<close>

section \<open>Codes\<close>

datatype add_cause =
    CauseUnknown | NotSupported | BlockedBySwitchingHierarchy | SelectFailed | InvalidPosition
    | PositionReached | ParameterChangeInExecution | StepLimit | BlockedByMode | BlockedByProcess
    | BlockedByInterlocking | BlockedBySynchrocheck | CommandAlreadyInExecution | BlockedByHealth
    | OneOfNControl | AbortionByCancel | TimeLimitOver | AbortionByTrip | ObjectNotSelected
    | ObjectAlreadySelected | NoAccessAuthority | EndedWithOvershoot | AbortionDueToDeviation
    | AbortionByCommunicationLoss | BlockedByCommand | CauseNone | InconsistentParameters
    | LockedByOtherClient

definition cause_list :: "add_cause list" where
  "cause_list =
     [CauseUnknown, NotSupported, BlockedBySwitchingHierarchy, SelectFailed, InvalidPosition
      , PositionReached, ParameterChangeInExecution, StepLimit, BlockedByMode, BlockedByProcess
      , BlockedByInterlocking, BlockedBySynchrocheck, CommandAlreadyInExecution, BlockedByHealth
      , OneOfNControl, AbortionByCancel, TimeLimitOver, AbortionByTrip, ObjectNotSelected
      , ObjectAlreadySelected, NoAccessAuthority, EndedWithOvershoot, AbortionDueToDeviation
      , AbortionByCommunicationLoss, BlockedByCommand, CauseNone, InconsistentParameters
      , LockedByOtherClient]"

definition cause_from_i32 :: "i32 \<Rightarrow> add_cause" where
  "cause_from_i32 v = (if unat v < 28 then cause_list ! unat v else CauseUnknown)"

text \<open>The discriminant of a cause, which goes on the wire.\<close>

fun cause_code :: "add_cause \<Rightarrow> i32" where
  "cause_code CauseUnknown = 0"
| "cause_code NotSupported = 1"
| "cause_code BlockedBySwitchingHierarchy = 2"
| "cause_code SelectFailed = 3"
| "cause_code InvalidPosition = 4"
| "cause_code PositionReached = 5"
| "cause_code ParameterChangeInExecution = 6"
| "cause_code StepLimit = 7"
| "cause_code BlockedByMode = 8"
| "cause_code BlockedByProcess = 9"
| "cause_code BlockedByInterlocking = 10"
| "cause_code BlockedBySynchrocheck = 11"
| "cause_code CommandAlreadyInExecution = 12"
| "cause_code BlockedByHealth = 13"
| "cause_code OneOfNControl = 14"
| "cause_code AbortionByCancel = 15"
| "cause_code TimeLimitOver = 16"
| "cause_code AbortionByTrip = 17"
| "cause_code ObjectNotSelected = 18"
| "cause_code ObjectAlreadySelected = 19"
| "cause_code NoAccessAuthority = 20"
| "cause_code EndedWithOvershoot = 21"
| "cause_code AbortionDueToDeviation = 22"
| "cause_code AbortionByCommunicationLoss = 23"
| "cause_code BlockedByCommand = 24"
| "cause_code CauseNone = 25"
| "cause_code InconsistentParameters = 26"
| "cause_code LockedByOtherClient = 27"

datatype last_appl_error = NoError | AppUnknown | TimeoutTestNotOk | OperatorTestNotOk

datatype control_model = StatusOnly | DirectNormal | SboNormal | DirectEnhanced | SboEnhanced

datatype sbo_class = OperateOnce | OperateMany

datatype control_state = Unselected | Ready | WaitForExecution | Operate

fun is_executing :: "control_state \<Rightarrow> bool" where
  "is_executing s = (s = WaitForExecution \<or> s = Operate)"

datatype select_reason = Selected | Canceled | Timeout | Disconnected | OperateDone | OperateRefused

section \<open>Origin\<close>

record origin_value =
  or_cat :: i32
  or_ident :: bytes

definition origin_default :: origin_value where
  "origin_default = \<lparr>or_cat = 0, or_ident = []\<rparr>"

definition origin_is_valid :: "origin_value \<Rightarrow> bool" where
  "origin_is_valid origin \<longleftrightarrow> sint (or_cat origin) \<ge> 0 \<and> sint (or_cat origin) \<le> 8 \<and> length (or_ident origin) \<le> 64"

definition origin_from_mms_value :: "mms_value \<Rightarrow> origin_value option" where
  "origin_from_mms_value v =
     (case v of
        Structure [Integer cat, OctetString ident] \<Rightarrow> Some \<lparr>or_cat = ucast cat, or_ident = ident\<rparr>
      | _ \<Rightarrow> None)"

section \<open>Parameters\<close>

record oper_params =
  op_ctl_val :: mms_value
  op_oper_tm_ms :: u64
  op_origin :: origin_value
  op_ctl_num :: u8
  op_t :: array8
  op_test :: bool
  op_synchro_check :: bool
  op_interlock_check :: bool

record cancel_params =
  ca_ctl_val :: "mms_value option"
  ca_origin :: origin_value
  ca_ctl_num :: u8
  ca_t :: array8
  ca_test :: bool

definition ctl_num_from_mms_value :: "mms_value \<Rightarrow> u8 option" where
  "ctl_num_from_mms_value v =
     (case v of
        Unsigned n \<Rightarrow> if n < 256 then Some (ucast n) else None
      | Integer n \<Rightarrow> if 0 \<le> sint n \<and> sint n < 256 then Some (ucast n) else None
      | _ \<Rightarrow> None)"

definition bit_string_len :: "u8 \<Rightarrow> bytes \<Rightarrow> nat option" where
  "bit_string_len padding data =
     (if padding > 7 \<or> data = [] \<and> padding \<noteq> 0 then None
      else Some (length data * 8 - unat padding))"

fun utc_time_to_ms :: "array8 \<Rightarrow> u64" where
  "utc_time_to_ms (Array8 a b c d e f g h) =
     (let secs = ucast (from_be [a, b, c, d] :: u32) :: u64;
          frac24 = ucast (push_bit 16 (ucast e) OR push_bit 8 (ucast f) OR ucast g :: u32) :: u64
      in secs * 1000 + frac24 * 1000 div push_bit 24 1)"

definition ms_to_utc_time :: "u64 \<Rightarrow> array8" where
  "ms_to_utc_time ms =
     (let secs = ucast (ms div 1000) :: u32;
          frac_ms = ms mod 1000;
          frac24 = ucast (frac_ms * push_bit 24 1 div 1000) :: u32
      in case u32_to_be secs of
           [a, b, c, d] \<Rightarrow> Array8 a b c d (ucast (drop_bit 16 frac24)) (ucast (drop_bit 8 frac24)) (ucast frac24) 0)"

definition utc_time_of :: "mms_value \<Rightarrow> array8 option" where
  "utc_time_of v = (case v of UtcTimeValue b \<Rightarrow> Some b | _ \<Rightarrow> None)"

definition boolean_of :: "mms_value \<Rightarrow> bool option" where
  "boolean_of v = (case v of Boolean b \<Rightarrow> Some b | _ \<Rightarrow> None)"

text \<open>\<open>Check\<close>, a bit string of at least two bits: synchro check first, then interlock check.\<close>

definition check_of :: "mms_value \<Rightarrow> (bool \<times> bool) option" where
  "check_of v =
     (case v of
        BitString padding data \<Rightarrow>
          (case bit_string_len padding data of
             None \<Rightarrow> None
           | Some bits \<Rightarrow>
               if bits \<ge> 2 then Some (hd data AND 0x80 \<noteq> 0, hd data AND 0x40 \<noteq> 0) else None)
      | _ \<Rightarrow> None)"

text \<open>The members after \<open>ctlVal\<close> and \<open>operTm\<close>.\<close>

definition oper_members ::
  "mms_value \<Rightarrow> u64 \<Rightarrow> mms_value \<Rightarrow> mms_value \<Rightarrow> mms_value \<Rightarrow> mms_value \<Rightarrow> mms_value \<Rightarrow> oper_params option" where
  "oper_members ctl_val oper_tm origin num t test check =
     (case (origin_from_mms_value origin, ctl_num_from_mms_value num, utc_time_of t, boolean_of test, check_of check) of
        (Some origin, Some num, Some t, Some test, Some (synchro, interlock)) \<Rightarrow>
          Some \<lparr>op_ctl_val = ctl_val, op_oper_tm_ms = oper_tm, op_origin = origin, op_ctl_num = num, op_t = t,
            op_test = test, op_synchro_check = synchro, op_interlock_check = interlock\<rparr>
      | _ \<Rightarrow> None)"

definition oper_params_from_mms_value :: "mms_value \<Rightarrow> oper_params option" where
  "oper_params_from_mms_value v =
     (case v of
        Structure [ctl_val, origin, num, t, test, check] \<Rightarrow> oper_members ctl_val 0 origin num t test check
      | Structure [ctl_val, oper_tm, origin, num, t, test, check] \<Rightarrow>
          (case utc_time_of oper_tm of
             None \<Rightarrow> None
           | Some b \<Rightarrow> oper_members ctl_val (utc_time_to_ms b) origin num t test check)
      | _ \<Rightarrow> None)"

definition cancel_members ::
  "mms_value \<Rightarrow> mms_value \<Rightarrow> mms_value \<Rightarrow> mms_value \<Rightarrow> mms_value \<Rightarrow> cancel_params option" where
  "cancel_members ctl_val origin num t test =
     (case (origin_from_mms_value origin, ctl_num_from_mms_value num, utc_time_of t, boolean_of test) of
        (Some origin, Some num, Some t, Some test) \<Rightarrow>
          Some \<lparr>ca_ctl_val = Some ctl_val, ca_origin = origin, ca_ctl_num = num, ca_t = t, ca_test = test\<rparr>
      | _ \<Rightarrow> None)"

definition cancel_params_from_mms_value :: "mms_value \<Rightarrow> cancel_params option" where
  "cancel_params_from_mms_value v =
     (case v of
        Structure [ctl_val, origin, num, t, test] \<Rightarrow> cancel_members ctl_val origin num t test
      | Structure [ctl_val, oper_tm, origin, num, t, test] \<Rightarrow>
          (case utc_time_of oper_tm of
             None \<Rightarrow> None
           | Some _ \<Rightarrow> cancel_members ctl_val origin num t test)
      | _ \<Rightarrow> None)"

definition mms_value_binary_equal :: "mms_value \<Rightarrow> mms_value \<Rightarrow> bool" where
  "mms_value_binary_equal a b =
     (case (a, b) of
        (Float32 x, Float32 y) \<Rightarrow> x = y
      | (Float64 x, Float64 y) \<Rightarrow> x = y
      | _ \<Rightarrow> mms_value_eq a b)"

section \<open>The client's encoders\<close>

definition origin_to_mms :: "origin_value \<Rightarrow> mms_value" where
  "origin_to_mms origin = Structure [Integer (scast (or_cat origin)), OctetString (or_ident origin)]"

definition check_bits :: "bool \<Rightarrow> bool \<Rightarrow> mms_value" where
  "check_bits synchro_check interlock_check =
     BitString 6 [(if synchro_check then 0x80 else 0) OR (if interlock_check then 0x40 else 0)]"

definition build_oper_struct ::
  "mms_value \<Rightarrow> origin_value \<Rightarrow> u8 \<Rightarrow> array8 \<Rightarrow> bool \<Rightarrow> bool \<Rightarrow> bool \<Rightarrow> mms_value" where
  "build_oper_struct ctl_val origin ctl_num t test synchro_check interlock_check =
     Structure [ctl_val, origin_to_mms origin, Unsigned (ucast ctl_num), UtcTimeValue t, Boolean test,
       check_bits synchro_check interlock_check]"

definition build_cancel_struct :: "mms_value \<Rightarrow> origin_value \<Rightarrow> u8 \<Rightarrow> array8 \<Rightarrow> bool \<Rightarrow> mms_value" where
  "build_cancel_struct ctl_val origin ctl_num t test =
     Structure [ctl_val, origin_to_mms origin, Unsigned (ucast ctl_num), UtcTimeValue t, Boolean test]"

section \<open>Lemmas\<close>

lemma cause_from_code [simp]: "cause_from_i32 (cause_code c) = c"
  by (cases c) (simp_all add: cause_from_i32_def cause_list_def)

lemma ucast_scast_i32 [simp]: "(ucast (scast c :: i64) :: i32) = c"
  by (rule bit_word_eqI) (simp add: bit_simps)

lemma origin_from_to_mms [simp]: "origin_from_mms_value (origin_to_mms origin) = Some origin"
  by (simp add: origin_from_mms_value_def origin_to_mms_def)

lemma ctl_num_from_unsigned [simp]: "ctl_num_from_mms_value (Unsigned (ucast n)) = Some n" for n :: u8
proof -
  have "unat (ucast n :: u64) = unat n"
    using unat_u8_less [of n] by (simp add: unsigned_ucast_eq take_bit_nat_eq_self)
  then have "(ucast n :: u64) < 256" using unat_u8_less [of n] by (simp add: word_less_nat_alt)
  moreover have "ucast (ucast n :: u64) = n" by (rule bit_word_eqI) (simp add: bit_simps)
  ultimately show ?thesis by (simp add: ctl_num_from_mms_value_def)
qed

lemma check_of_bits [simp]: "check_of (check_bits s i) = Some (s, i)"
  by (cases s; cases i) (simp_all add: check_of_def check_bits_def bit_string_len_def)

lemma oper_params_of_build:
  "oper_params_from_mms_value (build_oper_struct v origin n t test s i) =
     Some \<lparr>op_ctl_val = v, op_oper_tm_ms = 0, op_origin = origin, op_ctl_num = n, op_t = t,
       op_test = test, op_synchro_check = s, op_interlock_check = i\<rparr>"
  by (simp add: oper_params_from_mms_value_def build_oper_struct_def oper_members_def utc_time_of_def
      boolean_of_def)

lemma cancel_params_of_build:
  "cancel_params_from_mms_value (build_cancel_struct v origin n t test) =
     Some \<lparr>ca_ctl_val = Some v, ca_origin = origin, ca_ctl_num = n, ca_t = t, ca_test = test\<rparr>"
  by (simp add: cancel_params_from_mms_value_def build_cancel_struct_def cancel_members_def utc_time_of_def
      boolean_of_def)

lemma frac24_bytes:
  fixes f :: u32
  assumes "unat f < 2 ^ 24"
  shows "push_bit 16 (ucast (ucast (drop_bit 16 f) :: u8)) OR push_bit 8 (ucast (ucast (drop_bit 8 f) :: u8)) OR
    ucast (ucast f :: u8) = f"
proof -
  have "take_bit 24 f = f" using assms by (simp add: word_unat_eq_iff unsigned_take_bit_eq take_bit_nat_eq_self)
  then have hi: "bit f n \<longleftrightarrow> n < 24 \<and> bit f n" for n by (metis bit_take_bit_iff)
  show ?thesis
  proof (rule bit_word_eqI)
    fix n assume "n < LENGTH(32)"
    show "bit (push_bit 16 (ucast (ucast (drop_bit 16 f) :: u8)) OR push_bit 8 (ucast (ucast (drop_bit 8 f) :: u8)) OR
      ucast (ucast f :: u8) :: u32) n \<longleftrightarrow> bit f n"
      using hi [of n] by (cases "n < 16") (auto simp: bit_simps not_le)
  qed
qed

text \<open>Conversion to UTC_TIME and back loses less than a millisecond, and nothing of the seconds.\<close>

lemma utc_ms_floor:
  fixes m :: nat
  assumes "m < 1000"
  shows "m - 1 \<le> (m * 2 ^ 24 div 1000) * 1000 div 2 ^ 24" and "(m * 2 ^ 24 div 1000) * 1000 div 2 ^ 24 \<le> m"
    and "m * 2 ^ 24 div 1000 < 2 ^ 24"
proof -
  let ?f = "m * 2 ^ 24 div 1000"
  have "?f * 1000 + m * 2 ^ 24 mod 1000 = m * 2 ^ 24" by (simp only: div_mult_mod_eq)
  moreover have "m * 2 ^ 24 mod 1000 < 1000" by simp
  ultimately have b: "m * 2 ^ 24 < ?f * 1000 + 1000" "?f * 1000 \<le> m * 2 ^ 24" by linarith+
  then show "?f * 1000 div 2 ^ 24 \<le> m" by (metis div_le_mono nonzero_mult_div_cancel_right power_not_zero zero_neq_numeral)
  from b have "(m - 1) * 2 ^ 24 \<le> ?f * 1000" by (cases m) simp_all
  then show "m - 1 \<le> ?f * 1000 div 2 ^ 24" by (simp add: less_eq_div_iff_mult_less_eq)
  show "?f < 2 ^ 24" using assms by (simp add: div_less_iff_less_mult)
qed

lemma u32_to_u64: "unat (ucast (w :: u32) :: u64) = unat w"
  by (simp add: unsigned_ucast_eq take_bit_nat_eq_self order_less_trans [OF unat_u32_less])

lemma unat_frac24:
  fixes ms :: u64
  shows "unat (ms mod 1000 * push_bit 24 1 div 1000) = unat ms mod 1000 * 2 ^ 24 div 1000"
proof -
  have "unat ms mod 1000 * 2 ^ 24 < 2 ^ 64"
    using mod_less_divisor [of 1000 "unat ms"] by simp
  then show ?thesis by (simp add: unat_word_ariths(2) unat_div unat_mod)
qed

lemma secs_frac_no_wrap:
  fixes x y :: u64
  assumes "unat x < 2 ^ 32" and "unat y < 2 ^ 24"
  shows "unat (x * 1000 + y * 1000 div push_bit 24 1) = unat x * 1000 + unat y * 1000 div 2 ^ 24"
proof -
  have x: "unat (x * 1000) = unat x * 1000" and y: "unat (y * 1000) = unat y * 1000"
    using assms by (simp_all add: unat_word_ariths(2))
  moreover have "unat y * 1000 div 2 ^ 24 < 1000" using assms(2) by (simp add: div_less_iff_less_mult)
  ultimately show ?thesis using assms(1) by (simp add: unat_word_ariths(1) unat_div)
qed

lemma utc_time_ms_roundtrip:
  assumes "unat ms div 1000 < 2 ^ 32"
  shows "unat (utc_time_to_ms (ms_to_utc_time ms)) =
    unat ms div 1000 * 1000 + (unat ms mod 1000 * 2 ^ 24 div 1000) * 1000 div 2 ^ 24"
proof -
  let ?m = "unat ms mod 1000" and ?s = "unat ms div 1000"
  let ?secs = "ucast (ms div 1000) :: u32" and ?f = "ucast (ms mod 1000 * push_bit 24 1 div 1000) :: u32"
  have m: "?m < 1000" by simp
  note fl = utc_ms_floor [OF m]
  have "?m * 2 ^ 24 div 1000 < 2 ^ 32" using fl(3) by simp
  then have f: "unat ?f = ?m * 2 ^ 24 div 1000"
    by (simp only: unsigned_ucast_eq unat_frac24) (simp add: take_bit_nat_eq_self)
  have secs: "unat ?secs = ?s"
    using assms by (simp add: unsigned_ucast_eq take_bit_nat_eq_self unat_div)
  obtain a b c d where be: "u32_to_be ?secs = [a, b, c, d]"
    using length_u32_to_be [of ?secs] by (auto simp: length_Suc_conv numeral_eq_Suc simp del: length_u32_to_be)
  then have bytes: "from_be [a, b, c, d] = ?secs" using from_be_u32_to_be [of ?secs] by simp
  have "unat ?f < 2 ^ 24" using fl(3) f by simp
  then have "utc_time_to_ms (ms_to_utc_time ms) = ucast ?secs * 1000 + ucast ?f * 1000 div push_bit 24 1"
    by (simp only: ms_to_utc_time_def Let_def be list.case utc_time_to_ms.simps bytes frac24_bytes)
  moreover have "unat (ucast ?secs :: u64) = ?s" "unat (ucast ?f :: u64) = ?m * 2 ^ 24 div 1000"
    using secs f by (simp_all only: u32_to_u64)
  ultimately show ?thesis
    using assms fl(3) by (simp only: secs_frac_no_wrap)
qed

end
