(* ===== verification/Control_Object.thy ===== *)
theory Control_Object
  imports Control_Model
begin

text \<open>
  The control object of crates/iec61850-server/src/control/object.rs: configuration, the settings read
  from the model, and every operation on the state behind the mutex. An operation is the part of the
  method that runs under the lock; what the method does after it released the lock (report the change
  of the selection, arm the select timer, expire a period) is a list of \<open>follow_up\<close>s, so that the
  interleavings of several tasks can be told apart. Instants are nanoseconds.
\<close>

section \<open>Configuration\<close>

record control_settings =
  cs_ctl_model :: control_model
  cs_sbo_timeout_ms :: u32
  cs_sbo_class :: sbo_class
  cs_oper_timeout_ms :: u32

record control_object_config =
  cc_name :: string
  cc_ln_name :: string
  cc_domain :: string
  cc_ctl_model :: control_model
  cc_sbo_timeout_ms :: u32
  cc_sbo_class :: sbo_class
  cc_oper_timeout_ms :: u32

definition config_new :: "string \<Rightarrow> string \<Rightarrow> string \<Rightarrow> control_model \<Rightarrow> control_object_config" where
  "config_new name ln_name domain ctl_model =
     \<lparr>cc_name = name, cc_ln_name = ln_name, cc_domain = domain, cc_ctl_model = ctl_model,
      cc_sbo_timeout_ms = 30000, cc_sbo_class = OperateOnce, cc_oper_timeout_ms = 0\<rparr>"

text \<open>\<open>Err(InvalidCtlModel)\<close> carries the refused value.\<close>

definition validate_ctl_model :: "i32 \<Rightarrow> i32 + control_model" where
  "validate_ctl_model val =
     (if val = 0 then Inr StatusOnly
      else if val = 1 then Inr DirectNormal
      else if val = 2 then Inr SboNormal
      else if val = 3 then Inr DirectEnhanced
      else if val = 4 then Inr SboEnhanced
      else Inl val)"

definition config_settings :: "control_object_config \<Rightarrow> control_settings" where
  "config_settings c =
     \<lparr>cs_ctl_model = cc_ctl_model c, cs_sbo_timeout_ms = cc_sbo_timeout_ms c, cs_sbo_class = cc_sbo_class c,
      cs_oper_timeout_ms = cc_oper_timeout_ms c\<rparr>"

definition is_sbo :: "control_settings \<Rightarrow> bool" where
  "is_sbo s \<longleftrightarrow> cs_ctl_model s = SboNormal \<or> cs_ctl_model s = SboEnhanced"

section \<open>The configuration attributes of the model\<close>

text \<open>The current value of each bound cell; \<open>None\<close> where the model declares no such attribute.\<close>

record cf_binding =
  cf_ctl_model :: "mms_value option"
  cf_sbo_timeout :: "mms_value option"
  cf_sbo_class :: "mms_value option"
  cf_oper_timeout :: "mms_value option"

definition integer :: "mms_value \<Rightarrow> i64 option" where
  "integer v =
     (case v of
        Integer n \<Rightarrow> Some n
      | Unsigned n \<Rightarrow> if unat n < 2 ^ 63 then Some n else None
      | _ \<Rightarrow> None)"

definition read_cell :: "mms_value option \<Rightarrow> (mms_value \<Rightarrow> 'a option) \<Rightarrow> 'a option" where
  "read_cell cell parse = (case cell of None \<Rightarrow> None | Some v \<Rightarrow> parse v)"

definition parse_ctl_model :: "mms_value \<Rightarrow> control_model option" where
  "parse_ctl_model v =
     (case integer v of
        None \<Rightarrow> None
      | Some n \<Rightarrow>
          if - (2 ^ 31) \<le> sint n \<and> sint n < 2 ^ 31
          then (case validate_ctl_model (ucast n) of Inl _ \<Rightarrow> None | Inr m \<Rightarrow> Some m)
          else None)"

definition parse_sbo_class :: "mms_value \<Rightarrow> sbo_class option" where
  "parse_sbo_class v =
     (case integer v of
        None \<Rightarrow> None
      | Some n \<Rightarrow> if n = 0 then Some OperateOnce else if n = 1 then Some OperateMany else None)"

definition parse_millis :: "mms_value \<Rightarrow> u32 option" where
  "parse_millis v =
     (case integer v of
        None \<Rightarrow> None
      | Some n \<Rightarrow> if 0 \<le> sint n \<and> sint n < 2 ^ 32 then Some (ucast n) else None)"

definition unwrap_or :: "'a option \<Rightarrow> 'a \<Rightarrow> 'a" where
  "unwrap_or x fallback = (case x of None \<Rightarrow> fallback | Some v \<Rightarrow> v)"

definition cf_read :: "cf_binding \<Rightarrow> control_settings \<Rightarrow> control_settings" where
  "cf_read b fallback =
     \<lparr>cs_ctl_model = unwrap_or (read_cell (cf_ctl_model b) parse_ctl_model) (cs_ctl_model fallback),
      cs_sbo_timeout_ms = unwrap_or (read_cell (cf_sbo_timeout b) parse_millis) (cs_sbo_timeout_ms fallback),
      cs_sbo_class = unwrap_or (read_cell (cf_sbo_class b) parse_sbo_class) (cs_sbo_class fallback),
      cs_oper_timeout_ms = unwrap_or (read_cell (cf_oper_timeout b) parse_millis) (cs_oper_timeout_ms fallback)\<rparr>"

section \<open>The state behind the mutex\<close>

text \<open>The abort handle of the timer task is named by the period and the instant the task was armed for.\<close>

record control_inner =
  ci_state :: control_state
  ci_last_oper_params :: "oper_params option"
  ci_owner_conn_id :: u64
  ci_active :: "control_settings option"
  ci_select_time :: "nat option"
  ci_ready_period :: u64
  ci_owner_lost :: bool
  ci_timer :: "(u64 \<times> nat) option"

definition inner_new :: control_inner where
  "inner_new =
     \<lparr>ci_state = Unselected, ci_last_oper_params = None, ci_owner_conn_id = 0, ci_active = None,
      ci_select_time = None, ci_ready_period = 0, ci_owner_lost = False, ci_timer = None\<rparr>"

definition stop_timer :: "control_inner \<Rightarrow> control_inner" where
  "stop_timer g = g\<lparr>ci_timer := None\<rparr>"

definition enter_ready :: "nat \<Rightarrow> u64 \<Rightarrow> control_settings \<Rightarrow> control_inner \<Rightarrow> control_inner \<times> u64" where
  "enter_ready now conn settings g =
     (let period = ci_ready_period g + 1
      in ((stop_timer g)
            \<lparr>ci_state := Ready, ci_owner_conn_id := conn, ci_active := Some settings,
             ci_select_time := Some now, ci_ready_period := period\<rparr>, period))"

definition clear :: "control_inner \<Rightarrow> control_inner \<times> u64" where
  "clear g =
     ((stop_timer g)
        \<lparr>ci_state := Unselected, ci_owner_conn_id := 0, ci_active := None, ci_select_time := None,
         ci_last_oper_params := None, ci_owner_lost := False\<rparr>, ci_owner_conn_id g)"

record selection_change =
  sc_conn_id :: u64
  sc_is_selected :: bool
  sc_reason :: select_reason
  sc_t :: array8
  sc_origin :: origin_value
  sc_ctl_num :: u8

definition change_ended :: "u64 \<Rightarrow> select_reason \<Rightarrow> selection_change" where
  "change_ended conn reason =
     \<lparr>sc_conn_id = conn, sc_is_selected = False, sc_reason = reason, sc_t = Array8 0 0 0 0 0 0 0 0,
      sc_origin = origin_default, sc_ctl_num = 0\<rparr>"

text \<open>What a method still has to do once it has released the lock.\<close>

datatype follow_up = Notify selection_change | Arm u64 u32 | Expire u64

section \<open>The control object\<close>

record control_object =
  co_config :: control_object_config
  co_inner :: control_inner
  co_binding :: "cf_binding option"

definition control_object_new :: "control_object_config \<Rightarrow> control_object" where
  "control_object_new config = \<lparr>co_config = config, co_inner = inner_new, co_binding = None\<rparr>"

definition live_settings :: "control_object \<Rightarrow> control_settings" where
  "live_settings obj =
     (case co_binding obj of
        Some b \<Rightarrow> cf_read b (config_settings (co_config obj))
      | None \<Rightarrow> config_settings (co_config obj))"

definition settings_locked :: "control_object \<Rightarrow> control_settings" where
  "settings_locked obj =
     (case ci_active (co_inner obj) of
        Some active \<Rightarrow> if ci_state (co_inner obj) \<noteq> Unselected then active else live_settings obj
      | None \<Rightarrow> live_settings obj)"

definition object_state :: "control_object \<Rightarrow> control_state" where
  "object_state obj = ci_state (co_inner obj)"

definition object_ref :: "control_object \<Rightarrow> string" where
  "object_ref obj = cc_domain (co_config obj) @ ''/'' @ cc_ln_name (co_config obj) @ ''$CO$'' @ cc_name (co_config obj)"

subsection \<open>Select and deselect\<close>

definition select_change :: "u64 \<Rightarrow> array8 \<Rightarrow> origin_value \<Rightarrow> u8 \<Rightarrow> selection_change" where
  "select_change conn t origin ctl_num =
     \<lparr>sc_conn_id = conn, sc_is_selected = True, sc_reason = Selected, sc_t = t, sc_origin = origin,
      sc_ctl_num = ctl_num\<rparr>"

definition try_select :: "nat \<Rightarrow> u64 \<Rightarrow> control_object \<Rightarrow> control_object \<times> follow_up list \<times> bool" where
  "try_select now conn obj =
     (case ci_state (co_inner obj) of
        Unselected \<Rightarrow>
          (let settings = live_settings obj;
               (g, period) = enter_ready now conn settings (co_inner obj)
           in (obj\<lparr>co_inner := g\<rparr>,
               [Notify (select_change conn (Array8 0 0 0 0 0 0 0 0) origin_default 0),
                Arm period (cs_sbo_timeout_ms settings)], True))
      | _ \<Rightarrow> (obj, [], False))"

definition try_unselect ::
  "u64 \<Rightarrow> select_reason \<Rightarrow> bool \<Rightarrow> control_object \<Rightarrow> control_object \<times> follow_up list \<times> bool" where
  "try_unselect conn reason unconditional obj =
     (let g = co_inner obj
      in if ci_state g \<noteq> Ready then (obj, [], False)
         else if \<not> unconditional \<and> ci_owner_conn_id g \<noteq> conn then (obj, [], False)
         else let (g', owner) = clear g
              in (obj\<lparr>co_inner := g'\<rparr>, [Notify (change_ended owner reason)], True))"

definition millis :: "u32 \<Rightarrow> nat" where
  "millis ms = unat ms * 1000000"

text \<open>The first critical section of \<open>check_sbo_timeout\<close>; the second is the expiry of the period it read.\<close>

definition check_sbo_timeout :: "nat \<Rightarrow> control_object \<Rightarrow> follow_up list" where
  "check_sbo_timeout now obj =
     (let g = co_inner obj
      in case (ci_state g, ci_select_time g, ci_active g) of
           (Ready, Some t, Some active) \<Rightarrow>
             if cs_sbo_timeout_ms active \<noteq> 0 \<and> now - t \<ge> millis (cs_sbo_timeout_ms active)
             then [Expire (ci_ready_period g)] else []
         | _ \<Rightarrow> [])"

text \<open>
  Arming the timer; \<open>runtime\<close> tells whether a tokio runtime is there to spawn the task. The second
  component is the task spawned: it sleeps until its instant and then expires its period.
\<close>

definition arm_select_timer ::
  "bool \<Rightarrow> nat \<Rightarrow> u64 \<Rightarrow> u32 \<Rightarrow> control_object \<Rightarrow> control_object \<times> (u64 \<times> nat) option" where
  "arm_select_timer runtime now period timeout_ms obj =
     (let g = co_inner obj
      in if timeout_ms = 0 then (obj, None)
         else if \<not> runtime then (obj, None)
         else if ci_state g \<noteq> Ready \<or> ci_ready_period g \<noteq> period then (obj, None)
         else let task = (period, now + millis timeout_ms)
              in (obj\<lparr>co_inner := (stop_timer g)\<lparr>ci_timer := Some task\<rparr>\<rparr>, Some task))"

definition expire_selection :: "u64 \<Rightarrow> control_object \<Rightarrow> control_object \<times> follow_up list \<times> bool" where
  "expire_selection period obj =
     (let g = co_inner obj
      in if ci_state g \<noteq> Ready \<or> ci_ready_period g \<noteq> period then (obj, [], False)
         else let (g', owner) = clear g
              in (obj\<lparr>co_inner := g'\<rparr>, [Notify (change_ended owner Timeout)], True))"

subsection \<open>Operate\<close>

datatype operate_begin_result = BeginAccepted | BeginDenied add_cause

definition params_consistent :: "oper_params \<Rightarrow> oper_params \<Rightarrow> bool" where
  "params_consistent oper sbow \<longleftrightarrow>
     mms_value_binary_equal (op_ctl_val oper) (op_ctl_val sbow)
     \<and> op_origin oper = op_origin sbow
     \<and> op_ctl_num oper = op_ctl_num sbow
     \<and> op_interlock_check oper = op_interlock_check sbow
     \<and> op_synchro_check oper = op_synchro_check sbow
     \<and> op_test oper = op_test sbow"

definition begin_operate ::
  "u64 \<Rightarrow> oper_params \<Rightarrow> control_object \<Rightarrow> control_object \<times> follow_up list \<times> operate_begin_result" where
  "begin_operate conn params obj =
     (let g = co_inner obj; settings = settings_locked obj
      in if cs_ctl_model settings = StatusOnly then (obj, [], BeginDenied NotSupported)
         else if \<not> origin_is_valid (op_origin params) then (obj, [], BeginDenied InconsistentParameters)
         else if \<not> is_sbo settings then
           (if ci_state g \<noteq> Unselected then (obj, [], BeginDenied CommandAlreadyInExecution)
            else (obj\<lparr>co_inner := g\<lparr>ci_state := WaitForExecution, ci_owner_conn_id := conn,
                    ci_active := Some settings, ci_last_oper_params := Some params\<rparr>\<rparr>, [], BeginAccepted))
         else if ci_state g \<noteq> Ready then (obj, [], BeginDenied ObjectNotSelected)
         else if ci_owner_conn_id g \<noteq> conn then (obj, [], BeginDenied LockedByOtherClient)
         else if cs_ctl_model settings = SboEnhanced
                 \<and> \<not> (case ci_last_oper_params g of None \<Rightarrow> False | Some sbow \<Rightarrow> params_consistent params sbow)
         then let (g', owner) = clear g
              in (obj\<lparr>co_inner := g'\<rparr>, [Notify (change_ended owner OperateRefused)],
                  BeginDenied InconsistentParameters)
         else (obj\<lparr>co_inner := (stop_timer g)\<lparr>ci_state := WaitForExecution, ci_last_oper_params := Some params\<rparr>\<rparr>,
               [], BeginAccepted))"

definition finish_operate :: "nat \<Rightarrow> control_object \<Rightarrow> control_object \<times> follow_up list" where
  "finish_operate now obj =
     (let g = co_inner obj; settings = settings_locked obj
      in if \<not> is_executing (ci_state g) then (obj, [])
         else if \<not> is_sbo settings then (obj\<lparr>co_inner := fst (clear g)\<rparr>, [])
         else if cs_sbo_class settings = OperateMany \<and> \<not> ci_owner_lost g
         then let (g', period) = enter_ready now (ci_owner_conn_id g) settings g
              in (obj\<lparr>co_inner := g'\<rparr>, [Arm period (cs_sbo_timeout_ms settings)])
         else let reason = (if ci_owner_lost g then Disconnected else OperateDone);
                  (g', owner) = clear g
              in (obj\<lparr>co_inner := g'\<rparr>, [Notify (change_ended owner reason)]))"

definition set_state_operate :: "control_object \<Rightarrow> control_object" where
  "set_state_operate obj =
     (if ci_state (co_inner obj) = WaitForExecution
      then obj\<lparr>co_inner := (co_inner obj)\<lparr>ci_state := Operate\<rparr>\<rparr> else obj)"

definition abort :: "select_reason \<Rightarrow> control_object \<Rightarrow> control_object \<times> follow_up list" where
  "abort reason obj =
     (let held = (ci_state (co_inner obj) \<noteq> Unselected \<and> is_sbo (settings_locked obj));
          (g, owner) = clear (co_inner obj)
      in (obj\<lparr>co_inner := g\<rparr>, if held then [Notify (change_ended owner reason)] else []))"

definition abort_to_unselected :: "control_object \<Rightarrow> control_object \<times> follow_up list" where
  "abort_to_unselected obj = abort OperateRefused obj"

subsection \<open>Select with value, cancel and connection loss\<close>

definition sbow_select ::
  "nat \<Rightarrow> u64 \<Rightarrow> oper_params \<Rightarrow> control_object \<Rightarrow> control_object \<times> follow_up list \<times> (add_cause + unit)" where
  "sbow_select now conn params obj =
     (let state = ci_state (co_inner obj)
      in if state \<noteq> Unselected then
           (obj, [], Inl (if state = Ready then ObjectAlreadySelected else CommandAlreadyInExecution))
         else if \<not> origin_is_valid (op_origin params) then (obj, [], Inl InconsistentParameters)
         else let settings = live_settings obj;
                  (g, period) = enter_ready now conn settings (co_inner obj)
              in (obj\<lparr>co_inner := g\<lparr>ci_last_oper_params := Some params\<rparr>\<rparr>,
                  [Notify (select_change conn (op_t params) (op_origin params) (op_ctl_num params)),
                   Arm period (cs_sbo_timeout_ms settings)], Inr ()))"

datatype cancel_result = CancelAccepted | CancelDenied add_cause

definition try_cancel :: "u64 \<Rightarrow> control_object \<Rightarrow> control_object \<times> follow_up list \<times> cancel_result" where
  "try_cancel conn obj =
     (let g = co_inner obj
      in if is_executing (ci_state g) then (obj, [], CancelDenied CommandAlreadyInExecution)
         else if ci_state g = Ready then
           (if ci_owner_conn_id g \<noteq> conn then (obj, [], CancelDenied LockedByOtherClient)
            else let (g', owner) = clear g
                 in (obj\<lparr>co_inner := g'\<rparr>, [Notify (change_ended owner Canceled)], CancelAccepted))
         else if \<not> is_sbo (settings_locked obj) then (obj, [], CancelDenied NotSupported)
         else (obj, [], CancelAccepted))"

definition on_connection_closed :: "u64 \<Rightarrow> control_object \<Rightarrow> control_object \<times> follow_up list" where
  "on_connection_closed conn obj =
     (let g = co_inner obj
      in if ci_owner_conn_id g \<noteq> conn then (obj, [])
         else case ci_state g of
           Ready \<Rightarrow> (let (g', owner) = clear g in (obj\<lparr>co_inner := g'\<rparr>, [Notify (change_ended owner Disconnected)]))
         | WaitForExecution \<Rightarrow> (obj\<lparr>co_inner := g\<lparr>ci_owner_lost := True\<rparr>\<rparr>, [])
         | Operate \<Rightarrow> (obj\<lparr>co_inner := g\<lparr>ci_owner_lost := True\<rparr>\<rparr>, [])
         | Unselected \<Rightarrow> (obj, []))"

end
