(* ===== verification/Control_Engine.thy ===== *)
theory Control_Engine
  imports Control_Object
begin

text \<open>
  A control object under concurrent use. Several tasks call the methods of Control_Object, whose critical
  sections interleave: a state of the system holds the object, the clock, what each call in progress
  still has to do after it released the lock, the timer tasks spawned, the commands in execution and
  the selection changes the handlers have heard of. The moves of the state behind the mutex are first
  given on their own, as the state machine of IEC 61850-7-2 that object.rs implements; every method makes
  one of them.
\<close>

section \<open>What an observer sees of a critical section\<close>

datatype ctl_event = Internal | SelectedEv u64 "oper_params option" | OperateEv u64 oper_params | EndedEv

text \<open>The connection that holds the object and the parameters it last sent, read off the events, latest first.\<close>

fun claims :: "ctl_event list \<Rightarrow> (u64 \<times> oper_params option) option" where
  "claims [] = None"
| "claims (SelectedEv conn params # tr) = Some (conn, params)"
| "claims (OperateEv conn params # tr) = Some (conn, Some params)"
| "claims (EndedEv # tr) = None"
| "claims (Internal # tr) = claims tr"

text \<open>
  Replays selection changes: an object selected for a connection must next be deselected for that
  connection, an unselected one selected. \<open>None\<close> when they do not fit together.
\<close>

fun replay :: "u64 option \<Rightarrow> selection_change list \<Rightarrow> u64 option option" where
  "replay holder [] = Some holder"
| "replay holder (c # cs) =
     (case holder of
        None \<Rightarrow> if sc_is_selected c then replay (Some (sc_conn_id c)) cs else None
      | Some conn \<Rightarrow> if \<not> sc_is_selected c \<and> sc_conn_id c = conn then replay None cs else None)"

fun notices :: "follow_up list \<Rightarrow> selection_change list" where
  "notices [] = []"
| "notices (Notify c # fs) = c # notices fs"
| "notices (Arm p t # fs) = notices fs"
| "notices (Expire p # fs) = notices fs"

section \<open>The methods as calls\<close>

datatype request =
    SelectReq u64
  | SbowReq u64 oper_params
  | UnselectReq u64 select_reason bool
  | CheckReq
  | CancelReq u64
  | ClosedReq u64

definition released :: "bool \<Rightarrow> ctl_event" where
  "released yes = (if yes then EndedEv else Internal)"

fun request_step :: "nat \<Rightarrow> request \<Rightarrow> control_object \<Rightarrow> control_object \<times> follow_up list \<times> ctl_event" where
  "request_step now (SelectReq conn) obj =
     (case try_select now conn obj of
        (obj', fs, ok) \<Rightarrow> (obj', fs, if ok then SelectedEv conn None else Internal))"
| "request_step now (SbowReq conn params) obj =
     (case sbow_select now conn params obj of
        (obj', fs, r) \<Rightarrow> (obj', fs, if isl r then Internal else SelectedEv conn (Some params)))"
| "request_step now (UnselectReq conn reason unconditional) obj =
     (case try_unselect conn reason unconditional obj of (obj', fs, ok) \<Rightarrow> (obj', fs, released ok))"
| "request_step now CheckReq obj = (obj, check_sbo_timeout now obj, Internal)"
| "request_step now (CancelReq conn) obj =
     (case try_cancel conn obj of (obj', fs, _) \<Rightarrow> (obj', fs, released (fs \<noteq> [])))"
| "request_step now (ClosedReq conn) obj =
     (case on_connection_closed conn obj of (obj', fs) \<Rightarrow> (obj', fs, released (fs \<noteq> [])))"

section \<open>The system\<close>

text \<open>
  A command in execution, an \<open>AcceptedOperate\<close> of control/service.rs: admitted, then answered positively.
  A command not yet answered ends by \<open>abort\<close>, an answered one by \<open>finish_operate\<close>.
\<close>

record command =
  cm_conn :: u64
  cm_params :: oper_params
  cm_settings :: control_settings
  cm_answered :: bool

record ctl_sys =
  sy_obj :: control_object
  sy_now :: nat
  sy_calls :: "follow_up list list"
  sy_tasks :: "(u64 \<times> nat) list"
  sy_cmds :: "command list"
  sy_delivered :: "selection_change list"

definition ctl_init :: "control_object_config \<Rightarrow> ctl_sys" where
  "ctl_init config =
     \<lparr>sy_obj = control_object_new config, sy_now = 0, sy_calls = [], sy_tasks = [], sy_cmds = [], sy_delivered = []\<rparr>"

definition without :: "nat \<Rightarrow> 'a list \<Rightarrow> 'a list" where
  "without i xs = take i xs @ drop (Suc i) xs"

definition admitted :: "u64 \<Rightarrow> oper_params \<Rightarrow> control_object \<Rightarrow> command" where
  "admitted conn params obj =
     \<lparr>cm_conn = conn, cm_params = params, cm_settings = settings_locked obj, cm_answered = False\<rparr>"

definition begin_event :: "u64 \<Rightarrow> oper_params \<Rightarrow> follow_up list \<Rightarrow> operate_begin_result \<Rightarrow> ctl_event" where
  "begin_event conn params fs r =
     (case r of BeginAccepted \<Rightarrow> OperateEv conn params | BeginDenied _ \<Rightarrow> released (fs \<noteq> []))"

text \<open>
  One step of some task; \<open>runtime\<close> tells whether timers can be spawned. A timer task that woke up may be
  too late for its abort, so a task once spawned can always fire after its instant.
\<close>

inductive ctl_step :: "bool \<Rightarrow> ctl_sys \<Rightarrow> ctl_event \<Rightarrow> selection_change list \<Rightarrow> ctl_sys \<Rightarrow> bool" for runtime where
  tick: "ctl_step runtime s Internal [] (s\<lparr>sy_now := sy_now s + d\<rparr>)"
| cf_write: "ctl_step runtime s Internal [] (s\<lparr>sy_obj := (sy_obj s)\<lparr>co_binding := b\<rparr>\<rparr>)"
| request: "request_step (sy_now s) r (sy_obj s) = (obj, fs, e) \<Longrightarrow>
    ctl_step runtime s e (notices fs) (s\<lparr>sy_obj := obj, sy_calls := fs # sy_calls s\<rparr>)"
| admit: "begin_operate conn params (sy_obj s) = (obj, fs, r) \<Longrightarrow>
    ctl_step runtime s (begin_event conn params fs r) (notices fs)
      (s\<lparr>sy_obj := obj, sy_calls := fs # sy_calls s,
         sy_cmds := (if r = BeginAccepted then admitted conn params obj # sy_cmds s else sy_cmds s)\<rparr>)"
| answer: "i < length (sy_cmds s) \<Longrightarrow>
    ctl_step runtime s Internal [] (s\<lparr>sy_cmds := (sy_cmds s)[i := (sy_cmds s ! i)\<lparr>cm_answered := True\<rparr>]\<rparr>)"
| start: "i < length (sy_cmds s) \<Longrightarrow> cm_answered (sy_cmds s ! i) \<Longrightarrow>
    ctl_step runtime s Internal [] (s\<lparr>sy_obj := set_state_operate (sy_obj s)\<rparr>)"
| finish: "i < length (sy_cmds s) \<Longrightarrow> cm_answered (sy_cmds s ! i) \<Longrightarrow>
    finish_operate (sy_now s) (sy_obj s) = (obj, fs) \<Longrightarrow>
    ctl_step runtime s (released (ci_state (co_inner obj) = Unselected)) (notices fs)
      (s\<lparr>sy_obj := obj, sy_calls := fs # sy_calls s, sy_cmds := without i (sy_cmds s)\<rparr>)"
| give_up: "i < length (sy_cmds s) \<Longrightarrow> \<not> cm_answered (sy_cmds s ! i) \<Longrightarrow>
    abort reason (sy_obj s) = (obj, fs) \<Longrightarrow>
    ctl_step runtime s EndedEv (notices fs)
      (s\<lparr>sy_obj := obj, sy_calls := fs # sy_calls s, sy_cmds := without i (sy_cmds s)\<rparr>)"
| deliver: "i < length (sy_calls s) \<Longrightarrow> sy_calls s ! i = Notify c # fs \<Longrightarrow>
    ctl_step runtime s Internal []
      (s\<lparr>sy_calls := (sy_calls s)[i := fs], sy_delivered := sy_delivered s @ [c]\<rparr>)"
| arm: "i < length (sy_calls s) \<Longrightarrow> sy_calls s ! i = Arm p t # fs \<Longrightarrow>
    arm_select_timer runtime (sy_now s) p t (sy_obj s) = (obj, task) \<Longrightarrow>
    ctl_step runtime s Internal []
      (s\<lparr>sy_obj := obj, sy_calls := (sy_calls s)[i := fs], sy_tasks := (case task of None \<Rightarrow> [] | Some k \<Rightarrow> [k]) @ sy_tasks s\<rparr>)"
| expire: "i < length (sy_calls s) \<Longrightarrow> sy_calls s ! i = Expire p # fs \<Longrightarrow>
    expire_selection p (sy_obj s) = (obj, fs', ok) \<Longrightarrow>
    ctl_step runtime s (released ok) (notices fs')
      (s\<lparr>sy_obj := obj, sy_calls := (sy_calls s)[i := fs' @ fs]\<rparr>)"
| fire: "(p, deadline) \<in> set (sy_tasks s) \<Longrightarrow> deadline \<le> sy_now s \<Longrightarrow>
    expire_selection p (sy_obj s) = (obj, fs, ok) \<Longrightarrow>
    ctl_step runtime s (released ok) (notices fs) (s\<lparr>sy_obj := obj, sy_calls := fs # sy_calls s\<rparr>)"

text \<open>Runs, with the events latest first and the selection changes in the order of the critical sections.\<close>

inductive ctl_run :: "bool \<Rightarrow> control_object_config \<Rightarrow> ctl_event list \<Rightarrow> selection_change list \<Rightarrow> ctl_sys \<Rightarrow> bool"
  for runtime config where
  init: "ctl_run runtime config [] [] (ctl_init config)"
| step: "ctl_run runtime config tr log s \<Longrightarrow> ctl_step runtime s e cs s' \<Longrightarrow>
    ctl_run runtime config (e # tr) (log @ cs) s'"

section \<open>The moves of the state\<close>

inductive move :: "nat \<Rightarrow> control_settings \<Rightarrow> control_inner \<Rightarrow> follow_up list \<Rightarrow> ctl_event \<Rightarrow> control_inner \<Rightarrow> bool"
  for now live where
  stay: "move now live g [] Internal g"
| look: "ci_state g = Ready \<Longrightarrow> ci_select_time g = Some t \<Longrightarrow> ci_active g = Some a \<Longrightarrow>
    cs_sbo_timeout_ms a \<noteq> 0 \<Longrightarrow> millis (cs_sbo_timeout_ms a) \<le> now - t \<Longrightarrow>
    move now live g [Expire (ci_ready_period g)] Internal g"
| take: "ci_state g = Unselected \<Longrightarrow> enter_ready now conn live g = (g', period) \<Longrightarrow>
    sc_is_selected c \<Longrightarrow> sc_conn_id c = conn \<Longrightarrow>
    move now live g [Notify c, Arm period (cs_sbo_timeout_ms live)] (SelectedEv conn None) g'"
| take_with: "ci_state g = Unselected \<Longrightarrow> enter_ready now conn live g = (g', period) \<Longrightarrow>
    sc_is_selected c \<Longrightarrow> sc_conn_id c = conn \<Longrightarrow>
    move now live g [Notify c, Arm period (cs_sbo_timeout_ms live)] (SelectedEv conn (Some params))
      (g'\<lparr>ci_last_oper_params := Some params\<rparr>)"
| renew: "is_executing (ci_state g) \<Longrightarrow> \<not> ci_owner_lost g \<Longrightarrow> ci_active g = Some a \<Longrightarrow> is_sbo a \<Longrightarrow>
    enter_ready now (ci_owner_conn_id g) a g = (g', period) \<Longrightarrow>
    move now live g [Arm period (cs_sbo_timeout_ms a)] Internal g'"
| drop: "ci_state g = Ready \<Longrightarrow> move now live g [Notify (change_ended (ci_owner_conn_id g) reason)] EndedEv (fst (clear g))"
| quit: "is_executing (ci_state g) \<Longrightarrow> ci_active g = Some a \<Longrightarrow>
    fs = (if is_sbo a then [Notify (change_ended (ci_owner_conn_id g) reason)] else []) \<Longrightarrow>
    move now live g fs EndedEv (fst (clear g))"
| direct: "ci_state g = Unselected \<Longrightarrow> \<not> is_sbo live \<Longrightarrow>
    move now live g [] (OperateEv conn params)
      (g\<lparr>ci_state := WaitForExecution, ci_owner_conn_id := conn, ci_active := Some live,
         ci_last_oper_params := Some params\<rparr>)"
| run: "ci_state g = Ready \<Longrightarrow> ci_active g = Some a \<Longrightarrow> is_sbo a \<Longrightarrow>
    (cs_ctl_model a = SboEnhanced \<Longrightarrow> \<exists>sbow. ci_last_oper_params g = Some sbow \<and> params_consistent params sbow) \<Longrightarrow>
    move now live g [] (OperateEv (ci_owner_conn_id g) params)
      ((stop_timer g)\<lparr>ci_state := WaitForExecution, ci_last_oper_params := Some params\<rparr>)"
| begin_run: "ci_state g = WaitForExecution \<Longrightarrow> move now live g [] Internal (g\<lparr>ci_state := Operate\<rparr>)"
| lose: "is_executing (ci_state g) \<Longrightarrow> move now live g [] Internal (g\<lparr>ci_owner_lost := True\<rparr>)"

section \<open>Every method makes a move\<close>

definition object_inv :: "control_inner \<Rightarrow> bool" where
  "object_inv g =
     (case ci_state g of
        Unselected \<Rightarrow>
          ci_owner_conn_id g = 0 \<and> ci_active g = None \<and> ci_select_time g = None \<and> ci_last_oper_params g = None
          \<and> \<not> ci_owner_lost g \<and> ci_timer g = None
      | Ready \<Rightarrow>
          ci_active g \<noteq> None \<and> ci_select_time g \<noteq> None \<and> \<not> ci_owner_lost g
          \<and> (case ci_timer g of None \<Rightarrow> True | Some (period, _) \<Rightarrow> period = ci_ready_period g)
      | _ \<Rightarrow> ci_active g \<noteq> None \<and> ci_last_oper_params g \<noteq> None \<and> ci_timer g = None)"

lemmas inner_defs = stop_timer_def enter_ready_def clear_def Let_def

lemma object_inv_new [simp]: "object_inv inner_new"
  by (simp add: object_inv_def inner_new_def)

lemma object_inv_active:
  assumes "object_inv g" and "ci_state g \<noteq> Unselected"
  obtains a where "ci_active g = Some a"
  using assms by (auto simp: object_inv_def split: control_state.splits)

lemma settings_locked_active:
  "ci_state (co_inner obj) \<noteq> Unselected \<Longrightarrow> ci_active (co_inner obj) = Some a \<Longrightarrow> settings_locked obj = a"
  by (simp add: settings_locked_def)

lemma settings_locked_live [simp]:
  "ci_state (co_inner obj) = Unselected \<Longrightarrow> settings_locked obj = live_settings obj"
  by (simp add: settings_locked_def split: option.splits)

lemma change_fields [simp]:
  "sc_is_selected (select_change conn t origin num)" "sc_conn_id (select_change conn t origin num) = conn"
  "\<not> sc_is_selected (change_ended conn reason)" "sc_conn_id (change_ended conn reason) = conn"
  by (simp_all add: select_change_def change_ended_def)

lemma snd_clear [simp]: "snd (clear g) = ci_owner_conn_id g"
  by (simp add: clear_def)

lemma clear_state [simp]: "ci_state (fst (clear g)) = Unselected"
  by (simp add: clear_def)

abbreviation moves :: "nat \<Rightarrow> control_object \<Rightarrow> follow_up list \<Rightarrow> ctl_event \<Rightarrow> control_object \<Rightarrow> bool" where
  "moves now obj fs e obj' \<equiv>
     move now (live_settings obj) (co_inner obj) fs e (co_inner obj')
     \<and> co_config obj' = co_config obj \<and> co_binding obj' = co_binding obj"

lemma try_select_moves:
  "try_select now conn obj = (obj', fs, ok) \<Longrightarrow> moves now obj fs (if ok then SelectedEv conn None else Internal) obj'"
  by (auto simp: try_select_def Let_def split: control_state.splits prod.splits intro: move.stay move.take)

lemma sbow_select_moves:
  "sbow_select now conn params obj = (obj', fs, r) \<Longrightarrow>
   moves now obj fs (if isl r then Internal else SelectedEv conn (Some params)) obj'"
  by (auto simp: sbow_select_def Let_def split: if_splits prod.splits intro!: move.stay move.take_with)

lemma try_unselect_moves:
  "try_unselect conn reason u obj = (obj', fs, ok) \<Longrightarrow> moves now obj fs (released ok) obj'"
  by (auto simp: try_unselect_def Let_def released_def case_prod_beta split: if_splits intro: move.stay move.drop)

lemma expire_selection_moves:
  "expire_selection p obj = (obj', fs, ok) \<Longrightarrow> moves now obj fs (released ok) obj'"
  by (auto simp: expire_selection_def Let_def released_def case_prod_beta split: if_splits intro: move.stay move.drop)

lemma check_sbo_timeout_moves: "moves now obj (check_sbo_timeout now obj) Internal obj"
  by (auto simp: check_sbo_timeout_def Let_def split: control_state.splits option.splits intro: move.stay move.look)

lemma try_cancel_moves:
  "try_cancel conn obj = (obj', fs, r) \<Longrightarrow> moves now obj fs (released (fs \<noteq> [])) obj'"
  by (auto simp: try_cancel_def Let_def released_def case_prod_beta split: if_splits intro: move.stay move.drop)

lemma on_connection_closed_moves:
  "on_connection_closed conn obj = (obj', fs) \<Longrightarrow> moves now obj fs (released (fs \<noteq> [])) obj'"
  by (auto simp: on_connection_closed_def Let_def released_def case_prod_beta split: if_splits control_state.splits
      intro!: move.stay move.drop move.lose)

lemma request_moves:
  "request_step now r obj = (obj', fs, e) \<Longrightarrow> moves now obj fs e obj'"
  by (cases r) (auto split: prod.splits dest: try_select_moves sbow_select_moves try_unselect_moves
      try_cancel_moves on_connection_closed_moves intro: check_sbo_timeout_moves [THEN conjunct1])

lemma begin_operate_moves:
  assumes "begin_operate conn params obj = (obj', fs, r)" and inv: "object_inv (co_inner obj)"
  shows "moves now obj fs (begin_event conn params fs r) obj'"
proof (cases "ci_state (co_inner obj) = Unselected")
  case True
  then show ?thesis
    using assms(1) by (auto simp: begin_operate_def Let_def begin_event_def released_def split: if_splits
        intro!: move.stay move.direct)
next
  case False
  then obtain a where a: "ci_active (co_inner obj) = Some a" by (rule object_inv_active [OF inv])
  note s = settings_locked_active [OF False a]
  show ?thesis
    using assms(1) False a by (auto simp: begin_operate_def Let_def begin_event_def released_def s case_prod_beta
        split: if_splits option.splits intro!: move.stay move.drop move.run)
qed

lemma finish_operate_moves:
  assumes "finish_operate now obj = (obj', fs)" and inv: "object_inv (co_inner obj)"
    and ex: "is_executing (ci_state (co_inner obj))"
  shows "moves now obj fs (released (ci_state (co_inner obj') = Unselected)) obj'"
proof -
  from ex have ne: "ci_state (co_inner obj) \<noteq> Unselected" by auto
  then obtain a where a: "ci_active (co_inner obj) = Some a" by (rule object_inv_active [OF inv])
  note s = settings_locked_active [OF ne a]
  consider "\<not> is_sbo a" | "is_sbo a" "cs_sbo_class a = OperateMany" "\<not> ci_owner_lost (co_inner obj)"
    | "is_sbo a" "\<not> (cs_sbo_class a = OperateMany \<and> \<not> ci_owner_lost (co_inner obj))" by blast
  then show ?thesis
  proof cases
    case 1
    then show ?thesis
      using assms(1) ex a move.quit [OF ex a refl] by (auto simp: finish_operate_def Let_def s released_def)
  next
    case 2
    then show ?thesis
      using assms(1) ex a by (auto simp: finish_operate_def Let_def s released_def enter_ready_def
          intro!: move.renew)
  next
    case 3
    then show ?thesis
      using assms(1) ex a move.quit [OF ex a refl]
      by (auto simp: finish_operate_def Let_def s released_def case_prod_beta split: if_splits)
  qed
qed

lemma abort_moves:
  assumes "abort reason obj = (obj', fs)" and inv: "object_inv (co_inner obj)"
    and ex: "is_executing (ci_state (co_inner obj))"
  shows "moves now obj fs EndedEv obj'"
proof -
  from ex have ne: "ci_state (co_inner obj) \<noteq> Unselected" by auto
  then obtain a where a: "ci_active (co_inner obj) = Some a" by (rule object_inv_active [OF inv])
  show ?thesis
    using assms(1) ne a move.quit [where reason = reason, OF ex a refl]
    by (auto simp: abort_def Let_def settings_locked_active [OF ne a] case_prod_beta split: if_splits)
qed

lemma set_state_operate_moves: "moves now obj [] Internal (set_state_operate obj)"
  by (auto simp: set_state_operate_def intro!: move.stay move.begin_run)

section \<open>What a move keeps\<close>

definition holder :: "control_inner \<Rightarrow> (u64 \<times> oper_params option) option" where
  "holder g = (if ci_state g = Unselected then None else Some (ci_owner_conn_id g, ci_last_oper_params g))"

text \<open>The connection whose selection has been reported and not yet been reported as ended.\<close>

definition announced :: "control_inner \<Rightarrow> u64 option" where
  "announced g =
     (if ci_state g = Ready \<or> is_executing (ci_state g) \<and> (case ci_active g of None \<Rightarrow> False | Some a \<Rightarrow> is_sbo a)
      then Some (ci_owner_conn_id g) else None)"

lemma move_inv:
  "move now live g fs e g' \<Longrightarrow> object_inv g \<Longrightarrow> object_inv g'"
  by (erule move.cases) (auto simp: object_inv_def inner_defs split: control_state.splits)

lemma move_claims:
  "move now live g fs e g' \<Longrightarrow> object_inv g \<Longrightarrow> claims tr = holder g \<Longrightarrow> claims (e # tr) = holder g'"
  by (erule move.cases) (auto simp: object_inv_def holder_def inner_defs split: control_state.splits)

lemma replay_append: "replay h (xs @ ys) = Option.bind (replay h xs) (\<lambda>h'. replay h' ys)"
  by (induction xs arbitrary: h) (auto split: option.splits)

lemma move_replay:
  assumes "move now live g fs e g'" and "object_inv g" and "replay None log = Some (announced g)"
  shows "replay None (log @ notices fs) = Some (announced g')"
  using assms by (cases rule: move.cases)
    (auto simp: replay_append object_inv_def announced_def inner_defs split: control_state.splits option.splits)

section \<open>The invariant of the system\<close>

definition commands_inv :: "control_inner \<Rightarrow> command list \<Rightarrow> bool" where
  "commands_inv g cmds =
     (case cmds of
        [] \<Rightarrow> \<not> is_executing (ci_state g)
      | [c] \<Rightarrow>
          is_executing (ci_state g) \<and> cm_conn c = ci_owner_conn_id g \<and> ci_last_oper_params g = Some (cm_params c)
          \<and> ci_active g = Some (cm_settings c) \<and> (ci_state g = Operate \<longrightarrow> cm_answered c)
      | _ \<Rightarrow> False)"

definition control_inv :: "ctl_event list \<Rightarrow> selection_change list \<Rightarrow> ctl_sys \<Rightarrow> bool" where
  "control_inv tr log s \<longleftrightarrow>
     object_inv (co_inner (sy_obj s)) \<and> commands_inv (co_inner (sy_obj s)) (sy_cmds s)
     \<and> claims tr = holder (co_inner (sy_obj s)) \<and> replay None log = Some (announced (co_inner (sy_obj s)))"

text \<open>A request and an expiry leave a command in execution alone, and start none.\<close>

definition command_kept :: "control_inner \<Rightarrow> control_inner \<Rightarrow> bool" where
  "command_kept g g' \<longleftrightarrow>
     (if is_executing (ci_state g)
      then ci_state g' = ci_state g \<and> ci_owner_conn_id g' = ci_owner_conn_id g
        \<and> ci_last_oper_params g' = ci_last_oper_params g \<and> ci_active g' = ci_active g
      else \<not> is_executing (ci_state g'))"

lemma request_keeps_command:
  "request_step now r obj = (obj', fs, e) \<Longrightarrow> command_kept (co_inner obj) (co_inner obj')"
  by (cases r) (auto simp: command_kept_def try_select_def sbow_select_def try_unselect_def try_cancel_def
      on_connection_closed_def inner_defs split: prod.splits if_splits control_state.splits)

lemma expire_keeps_command:
  "expire_selection p obj = (obj', fs, ok) \<Longrightarrow> command_kept (co_inner obj) (co_inner obj')"
  by (auto simp: command_kept_def expire_selection_def inner_defs split: if_splits)

lemma kept_commands_inv: "command_kept g g' \<Longrightarrow> commands_inv g cmds \<Longrightarrow> commands_inv g' cmds"
  by (auto simp: command_kept_def commands_inv_def split: list.splits if_splits)

lemma commands_inv_at:
  assumes "commands_inv g cmds" and "i < length cmds"
  shows "cmds = [cmds ! i]" and "i = 0" and "is_executing (ci_state g)"
  using assms by (auto simp: commands_inv_def split: list.splits)

lemma moved_inv:
  assumes "control_inv tr log s" and "moves now (sy_obj s) fs e obj" and "commands_inv (co_inner obj) cmds"
    and "sy_obj s' = obj" "sy_cmds s' = cmds"
  shows "control_inv (e # tr) (log @ notices fs) s'"
  using assms unfolding control_inv_def by (blast intro: move_inv move_claims move_replay)

lemma same_inner_inv:
  assumes "control_inv tr log s" and "co_inner (sy_obj s') = co_inner (sy_obj s)" and "sy_cmds s' = sy_cmds s"
  shows "control_inv (Internal # tr) (log @ []) s'"
  using assms by (simp add: control_inv_def)

lemma arm_inv:
  assumes "arm_select_timer runtime now p t obj = (obj', task)" and "object_inv (co_inner obj)"
  shows "object_inv (co_inner obj') \<and> holder (co_inner obj') = holder (co_inner obj)
    \<and> announced (co_inner obj') = announced (co_inner obj) \<and> command_kept (co_inner obj) (co_inner obj')"
  using assms by (auto simp: arm_select_timer_def object_inv_def holder_def announced_def command_kept_def inner_defs
      split: if_splits)

lemma begin_commands_inv:
  assumes "begin_operate conn params obj = (obj', fs, r)" and "object_inv (co_inner obj)"
    and "commands_inv (co_inner obj) cmds"
  shows "commands_inv (co_inner obj') (if r = BeginAccepted then admitted conn params obj' # cmds else cmds)"
  using assms
  by (auto simp: begin_operate_def commands_inv_def admitted_def settings_locked_def object_inv_def inner_defs
      split: if_splits list.splits option.splits)

lemma finish_not_executing:
  "finish_operate now obj = (obj', fs) \<Longrightarrow> \<not> is_executing (ci_state (co_inner obj'))"
  by (auto simp: finish_operate_def inner_defs split: if_splits)

lemma control_inv_parts:
  assumes "control_inv tr log s"
  shows "object_inv (co_inner (sy_obj s))" and "commands_inv (co_inner (sy_obj s)) (sy_cmds s)"
  using assms by (simp_all add: control_inv_def)

lemma kept_inv:
  assumes "control_inv tr log s" and "moves now (sy_obj s) fs e (sy_obj s')"
    and "command_kept (co_inner (sy_obj s)) (co_inner (sy_obj s'))" and "sy_cmds s' = sy_cmds s"
  shows "control_inv (e # tr) (log @ notices fs) s'"
  using moved_inv [OF assms(1,2) _ refl assms(4)] kept_commands_inv [OF assms(3)] control_inv_parts(2) [OF assms(1)]
  by blast

lemma ended_command_inv:
  assumes inv: "control_inv tr log s" and i: "i < length (sy_cmds s)"
    and mv: "moves now (sy_obj s) fs e (sy_obj s')" and ex: "\<not> is_executing (ci_state (co_inner (sy_obj s')))"
    and cmds: "sy_cmds s' = without i (sy_cmds s)"
  shows "control_inv (e # tr) (log @ notices fs) s'"
proof -
  note at = commands_inv_at [OF control_inv_parts(2) [OF inv] i]
  have "without i (sy_cmds s) = []" using at(2) by (subst at(1)) (simp add: without_def)
  then have "commands_inv (co_inner (sy_obj s')) (sy_cmds s')" using cmds ex by (simp add: commands_inv_def)
  then show ?thesis by (rule moved_inv [OF inv mv _ refl refl])
qed

lemma answered_inv:
  assumes inv: "control_inv tr log s" and i: "i < length (sy_cmds s)"
  shows "control_inv (Internal # tr) (log @ [])
    (s\<lparr>sy_cmds := (sy_cmds s)[i := (sy_cmds s ! i)\<lparr>cm_answered := True\<rparr>]\<rparr>)"
  using inv i by (auto simp: control_inv_def commands_inv_def split: list.splits)

lemma started_inv:
  assumes inv: "control_inv tr log s" and i: "i < length (sy_cmds s)" and "cm_answered (sy_cmds s ! i)"
  shows "control_inv (Internal # tr) (log @ []) (s\<lparr>sy_obj := set_state_operate (sy_obj s)\<rparr>)"
proof -
  have "commands_inv (co_inner (set_state_operate (sy_obj s))) (sy_cmds s)"
    using control_inv_parts(2) [OF inv] assms(2,3)
    by (auto simp: commands_inv_def set_state_operate_def split: list.splits)
  then show ?thesis
    using moved_inv [OF inv set_state_operate_moves [of 0 "sy_obj s"]] by simp
qed

lemma step_control_inv:
  assumes "ctl_step runtime s e cs s'" and inv: "control_inv tr log s"
  shows "control_inv (e # tr) (log @ cs) s'"
  using assms(1)
proof cases
  case (tick d)
  then show ?thesis using same_inner_inv [OF inv, of s'] by simp
next
  case (cf_write b)
  then show ?thesis using same_inner_inv [OF inv, of s'] by simp
next
  case (request r obj fs)
  then show ?thesis
    using kept_inv [OF inv, of "sy_now s" fs e s'] request_moves [OF request(3)] request_keeps_command [OF request(3)]
    by simp
next
  case (admit conn params obj fs r)
  then show ?thesis
    using moved_inv [OF inv begin_operate_moves [OF admit(4) control_inv_parts(1) [OF inv], of 0]
        begin_commands_inv [OF admit(4) control_inv_parts [OF inv]]] by simp
next
  case (answer i)
  then show ?thesis by (simp only: answered_inv [OF inv])
next
  case (start i)
  then show ?thesis by (simp only: started_inv [OF inv])
next
  case (finish i obj fs)
  then show ?thesis
    using ended_command_inv [OF inv finish(4), of "sy_now s" fs e s'] finish_not_executing [OF finish(6)]
      finish_operate_moves [OF finish(6) control_inv_parts(1) [OF inv] commands_inv_at(3) [OF control_inv_parts(2) [OF inv] finish(4)]]
    by simp
next
  case (give_up i reason obj fs)
  have "\<not> is_executing (ci_state (co_inner obj))"
    using give_up(6) by (auto simp: abort_def inner_defs split: if_splits)
  with give_up show ?thesis
    using ended_command_inv [OF inv give_up(4), of 0 fs e s']
      abort_moves [OF give_up(6) control_inv_parts(1) [OF inv] commands_inv_at(3) [OF control_inv_parts(2) [OF inv] give_up(4)], of 0]
    by simp
next
  case (deliver i c fs)
  then show ?thesis using same_inner_inv [OF inv, of s'] by simp
next
  case (arm i p t fs obj task)
  then show ?thesis
    using inv arm_inv [OF arm(6) control_inv_parts(1) [OF inv]] kept_commands_inv
    by (auto simp: control_inv_def)
next
  case (expire i p fs obj fs' ok)
  then show ?thesis
    using kept_inv [OF inv, of 0 fs' e s'] expire_selection_moves [OF expire(6), of 0] expire_keeps_command [OF expire(6)] by simp
next
  case (fire p deadline obj fs ok)
  then show ?thesis
    using kept_inv [OF inv, of 0 fs e s'] expire_selection_moves [OF fire(6), of 0] expire_keeps_command [OF fire(6)] by simp
qed

lemma control_inv_init: "control_inv [] [] (ctl_init config)"
  by (simp add: control_inv_def ctl_init_def control_object_new_def commands_inv_def holder_def announced_def inner_new_def
      object_inv_def)

lemma run_control_inv: "ctl_run runtime config tr log s \<Longrightarrow> control_inv tr log s"
  by (induction rule: ctl_run.induct) (auto intro: control_inv_init step_control_inv simp del: claims.simps)

section \<open>Accepted commands\<close>

lemma begin_accepted:
  assumes "begin_operate conn params obj = (obj', fs, BeginAccepted)" and inv: "object_inv (co_inner obj)"
  shows "settings_locked obj' = settings_locked obj"
    and "is_sbo (settings_locked obj) \<Longrightarrow> ci_state (co_inner obj) = Ready \<and> ci_owner_conn_id (co_inner obj) = conn"
    and "cs_ctl_model (settings_locked obj) = SboEnhanced \<Longrightarrow>
      \<exists>sbow. ci_last_oper_params (co_inner obj) = Some sbow \<and> params_consistent params sbow"
    and "\<not> is_sbo (settings_locked obj) \<Longrightarrow> ci_state (co_inner obj) = Unselected"
  using assms by (auto simp: begin_operate_def inner_defs settings_locked_def object_inv_def is_sbo_def
      split: if_splits option.splits control_state.splits)

lemma request_no_operate: "request_step now r obj = (obj', fs, e) \<Longrightarrow> e \<noteq> OperateEv conn params"
  by (cases r) (auto simp: released_def split: prod.splits if_splits)

lemma operate_step:
  assumes "ctl_step runtime s (OperateEv conn params) cs s'"
  obtains obj fs where "begin_operate conn params (sy_obj s) = (obj, fs, BeginAccepted)"
    and "sy_obj s' = obj" and "sy_cmds s' = admitted conn params obj # sy_cmds s"
  using assms by (cases rule: ctl_step.cases)
    (auto simp: begin_event_def released_def split: operate_begin_result.splits if_splits dest: request_no_operate)

section \<open>A sample object\<close>

text \<open>A circuit breaker under select-before-operate, selected by connection 1 and then operated.\<close>

definition sample_config :: control_object_config where
  "sample_config = config_new ''Pos'' ''XCBR1'' ''IED1LD0'' SboNormal"

definition sample_params :: oper_params where
  "sample_params =
     \<lparr>op_ctl_val = Boolean True, op_oper_tm_ms = 0, op_origin = \<lparr>or_cat = 3, or_ident = []\<rparr>, op_ctl_num = 1,
      op_t = Array8 0 0 0 0 0 0 0 0, op_test = False, op_synchro_check = False, op_interlock_check = False\<rparr>"

definition sample_selection :: selection_change where
  "sample_selection = select_change 1 (Array8 0 0 0 0 0 0 0 0) origin_default 0"

definition sample_object :: control_object where
  "sample_object =
     \<lparr>co_config = sample_config,
      co_inner = \<lparr>ci_state = Ready, ci_last_oper_params = None, ci_owner_conn_id = 1,
        ci_active = Some (config_settings sample_config), ci_select_time = Some 0, ci_ready_period = 1,
        ci_owner_lost = False, ci_timer = None\<rparr>,
      co_binding = None\<rparr>"

definition sample_selected :: ctl_sys where
  "sample_selected =
     (ctl_init sample_config)\<lparr>sy_obj := sample_object, sy_calls := [[Notify sample_selection, Arm 1 30000]]\<rparr>"

lemmas sample_defs = sample_config_def config_new_def config_settings_def sample_params_def sample_selection_def
  sample_object_def sample_selected_def ctl_init_def control_object_new_def inner_new_def

lemma sample_run: "ctl_run runtime sample_config [SelectedEv 1 None] [sample_selection] sample_selected"
proof -
  have r: "request_step (sy_now (ctl_init sample_config)) (SelectReq 1) (sy_obj (ctl_init sample_config)) =
    (sample_object, [Notify sample_selection, Arm 1 30000], SelectedEv 1 None)"
    by (simp add: sample_defs try_select_def live_settings_def inner_defs)
  show ?thesis
    using ctl_run.step [OF ctl_run.init ctl_step.request [OF r]] by (simp add: sample_selected_def ctl_init_def)
qed

lemma sample_operates:
  obtains s where "ctl_run runtime sample_config [OperateEv 1 sample_params, SelectedEv 1 None] [sample_selection] s"
proof -
  obtain obj fs where b: "begin_operate 1 sample_params (sy_obj sample_selected) = (obj, fs, BeginAccepted)" "fs = []"
    by (simp add: sample_defs begin_operate_def settings_locked_def is_sbo_def origin_is_valid_def inner_defs)
  from ctl_run.step [OF sample_run ctl_step.admit [OF b(1)]] b(2) show thesis
    by (auto simp: begin_event_def intro: that)
qed

section \<open>Properties\<close>

text \<open>
  C2. In every reachable state of a control object under concurrent use the object is well formed: an
  unselected object holds no owner, settings, parameters or timer; a selected one holds the settings and
  the instant of its selection, and a timer only for the current ready period; an executing one holds its
  parameters and no timer. An object is executing exactly while one command is in flight, whose
  connection, parameters and settings are those the object holds.
\<close>

theorem control_invariant:
  "ctl_run runtime config tr log s \<Longrightarrow>
     object_inv (co_inner (sy_obj s)) \<and> commands_inv (co_inner (sy_obj s)) (sy_cmds s)"
  using control_inv_parts [OF run_control_inv] by simp

theorem control_invariant_witness:
  "object_inv (co_inner (sy_obj sample_selected)) \<and> commands_inv (co_inner (sy_obj sample_selected)) (sy_cmds sample_selected)"
  by (rule control_invariant [OF sample_run])

text \<open>
  C8. An Operate is accepted only for whom the object is: under select-before-operate the connection
  that, by the events so far, last selected or operated the object and has not lost it since, with
  enhanced security moreover with parameters consistent with those it last sent; under direct control
  only when nobody holds the object. The accepted command is then the only one in flight.
\<close>

theorem operate_only_for_holder:
  assumes "ctl_run runtime config (OperateEv conn params # tr) log s"
  shows "\<exists>c. sy_cmds s = [c] \<and> cm_conn c = conn \<and> cm_params c = params \<and> \<not> cm_answered c
    \<and> (if is_sbo (cm_settings c)
       then \<exists>q. claims tr = Some (conn, q)
         \<and> (cs_ctl_model (cm_settings c) = SboEnhanced \<longrightarrow> (\<exists>sbow. q = Some sbow \<and> params_consistent params sbow))
       else claims tr = None)" (is "\<exists>c. ?holds c")
  using assms
proof cases
  case (step log0 s0 cs)
  note inv = run_control_inv [OF step(2)]
  from step(3) obtain obj fs where b: "begin_operate conn params (sy_obj s0) = (obj, fs, BeginAccepted)"
    and "sy_obj s = obj" and s: "sy_cmds s = admitted conn params obj # sy_cmds s0" by (rule operate_step)
  note acc = begin_accepted [OF b control_inv_parts(1) [OF inv]]
  have "\<not> is_executing (ci_state (co_inner (sy_obj s0)))"
    using acc(2,4) by (cases "is_sbo (settings_locked (sy_obj s0))") simp_all
  then have "sy_cmds s0 = []"
    using commands_inv_at(3) [OF control_inv_parts(2) [OF inv], of 0] by (cases "sy_cmds s0") simp_all
  then have one: "sy_cmds s = [admitted conn params obj]" using s by simp
  have settings: "cm_settings (admitted conn params obj) = settings_locked (sy_obj s0)"
    by (simp add: admitted_def acc(1))
  have held: "claims tr = holder (co_inner (sy_obj s0))" using inv by (simp add: control_inv_def)
  show ?thesis
  proof (rule exI [of _ "admitted conn params obj"], cases "is_sbo (settings_locked (sy_obj s0))")
    case True
    with acc(2,3) show "?holds (admitted conn params obj)" by (simp add: one settings held) (simp add: admitted_def holder_def)
  next
    case False
    with acc(4) show "?holds (admitted conn params obj)" by (simp add: one settings held) (simp add: admitted_def holder_def)
  qed
qed

theorem operate_only_for_holder_witness:
  "\<exists>(s :: ctl_sys) c. sy_cmds s = [c] \<and> cm_conn c = 1 \<and> cm_params c = sample_params \<and> \<not> cm_answered c"
proof -
  obtain s where "ctl_run True sample_config [OperateEv 1 sample_params, SelectedEv 1 None] [sample_selection] s"
    by (rule sample_operates)
  from operate_only_for_holder [OF this] show ?thesis by blast
qed

text \<open>
  C13. The selection changes an object reports fit together, in the order of its critical sections: each
  report of a selection is followed by the report of its end, for the same connection, before the next;
  and a selection is reported and not yet ended exactly while the object is selected or executes a
  command of a select-before-operate model, for the connection that holds it.
\<close>

theorem selection_changes_alternate:
  "ctl_run runtime config tr log s \<Longrightarrow> replay None log = Some (announced (co_inner (sy_obj s)))"
  by (drule run_control_inv) (simp add: control_inv_def)

theorem selection_changes_alternate_witness:
  "replay None [sample_selection] = Some (announced (co_inner (sy_obj sample_selected)))"
  by (rule selection_changes_alternate [OF sample_run])

end
