(* ===== verification/Control_Timer.thy ===== *)
theory Control_Timer
  imports Control_Engine
begin

text \<open>
  The select timeouts of a control object under concurrent use: no selection expires early, every
  selection with a timeout has the timer that ends it, and in which order its end can be reported.
\<close>

section \<open>Select timeouts\<close>

text \<open>The instant the select timeout of the current ready period elapses, when it has one.\<close>

definition ends_at :: "control_inner \<Rightarrow> nat option" where
  "ends_at g =
     (case (ci_state g, ci_select_time g, ci_active g) of
        (Ready, Some t, Some a) \<Rightarrow> if cs_sbo_timeout_ms a \<noteq> 0 then Some (t + millis (cs_sbo_timeout_ms a)) else None
      | _ \<Rightarrow> None)"

definition elapsed_by :: "nat \<Rightarrow> control_inner \<Rightarrow> bool" where
  "elapsed_by now g = (case ends_at g of None \<Rightarrow> False | Some t \<Rightarrow> t \<le> now)"

text \<open>What is still to be done for a ready period concerns a past one, or fits the current one.\<close>

definition current :: "control_inner \<Rightarrow> u64 \<Rightarrow> bool" where
  "current g p \<longleftrightarrow> p = ci_ready_period g \<and> ci_state g = Ready"

fun follow_ok :: "nat \<Rightarrow> control_inner \<Rightarrow> follow_up \<Rightarrow> bool" where
  "follow_ok now g (Notify c) = True"
| "follow_ok now g (Arm p t) =
     (unat p \<le> unat (ci_ready_period g)
      \<and> (current g p \<longrightarrow> (case ci_active g of None \<Rightarrow> False | Some a \<Rightarrow> cs_sbo_timeout_ms a = t)))"
| "follow_ok now g (Expire p) = (unat p \<le> unat (ci_ready_period g) \<and> (current g p \<longrightarrow> elapsed_by now g))"

fun task_ok :: "control_inner \<Rightarrow> u64 \<times> nat \<Rightarrow> bool" where
  "task_ok g (p, deadline) = (unat p \<le> unat (ci_ready_period g) \<and> (current g p \<longrightarrow> elapsed_by deadline g))"

definition clock_ok :: "nat \<Rightarrow> control_inner \<Rightarrow> bool" where
  "clock_ok now g = (case ci_select_time g of None \<Rightarrow> True | Some t \<Rightarrow> t \<le> now)"

definition timers_inv :: "ctl_event list \<Rightarrow> ctl_sys \<Rightarrow> bool" where
  "timers_inv tr s \<longleftrightarrow>
     unat (ci_ready_period (co_inner (sy_obj s))) \<le> length tr
     \<and> clock_ok (sy_now s) (co_inner (sy_obj s))
     \<and> (\<forall>fs\<in>set (sy_calls s). \<forall>f\<in>set fs. follow_ok (sy_now s) (co_inner (sy_obj s)) f)
     \<and> (\<forall>k\<in>set (sy_tasks s). task_ok (co_inner (sy_obj s)) k)"

lemmas time_defs = ends_at_def elapsed_by_def current_def clock_ok_def

lemma next_period:
  "unat p \<le> unat (q :: u64) \<Longrightarrow> unat q + 1 < 2 ^ 64 \<Longrightarrow> unat (q + 1) = unat q + 1 \<and> p \<noteq> q + 1"
proof -
  assume "unat p \<le> unat q" "unat q + 1 < 2 ^ 64"
  moreover from this have "unat (q + 1) = unat q + 1" by (simp add: unat_word_ariths)
  ultimately show ?thesis by auto
qed

text \<open>Entering a ready period makes every earlier period past.\<close>

definition renewed :: "nat \<Rightarrow> control_inner \<Rightarrow> control_inner \<Rightarrow> bool" where
  "renewed now g g' \<longleftrightarrow> ci_ready_period g' = ci_ready_period g + 1 \<and> ci_select_time g' = Some now"

definition same_period :: "control_inner \<Rightarrow> control_inner \<Rightarrow> bool" where
  "same_period g g' \<longleftrightarrow>
     ci_ready_period g' = ci_ready_period g \<and> (ci_select_time g' = None \<or> ci_select_time g' = ci_select_time g)
     \<and> (ci_state g' = Ready \<longrightarrow> ci_state g = Ready \<and> ci_select_time g' = ci_select_time g \<and> ci_active g' = ci_active g)"

lemma move_period: "move now live g fs e g' \<Longrightarrow> renewed now g g' \<or> same_period g g'"
  by (erule move.cases) (auto simp: renewed_def same_period_def inner_defs)

lemma period_kept:
  assumes "renewed now g g' \<or> same_period g g'" and "unat (ci_ready_period g) + 1 < 2 ^ 64"
    and "unat p \<le> unat (ci_ready_period g)"
  shows "unat p \<le> unat (ci_ready_period g')"
    and "current g' p \<Longrightarrow> current g p \<and> ci_active g' = ci_active g \<and> elapsed_by now' g' = elapsed_by now' g"
  using assms next_period [OF assms(3,2)]
  by (auto simp: renewed_def same_period_def elapsed_by_def ends_at_def current_def)

lemma period_follow:
  assumes "renewed now g g' \<or> same_period g g'" and "unat (ci_ready_period g) + 1 < 2 ^ 64" and "follow_ok now g f"
  shows "follow_ok now g' f"
  using assms period_kept [OF assms(1,2)] by (cases f) auto

lemma period_task:
  assumes "renewed now g g' \<or> same_period g g'" and "unat (ci_ready_period g) + 1 < 2 ^ 64" and "task_ok g k"
  shows "task_ok g' k"
  using assms period_kept [OF assms(1,2)] by (cases k) auto

lemma period_clock:
  "renewed now g g' \<or> same_period g g' \<Longrightarrow> clock_ok now g \<Longrightarrow> clock_ok now g'"
  by (auto simp: renewed_def same_period_def clock_ok_def)

lemma period_bound:
  assumes "renewed now g g' \<or> same_period g g'" and "unat (ci_ready_period g) \<le> n" and "n + 1 < 2 ^ 64"
  shows "unat (ci_ready_period g') \<le> Suc n"
  using assms next_period [of "ci_ready_period g" "ci_ready_period g"] by (auto simp: renewed_def same_period_def)

lemma move_follow:
  "move now live g fs e g' \<Longrightarrow> clock_ok now g \<Longrightarrow> \<forall>f\<in>set fs. follow_ok now g' f"
  by (erule move.cases) (auto simp: time_defs inner_defs le_diff_conv2 add.commute)

definition todo :: "ctl_sys \<Rightarrow> follow_up set" where
  "todo s = (\<Union>fs\<in>set (sy_calls s). set fs)"

lemma timers_inv_todo:
  "timers_inv tr s \<longleftrightarrow>
     unat (ci_ready_period (co_inner (sy_obj s))) \<le> length tr
     \<and> clock_ok (sy_now s) (co_inner (sy_obj s))
     \<and> (\<forall>f\<in>todo s. follow_ok (sy_now s) (co_inner (sy_obj s)) f)
     \<and> (\<forall>k\<in>set (sy_tasks s). task_ok (co_inner (sy_obj s)) k)"
  by (auto simp: timers_inv_def todo_def)

lemma todo_update: "i < length (sy_calls s) \<Longrightarrow> set fs \<subseteq> set (sy_calls s ! i) \<union> B \<Longrightarrow>
    (\<Union>cs\<in>set ((sy_calls s)[i := fs]). set cs) \<subseteq> todo s \<union> B"
  using set_update_subset_insert [of "sy_calls s" i fs] nth_mem [of i "sy_calls s"] by (fastforce simp: todo_def)

lemma moved_timers:
  assumes inv: "timers_inv tr s" and bound: "length tr + 1 < 2 ^ 64"
    and mv: "moves (sy_now s) (sy_obj s) fs e (sy_obj s')"
    and calls: "todo s' \<subseteq> todo s \<union> set fs" and same: "sy_tasks s' = sy_tasks s" "sy_now s' = sy_now s"
  shows "timers_inv (e # tr) s'"
proof -
  let ?g = "co_inner (sy_obj s)" and ?g' = "co_inner (sy_obj s')"
  note i = inv [unfolded timers_inv_todo]
  from mv have m: "move (sy_now s) (live_settings (sy_obj s)) ?g fs e ?g'" by simp
  note p = move_period [OF m]
  have b: "unat (ci_ready_period ?g) + 1 < 2 ^ 64" using i bound by linarith
  have "follow_ok (sy_now s) ?g' f" if "f \<in> todo s'" for f
    using that calls i move_follow [OF m] period_follow [OF p b] by blast
  moreover have "task_ok ?g' k" if "k \<in> set (sy_tasks s)" for k
    using that i period_task [OF p b] by blast
  ultimately show ?thesis
    using i same period_clock [OF p] period_bound [OF p _ bound] by (simp add: timers_inv_todo)
qed

lemma same_timers:
  assumes "timers_inv tr s" and "co_inner (sy_obj s') = co_inner (sy_obj s)" and "todo s' \<subseteq> todo s"
    and "sy_tasks s' = sy_tasks s" and "sy_now s' = sy_now s"
  shows "timers_inv (e # tr) s'"
  using assms by (auto simp: timers_inv_todo)

lemma elapsed_later: "elapsed_by now g \<Longrightarrow> now \<le> later \<Longrightarrow> elapsed_by later g"
  by (auto simp: elapsed_by_def split: option.splits)

lemma follow_later: "follow_ok now g f \<Longrightarrow> now \<le> later \<Longrightarrow> follow_ok later g f"
  by (cases f) (auto intro: elapsed_later)

lemma tick_timers:
  "timers_inv tr s \<Longrightarrow> timers_inv (e # tr) (s\<lparr>sy_now := sy_now s + d\<rparr>)"
  using follow_later [of "sy_now s" "co_inner (sy_obj s)" _ "sy_now s + d"]
  by (auto simp: timers_inv_todo todo_def clock_ok_def split: option.splits)

lemma arm_fields:
  assumes "arm_select_timer runtime now p t obj = (obj', task)"
  shows "ci_state (co_inner obj') = ci_state (co_inner obj)"
    and "ci_ready_period (co_inner obj') = ci_ready_period (co_inner obj)"
    and "ci_active (co_inner obj') = ci_active (co_inner obj)"
    and "ci_select_time (co_inner obj') = ci_select_time (co_inner obj)"
  using assms by (auto simp: arm_select_timer_def inner_defs split: if_splits)

text \<open>A timer armed for the current period wakes no earlier than the timeout of the period.\<close>

lemma armed_timers:
  assumes inv: "timers_inv tr s" and a: "object_inv (co_inner (sy_obj s))"
    and i: "i < length (sy_calls s)" "sy_calls s ! i = Arm p t # fs"
    and arm: "arm_select_timer runtime (sy_now s) p t (sy_obj s) = (obj, task)"
  shows "timers_inv (e # tr) (s\<lparr>sy_obj := obj, sy_calls := (sy_calls s)[i := fs],
    sy_tasks := (case task of None \<Rightarrow> [] | Some k \<Rightarrow> [k]) @ sy_tasks s\<rparr>)"
proof -
  let ?g = "co_inner (sy_obj s)" and ?g' = "co_inner obj"
  let ?s = "s\<lparr>sy_obj := obj, sy_calls := (sy_calls s)[i := fs],
    sy_tasks := (case task of None \<Rightarrow> [] | Some k \<Rightarrow> [k]) @ sy_tasks s\<rparr>"
  note all = inv [unfolded timers_inv_todo]
  note g' = arm_fields [OF arm]
  have keep: "follow_ok now ?g' f = follow_ok now ?g f" "task_ok ?g' k = task_ok ?g k" "clock_ok now ?g' = clock_ok now ?g"
    for now f k by (cases f; cases k; simp add: time_defs g')+
  have "Arm p t \<in> todo s" using i nth_mem [OF i(1)] by (force simp: todo_def)
  then have ok: "follow_ok (sy_now s) ?g (Arm p t)" using all by blast
  have "task_ok ?g k" if "task = Some k" for k
  proof -
    from that arm have k: "k = (p, sy_now s + millis t)" "t \<noteq> 0" "current ?g p"
      by (auto simp: arm_select_timer_def inner_defs current_def split: if_splits)
    then obtain c where "ci_active ?g = Some c" "cs_sbo_timeout_ms c = t" using ok by (auto split: option.splits)
    moreover obtain t0 where "ci_select_time ?g = Some t0" "t0 \<le> sy_now s"
      using a k(3) all by (auto simp: object_inv_def current_def clock_ok_def)
    ultimately show ?thesis using k ok by (auto simp: elapsed_by_def ends_at_def current_def)
  qed
  then have tasks: "\<forall>k\<in>set (sy_tasks ?s). task_ok ?g k" using all by (auto split: option.splits simp del: task_ok.simps)
  have "todo ?s \<subseteq> todo s" using todo_update [OF i(1), of fs "{}"] i(2) by (auto simp: todo_def)
  then have "\<forall>f\<in>todo ?s. follow_ok (sy_now s) ?g f" using all by blast
  then show ?thesis using all tasks by (simp add: timers_inv_todo keep g')
qed

lemma step_timers_inv:
  assumes "ctl_step runtime s e cs s'" and c: "control_inv tr log s" and inv: "timers_inv tr s"
    and bound: "length tr + 1 < 2 ^ 64"
  shows "timers_inv (e # tr) s'"
  using assms(1)
proof cases
  case (tick d)
  then show ?thesis by (simp only: tick_timers [OF inv])
next
  case (cf_write b)
  then show ?thesis by (intro same_timers [OF inv]) (simp_all add: todo_def)
next
  case (request r obj fs)
  then show ?thesis
    using request_moves [OF request(3)] by (intro moved_timers [OF inv bound, of fs]) (auto simp: todo_def)
next
  case (admit conn params obj fs r)
  then show ?thesis
    using begin_operate_moves [OF admit(4) control_inv_parts(1) [OF c], of "sy_now s"]
    by (intro moved_timers [OF inv bound, of fs]) (auto simp: todo_def)
next
  case (answer i)
  then show ?thesis by (intro same_timers [OF inv]) (simp_all add: todo_def)
next
  case (start i)
  then show ?thesis
    using set_state_operate_moves [of "sy_now s" "sy_obj s"]
    by (intro moved_timers [OF inv bound, of "[]"]) (simp_all add: todo_def)
next
  case (finish i obj fs)
  then show ?thesis
    using finish_operate_moves [OF finish(6) control_inv_parts(1) [OF c] commands_inv_at(3) [OF control_inv_parts(2) [OF c] finish(4)]]
    by (intro moved_timers [OF inv bound, of fs]) (auto simp: todo_def)
next
  case (give_up i reason obj fs)
  then show ?thesis
    using abort_moves [OF give_up(6) control_inv_parts(1) [OF c] commands_inv_at(3) [OF control_inv_parts(2) [OF c] give_up(4)], of "sy_now s"]
    by (intro moved_timers [OF inv bound, of fs]) (auto simp: todo_def)
next
  case (deliver i n fs)
  then show ?thesis
    using todo_update [OF deliver(4), of fs "{}"] by (intro same_timers [OF inv]) (auto simp: todo_def)
next
  case (arm i p t fs obj task)
  then show ?thesis using armed_timers [OF inv control_inv_parts(1) [OF c] arm(4-6)] by simp
next
  case (expire i p fs obj fs' ok)
  then show ?thesis
    using expire_selection_moves [OF expire(6), of "sy_now s"] todo_update [OF expire(4), of "fs' @ fs" "set fs'"]
    by (intro moved_timers [OF inv bound, of fs']) (auto simp: todo_def)
next
  case (fire p deadline obj fs ok)
  then show ?thesis
    using expire_selection_moves [OF fire(6), of "sy_now s"]
    by (intro moved_timers [OF inv bound, of fs]) (auto simp: todo_def)
qed

lemma run_timers_inv:
  "ctl_run runtime config tr log s \<Longrightarrow> length tr < 2 ^ 64 \<Longrightarrow> timers_inv tr s"
proof (induction rule: ctl_run.induct)
  case init
  then show ?case
    by (simp add: timers_inv_def ctl_init_def control_object_new_def inner_new_def clock_ok_def)
next
  case (step tr log s e cs s')
  then show ?case using step_timers_inv [OF step(2) run_control_inv [OF step(1)]] by simp
qed

subsection \<open>Every selection with a timeout has its timer\<close>

text \<open>With a runtime, a ready period with a timeout has a timer task or is about to arm one.\<close>

definition armed :: "ctl_sys \<Rightarrow> bool" where
  "armed s \<longleftrightarrow>
     (let g = co_inner (sy_obj s)
      in ends_at g \<noteq> None \<longrightarrow>
         (\<exists>t. t \<noteq> 0 \<and> Arm (ci_ready_period g) t \<in> todo s)
         \<or> (\<exists>deadline. (ci_ready_period g, deadline) \<in> set (sy_tasks s)))"

lemma ends_at_ready: "ends_at g \<noteq> None \<Longrightarrow> ci_state g = Ready"
  by (auto simp: ends_at_def split: control_state.splits)

lemma move_arms:
  "move now live g fs e g' \<Longrightarrow> ends_at g' \<noteq> None \<Longrightarrow>
   (\<exists>t. t \<noteq> 0 \<and> Arm (ci_ready_period g') t \<in> set fs)
   \<or> ci_ready_period g' = ci_ready_period g \<and> ends_at g \<noteq> None"
  by (erule move.cases) (auto simp: ends_at_def inner_defs split: if_splits option.splits control_state.splits)

lemma moved_armed:
  assumes "armed s" and mv: "moves now (sy_obj s) fs e (sy_obj s')"
    and todo: "\<And>p t. Arm p t \<in> todo s \<or> Arm p t \<in> set fs \<Longrightarrow> Arm p t \<in> todo s'" and "sy_tasks s' = sy_tasks s"
  shows "armed s'"
proof -
  from mv have m: "move now (live_settings (sy_obj s)) (co_inner (sy_obj s)) fs e (co_inner (sy_obj s'))" by simp
  show ?thesis using assms(1,4) todo move_arms [OF m] unfolding armed_def Let_def by metis
qed

lemma same_armed:
  assumes "armed s" and "co_inner (sy_obj s') = co_inner (sy_obj s)" and "\<And>p t. Arm p t \<in> todo s \<Longrightarrow> Arm p t \<in> todo s'"
    and "sy_tasks s' = sy_tasks s"
  shows "armed s'"
  using assms unfolding armed_def Let_def by metis

lemma todo_arm_update:
  assumes "i < length (sy_calls s)" and "\<And>f. f \<in> set (sy_calls s ! i) \<Longrightarrow> f = x \<or> f \<in> set fs"
    and "f \<in> todo s" and "f \<noteq> x"
  shows "f \<in> (\<Union>cs\<in>set ((sy_calls s)[i := fs]). set cs)"
proof -
  obtain k where k: "k < length (sy_calls s)" "f \<in> set (sy_calls s ! k)"
    using assms(3) by (auto simp: todo_def in_set_conv_nth [of _ "sy_calls s"])
  then have "f \<in> set ((sy_calls s)[i := fs] ! k)" using assms(2,4) by (cases "k = i") auto
  moreover have "(sy_calls s)[i := fs] ! k \<in> set ((sy_calls s)[i := fs])" using k(1) by simp
  ultimately show ?thesis by blast
qed

lemma arm_armed:
  assumes arm: "arm_select_timer True (sy_now s) p t (sy_obj s) = (obj, task)" and a: "armed s"
    and i: "i < length (sy_calls s)" "sy_calls s ! i = Arm p t # fs"
  shows "armed (s\<lparr>sy_obj := obj, sy_calls := (sy_calls s)[i := fs],
    sy_tasks := (case task of None \<Rightarrow> [] | Some k \<Rightarrow> [k]) @ sy_tasks s\<rparr>)" (is "armed ?s")
proof -
  let ?g = "co_inner (sy_obj s)"
  have g: "ci_ready_period (co_inner obj) = ci_ready_period ?g" "ends_at (co_inner obj) = ends_at ?g"
    by (simp_all add: ends_at_def arm_fields [OF arm])
  have "(\<exists>t. t \<noteq> 0 \<and> Arm (ci_ready_period ?g) t \<in> todo ?s) \<or> (\<exists>d. (ci_ready_period ?g, d) \<in> set (sy_tasks ?s))"
    if e: "ends_at ?g \<noteq> None"
  proof (cases "p = ci_ready_period ?g \<and> t \<noteq> 0")
    case True
    with e show ?thesis using arm ends_at_ready by (auto simp: arm_select_timer_def inner_defs split: if_splits)
  next
    case False
    have "f \<in> todo ?s" if "f \<in> todo s" "f \<noteq> Arm p t" for f
      using todo_arm_update [OF i(1) _ that, of fs] i(2) by (simp add: todo_def)
    then show ?thesis using False e a by (fastforce simp: armed_def Let_def)
  qed
  then show ?thesis by (simp add: armed_def Let_def g)
qed

lemma step_armed:
  assumes "ctl_step True s e cs s'" and c: "control_inv tr log s" and a: "armed s"
  shows "armed s'"
  using assms(1)
proof cases
  case (tick d)
  then show ?thesis by (intro same_armed [OF a]) (simp_all add: todo_def)
next
  case (cf_write b)
  then show ?thesis by (intro same_armed [OF a]) (simp_all add: todo_def)
next
  case (request r obj fs)
  then show ?thesis
    using request_moves [OF request(3)] by (intro moved_armed [OF a, of "sy_now s" fs]) (auto simp: todo_def)
next
  case (admit conn params obj fs r)
  then show ?thesis
    using begin_operate_moves [OF admit(4) control_inv_parts(1) [OF c], of "sy_now s"]
    by (intro moved_armed [OF a, of "sy_now s" fs]) (auto simp: todo_def)
next
  case (answer i)
  then show ?thesis by (intro same_armed [OF a]) (simp_all add: todo_def)
next
  case (start i)
  then show ?thesis
    using set_state_operate_moves [of "sy_now s" "sy_obj s"]
    by (intro moved_armed [OF a, of "sy_now s" "[]" Internal]) (simp_all add: todo_def)
next
  case (finish i obj fs)
  then show ?thesis
    using finish_operate_moves [OF finish(6) control_inv_parts(1) [OF c] commands_inv_at(3) [OF control_inv_parts(2) [OF c] finish(4)]]
    by (intro moved_armed [OF a, of "sy_now s" fs]) (auto simp: todo_def)
next
  case (give_up i reason obj fs)
  then show ?thesis
    using abort_moves [OF give_up(6) control_inv_parts(1) [OF c] commands_inv_at(3) [OF control_inv_parts(2) [OF c] give_up(4)], of "sy_now s"]
    by (intro moved_armed [OF a, of "sy_now s" fs]) (auto simp: todo_def)
next
  case (deliver i n fs)
  have "f \<in> todo s'" if "f \<in> todo s" "f \<noteq> Notify n" for f
    using todo_arm_update [OF deliver(4) _ that, of fs] deliver by (simp add: todo_def)
  with deliver show ?thesis by (intro same_armed [OF a]) simp_all
next
  case (arm i p t fs obj task)
  then show ?thesis by (simp only: arm_armed [OF arm(6) a arm(4,5)])
next
  case (expire i p fs obj fs' ok)
  have t: "f \<in> todo s'" if "f \<in> todo s" "f \<noteq> Expire p" for f
    using todo_arm_update [OF expire(4) _ that, of "fs' @ fs"] expire by (auto simp: todo_def)
  have n: "Arm q t \<notin> set fs'" for q t
    using expire(6) by (auto simp: expire_selection_def Let_def split: if_splits prod.splits)
  show ?thesis
    using expire_selection_moves [OF expire(6), of "sy_now s"] t n expire(3)
    by (intro moved_armed [OF a, of "sy_now s" fs']) auto
next
  case (fire p deadline obj fs ok)
  then show ?thesis
    using expire_selection_moves [OF fire(6), of "sy_now s"]
    by (intro moved_armed [OF a, of "sy_now s" fs]) (auto simp: todo_def)
qed

lemma run_armed: "ctl_run True config tr log s \<Longrightarrow> armed s"
proof (induction rule: ctl_run.induct)
  case init
  then show ?case by (simp add: armed_def ctl_init_def control_object_new_def inner_new_def ends_at_def)
next
  case (step tr log s e cs s')
  then show ?case by (blast intro: step_armed run_control_inv)
qed

subsection \<open>When an expiry can come\<close>

definition may_expire :: "ctl_sys \<Rightarrow> u64 \<Rightarrow> bool" where
  "may_expire s p \<longleftrightarrow> (\<exists>deadline. deadline \<le> sy_now s \<and> (p, deadline) \<in> set (sy_tasks s)) \<or> Expire p \<in> todo s"

lemma may_expire_elapsed:
  assumes "timers_inv tr s" and "may_expire s p" and "current (co_inner (sy_obj s)) p"
  shows "elapsed_by (sy_now s) (co_inner (sy_obj s))"
  using assms(2) unfolding may_expire_def
proof
  assume "Expire p \<in> todo s"
  then have "follow_ok (sy_now s) (co_inner (sy_obj s)) (Expire p)" using assms(1) by (auto simp: timers_inv_todo)
  then show ?thesis using assms(3) by simp
next
  assume "\<exists>deadline. deadline \<le> sy_now s \<and> (p, deadline) \<in> set (sy_tasks s)"
  then obtain d where d: "d \<le> sy_now s" "(p, d) \<in> set (sy_tasks s)" by blast
  then have "task_ok (co_inner (sy_obj s)) (p, d)" using assms(1) by (auto simp: timers_inv_def)
  then show ?thesis using assms(3) elapsed_later [OF _ d(1)] by simp
qed

section \<open>Runs of the sample object\<close>

definition sample_expiring :: ctl_sys where
  "sample_expiring = sample_selected\<lparr>sy_now := 30000000000, sy_calls := [Expire 1] # sy_calls sample_selected\<rparr>"

definition sample_armed :: ctl_sys where
  "sample_armed =
     sample_selected
       \<lparr>sy_obj := sample_object\<lparr>co_inner := (co_inner sample_object)\<lparr>ci_timer := Some (1, 30000000000)\<rparr>\<rparr>,
        sy_calls := [[]], sy_tasks := [(1, 30000000000)], sy_delivered := [sample_selection]\<rparr>"

lemma sample_run_expiring:
  "ctl_run True sample_config [Internal, Internal, SelectedEv 1 None] [sample_selection] sample_expiring"
proof -
  let ?s = "sample_selected\<lparr>sy_now := sy_now sample_selected + 30000000000\<rparr>"
  have "request_step (sy_now ?s) CheckReq (sy_obj ?s) = (sy_obj ?s, [Expire 1], Internal)"
    by (simp add: sample_defs check_sbo_timeout_def millis_def)
  from ctl_run.step [OF ctl_run.step [OF sample_run ctl_step.tick [of _ _ 30000000000]] ctl_step.request [OF this]]
  show ?thesis by (simp add: sample_expiring_def sample_selected_def ctl_init_def)
qed

lemma sample_run_armed:
  "ctl_run True sample_config [Internal, Internal, SelectedEv 1 None] [sample_selection] sample_armed"
proof -
  let ?s = "sample_selected\<lparr>sy_calls := [[Arm 1 30000]], sy_delivered := [sample_selection]\<rparr>"
  have d: "ctl_step True sample_selected Internal [] ?s"
    using ctl_step.deliver [of 0 sample_selected sample_selection "[Arm 1 30000]" True]
    by (simp add: sample_selected_def ctl_init_def)
  have "arm_select_timer True (sy_now ?s) 1 30000 (sy_obj ?s) = (sy_obj sample_armed, Some (1, 30000000000))"
    by (simp add: sample_defs sample_armed_def arm_select_timer_def millis_def stop_timer_def Let_def)
  from ctl_step.arm [of 0 ?s 1 30000 "[]", OF _ _ this] have "ctl_step True ?s Internal [] sample_armed"
    by (simp add: sample_armed_def sample_selected_def ctl_init_def)
  from ctl_run.step [OF ctl_run.step [OF sample_run d] this] show ?thesis by simp
qed

section \<open>Properties\<close>

text \<open>
  C11. A selection never expires early: whatever timers are still around, aborted ones included, and
  whatever requests are about to expire a period they found over, an expiry that deselects the object
  happens only once the select timeout of this very selection has elapsed. (As long as the 64-bit
  counter of ready periods cannot have wrapped.)
\<close>

theorem selection_never_expires_early:
  assumes "ctl_run runtime config tr log s" and "length tr < 2 ^ 64" and "may_expire s p"
    and "expire_selection p (sy_obj s) = (obj, fs, True)"
  shows "\<exists>t a. ci_select_time (co_inner (sy_obj s)) = Some t \<and> ci_active (co_inner (sy_obj s)) = Some a
    \<and> cs_sbo_timeout_ms a \<noteq> 0 \<and> t + millis (cs_sbo_timeout_ms a) \<le> sy_now s"
proof -
  have "current (co_inner (sy_obj s)) p"
    using assms(4) by (auto simp: expire_selection_def current_def Let_def split: if_splits prod.splits)
  from may_expire_elapsed [OF run_timers_inv [OF assms(1,2)] assms(3) this] show ?thesis
    by (auto simp: elapsed_by_def ends_at_def split: option.splits control_state.splits if_splits)
qed

theorem selection_never_expires_early_witness:
  "\<exists>t a. ci_select_time (co_inner (sy_obj sample_expiring)) = Some t
    \<and> ci_active (co_inner (sy_obj sample_expiring)) = Some a
    \<and> cs_sbo_timeout_ms a \<noteq> 0 \<and> t + millis (cs_sbo_timeout_ms a) \<le> sy_now sample_expiring"
proof -
  have "may_expire sample_expiring 1" by (simp add: may_expire_def todo_def sample_expiring_def)
  moreover obtain obj fs where "expire_selection 1 (sy_obj sample_expiring) = (obj, fs, True)"
    by (simp add: sample_expiring_def sample_defs expire_selection_def inner_defs)
  ultimately show ?thesis by (intro selection_never_expires_early [OF sample_run_expiring]) simp_all
qed



text \<open>
  C40. The handlers can hear of the end of a selection before its beginning. \<open>try_select\<close> reports the
  selection after it released the lock; its comment argues that a \<open>Timeout\<close> cannot precede it because
  the timer does not exist yet, but a request of another client, which first looks for an elapsed
  timeout, can. The last report the handlers, \<open>stSeld\<close> among them, then get of an unselected object is
  that it was selected.
\<close>

theorem timeout_can_precede_selected:
  "\<exists>tr log s. ctl_run True sample_config tr log s \<and> concat (sy_calls s) = []
     \<and> ci_state (co_inner (sy_obj s)) = Unselected \<and> map sc_reason (sy_delivered s) = [Timeout, Selected]"
proof -
  obtain obj fs where x: "expire_selection 1 (sy_obj sample_expiring) = (obj, [Notify (change_ended 1 Timeout)], True)"
    and u: "ci_state (co_inner obj) = Unselected"
    by (simp add: sample_expiring_def sample_defs expire_selection_def inner_defs)
  let ?s1 = "sample_expiring\<lparr>sy_obj := obj,
    sy_calls := [[Notify (change_ended 1 Timeout)], [Notify sample_selection, Arm 1 30000]]\<rparr>"
  let ?s2 = "?s1\<lparr>sy_calls := [[], [Notify sample_selection, Arm 1 30000]], sy_delivered := [change_ended 1 Timeout]\<rparr>"
  let ?s3 = "?s2\<lparr>sy_calls := [[], [Arm 1 30000]], sy_delivered := [change_ended 1 Timeout, sample_selection]\<rparr>"
  let ?s4 = "?s3\<lparr>sy_obj := obj, sy_calls := [[], []]\<rparr>"
  have s1: "ctl_step True sample_expiring EndedEv [change_ended 1 Timeout] ?s1"
    using ctl_step.expire [of 0 sample_expiring 1 "[]", OF _ _ x, of True]
    by (simp add: sample_expiring_def sample_selected_def ctl_init_def released_def)
  have s2: "ctl_step True ?s1 Internal [] ?s2"
    using ctl_step.deliver [of 0 ?s1 "change_ended 1 Timeout" "[]" True]
    by (simp add: sample_expiring_def sample_selected_def ctl_init_def)
  have s3: "ctl_step True ?s2 Internal [] ?s3"
    using ctl_step.deliver [of 1 ?s2 sample_selection "[Arm 1 30000]" True] by simp
  have "arm_select_timer True (sy_now ?s3) 1 30000 (sy_obj ?s3) = (obj, None)"
    using u by (simp add: arm_select_timer_def)
  then have s4: "ctl_step True ?s3 Internal [] ?s4"
    using ctl_step.arm [of 1 ?s3 1 30000 "[]" True obj None] by simp
  note ctl_run.step [OF ctl_run.step [OF ctl_run.step [OF ctl_run.step [OF sample_run_expiring s1] s2] s3] s4]
  moreover have "map sc_reason (sy_delivered ?s4) = [Timeout, Selected]"
    by (simp add: change_ended_def sample_selection_def select_change_def)
  ultimately show ?thesis using u by (intro exI conjI) (assumption, simp_all)
qed

end
