(* ===== verification/Goose_Pdu.thy ===== *)
theory Goose_Pdu
  imports Mms_Data Model_Value
begin

text \<open>
  The IECGoosePdu codec of crates/iec61850-goose/src/pdu.rs with the errors of error.rs. A decoder that
  works on \<open>data[pos..end]\<close> takes that slice; \<open>pos\<close> is kept for the positions its errors name.
\<close>

datatype goose_error =
    UnknownTag u8
  | TagDecode
  | SubLevel goose_error
  | Overflow
  | Underflow
  | TypeMismatch nat
  | LengthMismatch
  | InvalidPadding u8
  | FieldTooLong nat
  | MissingTimestamp
  | InvalidStateNumber
  | InvalidTimestamp
  | InvalidTimestampQuality utc_time_error
  | EthernetFrameTooShort
  | WrongEtherType u16
  | VlanPriorityOutOfRange u8
  | MissingAddressParameter string
  | UnreadableAddressParameter string
  | PduOverflow
  | DataSetLengthMismatch nat nat
  | Asn1 asn1_error
  | TruncatedGoose nat nat
  | ConfRevMismatch u32 u32
  | ReceiverRunning
  | TimestampBadLength nat

definition GOOSE_STRING_MAX_LEN :: nat where
  "GOOSE_STRING_MAX_LEN = 129"

definition GOOSE_DATA_MAX_DEPTH :: u8 where
  "GOOSE_DATA_MAX_DEPTH = 8"

record goose_pdu =
  gp_gocb_ref :: string
  gp_time_allowed_to_live :: u32
  gp_dat_set :: string
  gp_go_id :: string
  gp_t :: utc_time
  gp_st_num :: u32
  gp_sq_num :: u32
  gp_simulation :: bool
  gp_conf_rev :: u32
  gp_nds_com :: bool
  gp_num_dataset_entries :: u32
  gp_all_data :: "mms_value list"

definition goose_pdu_new :: "string \<Rightarrow> string \<Rightarrow> mms_value list \<Rightarrow> goose_pdu" where
  "goose_pdu_new gocb_ref dat_set all_data =
     \<lparr>gp_gocb_ref = gocb_ref, gp_time_allowed_to_live = 2000, gp_dat_set = dat_set, gp_go_id = gocb_ref,
      gp_t = UTC_TIME_NULL, gp_st_num = 1, gp_sq_num = 0, gp_simulation = False, gp_conf_rev = 1,
      gp_nds_com = False, gp_num_dataset_entries = of_nat (length all_data), gp_all_data = all_data\<rparr>"

section \<open>Encoding\<close>

definition goose_bool :: "bool \<Rightarrow> bytes" where
  "goose_bool v = [if v then 0x01 else 0x00]"

definition encode_u32_integer :: "u32 \<Rightarrow> bytes" where
  "encode_u32_integer v = strip_unsigned (0x00 # u32_to_be v)"

text \<open>The loop that drops leading \<open>0xFF\<close> octets of a negative integer.\<close>

fun strip_negative :: "bytes \<Rightarrow> bytes" where
  "strip_negative (a # b # bs) = (if a = 0xFF \<and> b AND 0x80 \<noteq> 0 then strip_negative (b # bs) else a # b # bs)"
| "strip_negative bs = bs"

definition goose_integer :: "i64 \<Rightarrow> bytes" where
  "goose_integer i =
     (let be = bytes8 (u64_to_be i) in if 0 \<le> sint i then strip_unsigned be else strip_negative be)"

definition goose_unsigned :: "u64 \<Rightarrow> bytes" where
  "goose_unsigned u = strip_unsigned (0x00 # bytes8 (u64_to_be u))"

definition map_ok :: "('a \<Rightarrow> 'b) \<Rightarrow> 'e + 'a \<Rightarrow> 'e + 'b" where
  "map_ok f r = (case r of Inl e \<Rightarrow> Inl e | Inr x \<Rightarrow> Inr (f x))"

fun encode_mms_value :: "mms_value \<Rightarrow> u8 \<Rightarrow> goose_error + bytes"
  and encode_mms_values :: "mms_value list \<Rightarrow> u8 \<Rightarrow> goose_error + bytes" where
  "encode_mms_value v depth =
     (if depth > GOOSE_DATA_MAX_DEPTH then Inl (SubLevel Overflow)
      else case v of
        Boolean b \<Rightarrow> Inr (tlv 0x83 (goose_bool b))
      | Integer i \<Rightarrow> Inr (tlv 0x85 (goose_integer i))
      | Unsigned u \<Rightarrow> Inr (tlv 0x86 (goose_unsigned u))
      | Float32 f \<Rightarrow> Inr (tlv 0x87 (0x08 # u32_to_be f))
      | Float64 f \<Rightarrow> Inr (tlv 0x87 (0x0b # bytes8 (u64_to_be f)))
      | BitString padding d \<Rightarrow> Inr (tlv 0x84 (padding # d))
      | OctetString bs \<Rightarrow> Inr (tlv 0x89 bs)
      | VisibleString s \<Rightarrow> Inr (tlv 0x8a (str_bytes s))
      | MmsString s \<Rightarrow> Inr (tlv 0x90 (str_bytes s))
      | UtcTimeValue ts \<Rightarrow> Inr (tlv 0x91 (bytes8 ts))
      | BinaryTime bt \<Rightarrow> Inr (tlv 0x8c bt)
      | Array items \<Rightarrow> map_ok (tlv 0xa1) (encode_mms_values items (depth + 1))
      | Structure items \<Rightarrow> map_ok (tlv 0xa2) (encode_mms_values items (depth + 1)))"
| "encode_mms_values [] depth = Inr []"
| "encode_mms_values (v # vs) depth =
     (case encode_mms_value v depth of
        Inl e \<Rightarrow> Inl e
      | Inr bs \<Rightarrow> map_ok (\<lambda>rest. bs @ rest) (encode_mms_values vs depth))"

definition goose_members :: "goose_pdu \<Rightarrow> bytes \<Rightarrow> bytes" where
  "goose_members p all_data =
     tlv 0x80 (str_bytes (gp_gocb_ref p))
     @ tlv 0x81 (encode_u32_integer (gp_time_allowed_to_live p))
     @ tlv 0x82 (str_bytes (gp_dat_set p))
     @ tlv 0x83 (str_bytes (gp_go_id p))
     @ tlv 0x84 (bytes8 (utc_time_to_bytes (gp_t p)))
     @ tlv 0x85 (encode_u32_integer (gp_st_num p))
     @ tlv 0x86 (encode_u32_integer (gp_sq_num p))
     @ tlv 0x87 (goose_bool (gp_simulation p))
     @ tlv 0x88 (encode_u32_integer (gp_conf_rev p))
     @ tlv 0x89 (goose_bool (gp_nds_com p))
     @ tlv 0x8a (encode_u32_integer (gp_num_dataset_entries p))
     @ tlv 0xab all_data"

definition encode_ber :: "goose_pdu \<Rightarrow> goose_error + bytes" where
  "encode_ber p = map_ok (\<lambda>all_data. tlv 0x61 (goose_members p all_data)) (encode_mms_values (gp_all_data p) 0)"

section \<open>Decoding\<close>

text \<open>The tag, the size of the header, the contents and where the next element starts.\<close>

definition read_tlv_header :: "nat \<Rightarrow> bytes \<Rightarrow> goose_error + u8 \<times> nat \<times> bytes \<times> nat" where
  "read_tlv_header pos data =
     (case data of
        [] \<Rightarrow> Inl (TruncatedGoose 1 0)
      | tag # rest \<Rightarrow>
          (case decode_length rest of
             Inl e \<Rightarrow> Inl (Asn1 e)
           | Inr (len, hdr) \<Rightarrow>
               if 1 + hdr + len > length data then Inl (TruncatedGoose (pos + (1 + hdr + len)) (pos + length data))
               else Inr (tag, 1 + hdr, take len (drop hdr rest), 1 + hdr + len)))"

definition decode_u32_from_bytes :: "bytes \<Rightarrow> goose_error + u32" where
  "decode_u32_from_bytes bs =
     (if bs = [] then Inl LengthMismatch
      else if hd bs = 0x00 \<and> length bs = 5 then Inr (foldl (\<lambda>v b. push_bit 8 v OR ucast b) 0 (tl bs))
      else if length bs > 4 then Inl LengthMismatch
      else Inr (foldl (\<lambda>v b. push_bit 8 v OR ucast b) 0 bs))"

definition goose_decode_unsigned :: "bytes \<Rightarrow> goose_error + mms_value" where
  "goose_decode_unsigned val =
     (if val = [] then Inl LengthMismatch
      else if length val = 9 then
        (if hd val \<noteq> 0x00 then Inl LengthMismatch
         else Inr (Unsigned (foldl (\<lambda>v b. push_bit 8 v OR ucast b) 0 (tl val))))
      else if length val \<le> 8 then Inr (Unsigned (foldl (\<lambda>v b. push_bit 8 v OR ucast b) 0 val))
      else Inl LengthMismatch)"

definition goose_decode_string :: "(string \<Rightarrow> mms_value) \<Rightarrow> u8 \<Rightarrow> bytes \<Rightarrow> goose_error + mms_value" where
  "goose_decode_string mk tag val = (case from_utf8 val of None \<Rightarrow> Inl (UnknownTag tag) | Some s \<Rightarrow> Inr (mk s))"

text \<open>The branches of \<open>decode_data_element\<close> with primitive contents.\<close>

definition goose_decode_primitive :: "u8 \<Rightarrow> bytes \<Rightarrow> goose_error + mms_value" where
  "goose_decode_primitive tag val =
     (if tag = 0x83 then Inr (Boolean (case val of [] \<Rightarrow> False | b # _ \<Rightarrow> b \<noteq> 0))
      else if tag = 0x84 then
        (if length val < 2 then Inl LengthMismatch
         else if hd val > 7 then Inl (InvalidPadding (hd val))
         else Inr (BitString (hd val) (tl val)))
      else if tag = 0x85 then
        (if length val > 8 then Inl LengthMismatch
         else if val = [] then Inl LengthMismatch
         else Inr (Integer (foldl (\<lambda>v b. push_bit 8 v OR ucast b) (if hd val AND 0x80 \<noteq> 0 then -1 else 0) val)))
      else if tag = 0x86 then goose_decode_unsigned val
      else if tag = 0x87 then
        (if length val = 5 then Inr (Float32 (from_be (tl val)))
         else if length val = 9 then Inr (Float64 (from_be (tl val)))
         else Inl LengthMismatch)
      else if tag = 0x89 then Inr (OctetString val)
      else if tag = 0x8a then goose_decode_string VisibleString tag val
      else if tag = 0x90 then goose_decode_string MmsString tag val
      else if tag = 0x8c then
        (if length val \<noteq> 4 \<and> length val \<noteq> 6 then Inl LengthMismatch else Inr (BinaryTime val))
      else if tag = 0x91 then
        (if length val \<noteq> 8 then Inl LengthMismatch else Inr (UtcTimeValue (array8_of val)))
      else if tag = 0x80 then Inr (OctetString val)
      else Inl (UnknownTag tag))"

lemma read_tlv_header_bounds:
  assumes "read_tlv_header pos data = Inr (tag, start, val, next)"
  shows "length val + 2 \<le> next" and "next \<le> length data"
  using assms decode_length_header
  by (fastforce simp: read_tlv_header_def split: list.splits sum.splits prod.splits if_splits)+

lemma read_tlv_header_shrinks:
  "read_tlv_header pos data = Inr (tag, start, val, next) \<Longrightarrow> Suc (2 * length val) < 2 * length data"
  using read_tlv_header_bounds [of pos data tag start val "next"] by linarith

function decode_data_element :: "nat \<Rightarrow> bytes \<Rightarrow> u8 \<Rightarrow> goose_error + mms_value \<times> nat"
  and decode_data_elements :: "nat \<Rightarrow> bytes \<Rightarrow> u8 \<Rightarrow> goose_error + mms_value list" where
  "decode_data_element pos data depth =
     (if depth > GOOSE_DATA_MAX_DEPTH then Inl (SubLevel Overflow)
      else case read_tlv_header pos data of
        Inl e \<Rightarrow> Inl e
      | Inr (tag, start, val, next) \<Rightarrow>
          if tag = 0xa1 then map_ok (\<lambda>items. (Array items, next)) (decode_data_elements (pos + start) val (depth + 1))
          else if tag = 0xa2 then
            map_ok (\<lambda>items. (Structure items, next)) (decode_data_elements (pos + start) val (depth + 1))
          else map_ok (\<lambda>v. (v, next)) (goose_decode_primitive tag val))"
| "decode_data_elements pos data depth =
     (if data = [] then Inr []
      else case decode_data_element pos data depth of
        Inl e \<Rightarrow> Inl e
      | Inr (item, next) \<Rightarrow> map_ok (\<lambda>items. item # items) (decode_data_elements (pos + next) (drop next data) depth))"
  by pat_completeness auto

lemma decode_data_element_consumes:
  assumes "decode_data_element_decode_data_elements_dom (Inl (pos, data, depth))"
    and "decode_data_element pos data depth = Inr (v, next)"
  shows "2 \<le> next" and "next \<le> length data"
  using assms read_tlv_header_bounds
  by (fastforce simp: decode_data_element.psimps map_ok_def split: if_splits sum.splits prod.splits)+

termination decode_data_element
proof (relation "measure (\<lambda>x. case x of Inl (_, d, _) \<Rightarrow> 2 * length d | Inr (_, d, _) \<Rightarrow> 2 * length d + 1)")
qed (auto dest: read_tlv_header_shrinks decode_data_element_consumes)

declare decode_data_element.simps [simp del] decode_data_elements.simps [simp del]

definition decode_all_data_bytes :: "bytes \<Rightarrow> goose_error + mms_value list" where
  "decode_all_data_bytes bs = decode_data_elements 0 bs 0"

definition parse_string_field :: "bytes \<Rightarrow> nat \<Rightarrow> goose_error + string" where
  "parse_string_field val max_len =
     (if length val > max_len then Inl (FieldTooLong (length val))
      else case from_utf8 val of None \<Rightarrow> Inl (UnknownTag 0) | Some s \<Rightarrow> Inr s)"

text \<open>The members found so far; \<open>None\<close> for one not seen.\<close>

record goose_found =
  gf_gocb_ref :: "string option"
  gf_time_allowed_to_live :: "u32 option"
  gf_dat_set :: "string option"
  gf_go_id :: "string option"
  gf_t :: "utc_time option"
  gf_st_num :: "u32 option"
  gf_sq_num :: "u32 option"
  gf_simulation :: bool
  gf_conf_rev :: "u32 option"
  gf_nds_com :: bool
  gf_num_dataset_entries :: "u32 option"
  gf_all_data :: "mms_value list option"

definition nothing_found :: goose_found where
  "nothing_found =
     \<lparr>gf_gocb_ref = None, gf_time_allowed_to_live = None, gf_dat_set = None, gf_go_id = None, gf_t = None,
      gf_st_num = None, gf_sq_num = None, gf_simulation = False, gf_conf_rev = None, gf_nds_com = False,
      gf_num_dataset_entries = None, gf_all_data = None\<rparr>"

definition decode_t :: "bytes \<Rightarrow> goose_error + utc_time" where
  "decode_t val =
     (if length val \<noteq> 8 then Inl InvalidTimestamp
      else case utc_time_from_bytes (array8_of val) of
        Inl e \<Rightarrow> Inl (InvalidTimestampQuality e)
      | Inr t \<Rightarrow> Inr t)"

definition decode_st_num :: "bytes \<Rightarrow> goose_error + u32" where
  "decode_st_num val =
     (case decode_u32_from_bytes val of
        Inl e \<Rightarrow> Inl e
      | Inr v \<Rightarrow> if v = 0 then Inl InvalidStateNumber else Inr v)"

definition flag_of :: "bytes \<Rightarrow> bool" where
  "flag_of val = (case val of [] \<Rightarrow> False | b # _ \<Rightarrow> b \<noteq> 0)"

text \<open>One member; \<open>pos\<close> is where its contents start.\<close>

definition goose_member :: "nat \<Rightarrow> u8 \<Rightarrow> bytes \<Rightarrow> goose_found \<Rightarrow> goose_error + goose_found" where
  "goose_member pos tag val m =
     (if tag = 0x80 then map_ok (\<lambda>s. m\<lparr>gf_gocb_ref := Some s\<rparr>) (parse_string_field val GOOSE_STRING_MAX_LEN)
      else if tag = 0x81 then map_ok (\<lambda>v. m\<lparr>gf_time_allowed_to_live := Some v\<rparr>) (decode_u32_from_bytes val)
      else if tag = 0x82 then map_ok (\<lambda>s. m\<lparr>gf_dat_set := Some s\<rparr>) (parse_string_field val GOOSE_STRING_MAX_LEN)
      else if tag = 0x83 then map_ok (\<lambda>s. m\<lparr>gf_go_id := Some s\<rparr>) (parse_string_field val GOOSE_STRING_MAX_LEN)
      else if tag = 0x84 then map_ok (\<lambda>t. m\<lparr>gf_t := Some t\<rparr>) (decode_t val)
      else if tag = 0x85 then map_ok (\<lambda>v. m\<lparr>gf_st_num := Some v\<rparr>) (decode_st_num val)
      else if tag = 0x86 then map_ok (\<lambda>v. m\<lparr>gf_sq_num := Some v\<rparr>) (decode_u32_from_bytes val)
      else if tag = 0x87 then Inr (m\<lparr>gf_simulation := flag_of val\<rparr>)
      else if tag = 0x88 then map_ok (\<lambda>v. m\<lparr>gf_conf_rev := Some v\<rparr>) (decode_u32_from_bytes val)
      else if tag = 0x89 then Inr (m\<lparr>gf_nds_com := flag_of val\<rparr>)
      else if tag = 0x8a then map_ok (\<lambda>v. m\<lparr>gf_num_dataset_entries := Some v\<rparr>) (decode_u32_from_bytes val)
      else if tag = 0xab then map_ok (\<lambda>items. m\<lparr>gf_all_data := Some items\<rparr>) (decode_data_elements pos val 0)
      else Inr m)"

function goose_members_of :: "nat \<Rightarrow> bytes \<Rightarrow> goose_found \<Rightarrow> goose_error + goose_found" where
  "goose_members_of pos data m =
     (if data = [] then Inr m
      else case read_tlv_header pos data of
        Inl e \<Rightarrow> Inl e
      | Inr (tag, start, val, next) \<Rightarrow>
          (case goose_member (pos + start) tag val m of
             Inl e \<Rightarrow> Inl e
           | Inr m \<Rightarrow> goose_members_of (pos + next) (drop next data) m))"
  by pat_completeness auto
termination goose_members_of
  by (relation "measure (\<lambda>(_, d, _). length d)") (fastforce dest: read_tlv_header_bounds)+

declare goose_members_of.simps [simp del]

text \<open>\<open>ok_or(UnknownTag(tag))\<close>, then the check of \<open>numDatSetEntries\<close>.\<close>

definition ok_or :: "'e \<Rightarrow> 'a option \<Rightarrow> ('a \<Rightarrow> 'e + 'b) \<Rightarrow> 'e + 'b" where
  "ok_or e x f = (case x of None \<Rightarrow> Inl e | Some v \<Rightarrow> f v)"

definition goose_complete :: "goose_found \<Rightarrow> goose_error + goose_pdu" where
  "goose_complete m =
     ok_or (UnknownTag 0x80) (gf_gocb_ref m) (\<lambda>gocb_ref.
     ok_or (UnknownTag 0x81) (gf_time_allowed_to_live m) (\<lambda>tal.
     ok_or (UnknownTag 0x82) (gf_dat_set m) (\<lambda>dat_set.
     ok_or (UnknownTag 0x83) (gf_go_id m) (\<lambda>go_id.
     ok_or MissingTimestamp (gf_t m) (\<lambda>t.
     ok_or (UnknownTag 0x85) (gf_st_num m) (\<lambda>st_num.
     ok_or (UnknownTag 0x86) (gf_sq_num m) (\<lambda>sq_num.
     ok_or (UnknownTag 0x88) (gf_conf_rev m) (\<lambda>conf_rev.
     ok_or (UnknownTag 0x8a) (gf_num_dataset_entries m) (\<lambda>num.
     ok_or (UnknownTag 0xab) (gf_all_data m) (\<lambda>all_data.
       if unat num \<noteq> length all_data then Inl (DataSetLengthMismatch (unat num) (length all_data))
       else Inr \<lparr>gp_gocb_ref = gocb_ref, gp_time_allowed_to_live = tal, gp_dat_set = dat_set, gp_go_id = go_id,
         gp_t = t, gp_st_num = st_num, gp_sq_num = sq_num, gp_simulation = gf_simulation m,
         gp_conf_rev = conf_rev, gp_nds_com = gf_nds_com m, gp_num_dataset_entries = num,
         gp_all_data = all_data\<rparr>))))))))))"

definition decode_ber :: "bytes \<Rightarrow> goose_error + goose_pdu" where
  "decode_ber data =
     (if length data < 2 then Inl EthernetFrameTooShort
      else if hd data \<noteq> 0x61 then Inl TagDecode
      else case decode_length (tl data) of
        Inl e \<Rightarrow> Inl (Asn1 e)
      | Inr (len, hdr) \<Rightarrow>
          if 1 + hdr + len > length data then Inl (TruncatedGoose (1 + hdr + len) (length data))
          else (case goose_members_of (1 + hdr) (take len (drop (1 + hdr) data)) nothing_found of
                  Inl e \<Rightarrow> Inl e
                | Inr m \<Rightarrow> goose_complete m))"

section \<open>Integer contents\<close>

lemma strip_unsigned_same: "length (strip_unsigned bs) = length bs \<Longrightarrow> strip_unsigned bs = bs"
proof (induction bs rule: strip_unsigned.induct)
  case (1 a b bs)
  then show ?case using strip_unsigned_length [of "b # bs"] by (auto split: if_splits)
qed simp_all

text \<open>An unsigned number behind a zero octet keeps the octet, or fits the octets of the number.\<close>

lemma strip_zero_cases:
  obtains (long) "strip_unsigned (0 # bs) = 0 # bs"
  | (short) "strip_unsigned (0 # bs) \<noteq> []" "length (strip_unsigned (0 # bs)) \<le> length bs"
  using strip_unsigned_length [of "0 # bs"] strip_unsigned_same [of "0 # bs"]
  by (cases "length (strip_unsigned (0 # bs)) = Suc (length bs)") fastforce+

lemma decode_u32_encoded [simp]: "decode_u32_from_bytes (encode_u32_integer v) = Inr v"
proof -
  have "nat_of_be (u32_to_be v) = unat v"
    using from_be_u32_to_be [of v] unat_from_be [of "u32_to_be v", where 'a = 32] by simp
  then have fold: "foldl (\<lambda>v b. push_bit 8 v OR ucast b) (0 :: u32) (u32_to_be v) = v"
    by (simp add: fold_octets_value)
  show ?thesis
  proof (cases rule: strip_zero_cases [of "u32_to_be v"])
    case long
    then show ?thesis by (simp add: decode_u32_from_bytes_def encode_u32_integer_def fold)
  next
    case short
    then show ?thesis
      using strip_unsigned_fold [of "0 # u32_to_be v", where 'a = 32] fold
      by (simp add: decode_u32_from_bytes_def encode_u32_integer_def)
  qed
qed

lemma decode_unsigned_encoded [simp]: "goose_decode_unsigned (goose_unsigned u) = Inr (Unsigned u)"
proof -
  have "nat_of_be (bytes8 (u64_to_be u)) = unat u"
    using unat_u64_from_be [of "u64_to_be u"] by simp
  then have fold: "foldl (\<lambda>v b. push_bit 8 v OR ucast b) (0 :: u64) (bytes8 (u64_to_be u)) = u"
    by (simp add: fold_octets_value)
  show ?thesis
  proof (cases rule: strip_zero_cases [of "bytes8 (u64_to_be u)"])
    case long
    then show ?thesis by (simp add: goose_decode_unsigned_def goose_unsigned_def fold)
  next
    case short
    then show ?thesis
      using strip_unsigned_fold [of "0 # bytes8 (u64_to_be u)", where 'a = 64] fold
      by (simp add: goose_decode_unsigned_def goose_unsigned_def)
  qed
qed

lemma top_bit_u8: "(b :: u8) AND 0x80 = 0 \<longleftrightarrow> \<not> bit b 7"
  using and_exp_eq_0_iff_not_bit [of b 7] by simp

lemma strip_nonnegative: "bs \<noteq> [] \<Longrightarrow> hd bs AND 0x80 = 0 \<Longrightarrow> strip_unsigned bs = strip_signed bs"
proof (induction bs rule: strip_unsigned.induct)
  case (1 a b bs)
  moreover have "a \<noteq> 0xff" using 1(3) by auto
  ultimately show ?case by simp
qed simp_all

lemma strip_negative_signed: "bs \<noteq> [] \<Longrightarrow> hd bs AND 0x80 \<noteq> 0 \<Longrightarrow> strip_negative bs = strip_signed bs"
proof (induction bs rule: strip_negative.induct)
  case (1 a b bs)
  moreover have "a \<noteq> 0" using 1(3) by auto
  ultimately show ?case by simp
qed simp_all

lemma hd_bytes8: "hd (bytes8 (u64_to_be i)) = ucast (drop_bit 56 i)"
proof -
  have "hd (bytes8 (u64_to_be i)) = of_nat (unat i div 256 ^ 7)"
    using be_of_nat_Cons [of 7 "unat i"] by (simp add: bytes8_u64_to_be del: of_nat_div)
  also have "unat i div 256 ^ 7 = unat (drop_bit 56 i)" using unat_drop_bit_eq [of 56 i] drop_bit_eq_div [of 56 "unat i"] by simp
  finally show ?thesis by simp
qed

lemma hd_bytes8_sign: "hd (bytes8 (u64_to_be i)) AND 0x80 = 0 \<longleftrightarrow> 0 \<le> sint (i :: i64)"
proof -
  have "bit (hd (bytes8 (u64_to_be i))) 7 \<longleftrightarrow> bit i 63" unfolding hd_bytes8 by (simp add: bit_simps)
  then show ?thesis using bit_last_iff [of i] by (simp add: top_bit_u8 not_less [symmetric])
qed

lemma goose_integer_signed: "goose_integer i = strip_signed (bytes8 (u64_to_be i))"
proof -
  have "bytes8 (u64_to_be i) \<noteq> []" by (cases "u64_to_be i") simp
  then show ?thesis
    using strip_nonnegative strip_negative_signed by (simp add: goose_integer_def Let_def hd_bytes8_sign [symmetric])
qed

section \<open>Values\<close>

text \<open>
  The reference encoding: what the tag, length and contents of a value are when no depth is counted, the
  levels a value nests, and the values whose parts a TLV of the protocol can carry.
\<close>

fun goose_bytes :: "mms_value \<Rightarrow> bytes" where
  "goose_bytes (Boolean b) = tlv 0x83 (goose_bool b)"
| "goose_bytes (Integer i) = tlv 0x85 (goose_integer i)"
| "goose_bytes (Unsigned u) = tlv 0x86 (goose_unsigned u)"
| "goose_bytes (Float32 f) = tlv 0x87 (0x08 # u32_to_be f)"
| "goose_bytes (Float64 f) = tlv 0x87 (0x0b # bytes8 (u64_to_be f))"
| "goose_bytes (BitString padding d) = tlv 0x84 (padding # d)"
| "goose_bytes (OctetString bs) = tlv 0x89 bs"
| "goose_bytes (VisibleString s) = tlv 0x8a (str_bytes s)"
| "goose_bytes (MmsString s) = tlv 0x90 (str_bytes s)"
| "goose_bytes (UtcTimeValue ts) = tlv 0x91 (bytes8 ts)"
| "goose_bytes (BinaryTime bt) = tlv 0x8c bt"
| "goose_bytes (Array items) = tlv 0xa1 (concat (map goose_bytes items))"
| "goose_bytes (Structure items) = tlv 0xa2 (concat (map goose_bytes items))"

fun value_depth :: "mms_value \<Rightarrow> nat" where
  "value_depth (Array items) = foldr (\<lambda>v. max (Suc (value_depth v))) items 0"
| "value_depth (Structure items) = foldr (\<lambda>v. max (Suc (value_depth v))) items 0"
| "value_depth _ = 0"

fun goose_ok :: "mms_value \<Rightarrow> bool" where
  "goose_ok (BitString p d) \<longleftrightarrow> p \<le> 7 \<and> d \<noteq> [] \<and> length d < 0xFFFF"
| "goose_ok (OctetString b) \<longleftrightarrow> length b \<le> 0xFFFF"
| "goose_ok (VisibleString s) \<longleftrightarrow> str_valid s \<and> length s \<le> 0xFFFF"
| "goose_ok (MmsString s) \<longleftrightarrow> str_valid s \<and> length s \<le> 0xFFFF"
| "goose_ok (BinaryTime b) \<longleftrightarrow> length b = 4 \<or> length b = 6"
| "goose_ok (Array items) \<longleftrightarrow> (\<forall>v \<in> set items. goose_ok v) \<and> length (concat (map goose_bytes items)) \<le> 0xFFFF"
| "goose_ok (Structure items) \<longleftrightarrow> (\<forall>v \<in> set items. goose_ok v) \<and> length (concat (map goose_bytes items)) \<le> 0xFFFF"
| "goose_ok _ = True"

fun is_container :: "mms_value \<Rightarrow> bool" where
  "is_container (Array _) = True"
| "is_container (Structure _) = True"
| "is_container _ = False"

definition fits :: "u8 \<Rightarrow> mms_value \<Rightarrow> bool" where
  "fits depth v \<longleftrightarrow> unat depth + value_depth v \<le> unat GOOSE_DATA_MAX_DEPTH"

lemma goose_bytes_nonempty [simp]: "goose_bytes v \<noteq> []"
  by (cases v) (simp_all add: tlv_def)

lemma depth_8 [simp]: "unat GOOSE_DATA_MAX_DEPTH = 8"
  by (simp add: GOOSE_DATA_MAX_DEPTH_def)

lemma too_deep_unfits: "depth > GOOSE_DATA_MAX_DEPTH \<Longrightarrow> \<not> fits depth v"
  by (simp add: fits_def word_less_nat_alt)

lemma next_depth: "\<not> depth > GOOSE_DATA_MAX_DEPTH \<Longrightarrow> unat (depth + 1) = Suc (unat depth)"
  by (rule succ_depth) (simp add: word_less_nat_alt)

lemma fits_container:
  assumes "\<not> depth > GOOSE_DATA_MAX_DEPTH"
  shows "fits depth (Array items) \<longleftrightarrow> (\<forall>v \<in> set items. fits (depth + 1) v)"
    and "fits depth (Structure items) \<longleftrightarrow> (\<forall>v \<in> set items. fits (depth + 1) v)"
  using assms next_depth [OF assms] foldr_max_le [of "unat depth" value_depth items 8]
  by (auto simp: fits_def word_less_nat_alt)

lemma map_ok_simps [simp]:
  "map_ok f (Inl e) = Inl e" "map_ok f (Inr x) = Inr (f x)"
  "map_ok f r = Inr y \<longleftrightarrow> (\<exists>x. r = Inr x \<and> y = f x)" "map_ok f r = Inl e \<longleftrightarrow> r = Inl e"
  by (auto simp: map_ok_def split: sum.splits)

text \<open>The encoder writes the reference encoding of what fits, and refuses the rest.\<close>

lemma encode_mms_value_meets_reference:
  "encode_mms_value v depth = (if fits depth v then Inr (goose_bytes v) else Inl (SubLevel Overflow))"
  "encode_mms_values vs depth =
     (if \<forall>v \<in> set vs. fits depth v then Inr (concat (map goose_bytes vs)) else Inl (SubLevel Overflow))"
proof (induction v depth and vs depth rule: encode_mms_value_encode_mms_values.induct)
  case (1 v depth)
  show ?case
  proof (cases "depth > GOOSE_DATA_MAX_DEPTH")
    case True
    then show ?thesis using too_deep_unfits by simp
  next
    case False
    then have "\<not> is_container v \<Longrightarrow> fits depth v"
      by (cases v) (simp_all add: fits_def word_less_nat_alt)
    then show ?thesis using False 1 fits_container [OF False] by (cases v) simp_all
  qed
qed simp_all

lemma read_tlv_header_tlv [simp]:
  assumes "length c \<le> 0xFFFF"
  shows "read_tlv_header pos (tlv tag c @ rest) = Inr (tag, 1 + length_size (length c), c, length (tlv tag c))"
  using assms by (simp add: read_tlv_header_def tlv_def)

lemma goose_integer_length: "length (goose_integer i) \<le> 8" "goose_integer i \<noteq> []"
  using strip_signed_length [of "bytes8 (u64_to_be i)"]
  by (auto simp: goose_integer_signed) (metis bytes8_u64_to_be be_of_nat_8_neq)

lemma goose_unsigned_length: "length (goose_unsigned u) \<le> 9"
  using strip_unsigned_length [of "0 # bytes8 (u64_to_be u)"] by (simp add: goose_unsigned_def)

lemma decode_integer_encoded: "goose_decode_primitive 0x85 (goose_integer i) = Inr (Integer i)"
proof -
  have "fold_octets (sign_fill (goose_integer i)) (goose_integer i) = i"
    by (simp add: goose_integer_signed strip_signed_fold bytes8_u64_to_be fold_octets_u64)
  then show ?thesis
    using goose_integer_length [of i] by (simp add: goose_decode_primitive_def)
qed


lemma value_tlv:
  assumes "goose_ok v" and "\<not> is_container v"
  obtains tag c where "goose_bytes v = tlv tag c" and "length c \<le> 0xFFFF" and "tag \<noteq> 0xa1"
    and "tag \<noteq> 0xa2" and "goose_decode_primitive tag c = Inr v"
proof -
  have int: "length (goose_integer i) \<le> 0xFFFF" "length (goose_unsigned i) \<le> 0xFFFF" for i
    using goose_integer_length [of i] goose_unsigned_length [of i] by linarith+
  have uns: "goose_decode_primitive 0x86 (goose_unsigned u) = Inr (Unsigned u)" for u
    by (simp add: goose_decode_primitive_def)
  show thesis
    using assms that int decode_integer_encoded uns
    by (cases v) (force simp: goose_decode_primitive_def goose_bool_def goose_decode_string_def from_be_bytes8 not_less)+
qed

definition element_outcome :: "mms_value \<Rightarrow> u8 \<Rightarrow> goose_error + mms_value \<times> nat" where
  "element_outcome v depth = (if fits depth v then Inr (v, length (goose_bytes v)) else Inl (SubLevel Overflow))"

lemma decode_elements_encoded:
  assumes "\<And>v pos rest. v \<in> set items \<Longrightarrow>
      decode_data_element pos (goose_bytes v @ rest) depth = element_outcome v depth"
  shows "decode_data_elements pos (concat (map goose_bytes items)) depth =
    (if \<forall>v \<in> set items. fits depth v then Inr items else Inl (SubLevel Overflow))"
  using assms
proof (induction items arbitrary: pos)
  case Nil
  show ?case by (simp add: decode_data_elements.simps)
next
  case (Cons v vs)
  then show ?case by (subst decode_data_elements.simps) (simp add: element_outcome_def)
qed

lemma decode_element_encoded:
  "goose_ok v \<Longrightarrow> decode_data_element pos (goose_bytes v @ rest) depth = element_outcome v depth"
proof (induction v arbitrary: pos rest depth)
  case (Array items)
  then show ?case
    using too_deep_unfits [of depth "Array items"] fits_container(1) [of depth items]
    by (subst decode_data_element.simps) (simp add: decode_elements_encoded element_outcome_def)
next
  case (Structure items)
  then show ?case
    using too_deep_unfits [of depth "Structure items"] fits_container(2) [of depth items]
    by (subst decode_data_element.simps) (simp add: decode_elements_encoded element_outcome_def)
qed (erule value_tlv, simp, subst decode_data_element.simps,
     simp add: element_outcome_def fits_def word_less_nat_alt)+

lemma decode_values_encoded:
  assumes "\<And>v. v \<in> set items \<Longrightarrow> goose_ok v"
  shows "decode_data_elements pos (concat (map goose_bytes items)) depth =
    (if \<forall>v \<in> set items. fits depth v then Inr items else Inl (SubLevel Overflow))"
  using decode_element_encoded [OF assms] by (rule decode_elements_encoded)

section \<open>The PDU\<close>

lemma drop_tlv [simp]: "drop (Suc (length_size (length c) + length c)) (tlv tag c @ rest) = rest"
  by (simp add: tlv_def)

lemma tlv_nonempty [simp]: "tlv tag c \<noteq> []"
  by (simp add: tlv_def)

lemma goose_members_of_tlv:
  assumes "length c \<le> 0xFFFF"
  shows "goose_members_of pos (tlv tag c @ rest) m =
    (case goose_member (pos + (1 + length_size (length c))) tag c m of
       Inl e \<Rightarrow> Inl e
     | Inr m \<Rightarrow> goose_members_of (pos + length (tlv tag c)) rest m)"
  using assms by (subst goose_members_of.simps) (simp split: sum.splits)

lemma encode_u32_integer_length [simp]: "length (encode_u32_integer v) \<le> 0xFFFF"
  using strip_unsigned_length [of "0 # u32_to_be v"] by (simp add: encode_u32_integer_def)

definition utc_valid :: "utc_time \<Rightarrow> bool" where
  "utc_valid t \<longleftrightarrow> utc_time_from_bytes (utc_time_to_bytes t) = Inr t"

definition goose_string_ok :: "string \<Rightarrow> bool" where
  "goose_string_ok s \<longleftrightarrow> str_valid s \<and> length s \<le> GOOSE_STRING_MAX_LEN"

text \<open>What every decoded PDU satisfies.\<close>

definition pdu_typed :: "goose_pdu \<Rightarrow> bool" where
  "pdu_typed p \<longleftrightarrow> goose_string_ok (gp_gocb_ref p) \<and> goose_string_ok (gp_dat_set p) \<and> goose_string_ok (gp_go_id p)
     \<and> utc_valid (gp_t p) \<and> gp_st_num p \<noteq> 0
     \<and> unat (gp_num_dataset_entries p) = length (gp_all_data p) \<and> (\<forall>v \<in> set (gp_all_data p). fits 0 v)"

text \<open>A PDU that a frame can carry: the data set and its values fit the length fields of their TLVs.\<close>

definition pdu_ok :: "goose_pdu \<Rightarrow> bool" where
  "pdu_ok p \<longleftrightarrow> pdu_typed p \<and> (\<forall>v \<in> set (gp_all_data p). goose_ok v)
     \<and> length (goose_members p (concat (map goose_bytes (gp_all_data p)))) \<le> 0xFFFF"

lemma parse_goose_string [simp]: "goose_string_ok s \<Longrightarrow> parse_string_field (str_bytes s) GOOSE_STRING_MAX_LEN = Inr s"
  by (simp add: parse_string_field_def goose_string_ok_def)

lemma decode_t_encoded [simp]: "utc_valid t \<Longrightarrow> decode_t (bytes8 (utc_time_to_bytes t)) = Inr t"
  by (simp add: decode_t_def utc_valid_def)

lemma decode_st_num_encoded [simp]: "v \<noteq> 0 \<Longrightarrow> decode_st_num (encode_u32_integer v) = Inr v"
  by (simp add: decode_st_num_def)

lemma flag_of_bool [simp]: "flag_of (goose_bool b) = b"
  by (simp add: flag_of_def goose_bool_def)

lemma length_goose_bool [simp]: "length (goose_bool b) = 1"
  by (simp add: goose_bool_def)

lemma members_bounded:
  assumes "length (goose_members p all_data) \<le> 0xFFFF"
  shows "length all_data \<le> 0xFFFF"
  using assms by (simp add: goose_members_def)

lemma goose_members_decoded:
  assumes "pdu_typed p" and "\<And>v. v \<in> set (gp_all_data p) \<Longrightarrow> goose_ok v"
    and "length (goose_members p (concat (map goose_bytes (gp_all_data p)))) \<le> 0xFFFF"
  shows "\<exists>m. goose_members_of pos (goose_members p (concat (map goose_bytes (gp_all_data p)))) nothing_found = Inr m
    \<and> goose_complete m = Inr p"
proof -
  have "length s \<le> 0xFFFF" if "goose_string_ok s" for s
    using that by (simp add: goose_string_ok_def GOOSE_STRING_MAX_LEN_def)
  moreover have "decode_data_elements q (concat (map goose_bytes (gp_all_data p))) 0 = Inr (gp_all_data p)" for q
    using assms(1) decode_values_encoded [OF assms(2), where depth = 0] by (simp add: pdu_typed_def)
  moreover have "goose_members_of q [] m = Inr m" for q m by (simp add: goose_members_of.simps)
  moreover note goose_members_of_tlv [where rest = "[]", simplified append_Nil2]
  ultimately show ?thesis
    using assms(1) members_bounded [OF assms(3)]
    by (simp add: goose_members_def goose_members_of_tlv goose_member_def pdu_typed_def goose_complete_def
        ok_or_def nothing_found_def del: length_concat)
qed

definition goose_pdu_bytes :: "goose_pdu \<Rightarrow> bytes" where
  "goose_pdu_bytes p = tlv 0x61 (goose_members p (concat (map goose_bytes (gp_all_data p))))"

lemma goose_pdu_encoded: "pdu_typed p \<Longrightarrow> encode_ber p = Inr (goose_pdu_bytes p)"
  by (simp add: encode_ber_def encode_mms_value_meets_reference(2) pdu_typed_def goose_pdu_bytes_def)

lemma goose_pdu_decoded:
  assumes "pdu_ok p"
  shows "decode_ber (goose_pdu_bytes p @ rest) = Inr p"
proof -
  let ?ms = "goose_members p (concat (map goose_bytes (gp_all_data p)))"
  obtain m where "goose_members_of (1 + length_size (length ?ms)) ?ms nothing_found = Inr m"
    and "goose_complete m = Inr p"
    using goose_members_decoded [of p "1 + length_size (length ?ms)"] assms unfolding pdu_ok_def by blast
  then show ?thesis using assms by (simp add: decode_ber_def pdu_ok_def tlv_def goose_pdu_bytes_def)
qed

text \<open>
  A PDU the wire can carry survives encoding: the encoder accepts it, and the decoder gives it back, whatever
  follows the encoding in the buffer.
\<close>

theorem goose_pdu_roundtrip:
  assumes "pdu_ok p"
  shows "\<exists>bs. encode_ber p = Inr bs \<and> decode_ber (bs @ rest) = Inr p"
  using goose_pdu_encoded [of p] goose_pdu_decoded [OF assms] assms by (simp add: pdu_ok_def)

definition sample_pdu :: goose_pdu where
  "sample_pdu = \<lparr>gp_gocb_ref = ''LD/gcb'', gp_time_allowed_to_live = 2000, gp_dat_set = ''LD/ds'', gp_go_id = ''id'',
     gp_t = UtcTime (Array8 0x65 0 0 0 0 0 0 0), gp_st_num = 3, gp_sq_num = 0, gp_simulation = False, gp_conf_rev = 1,
     gp_nds_com = False, gp_num_dataset_entries = 2,
     gp_all_data = [Boolean True, Structure [Integer (- 5), BitString 6 [0x40]]]\<rparr>"

lemma encode_u32_integer_short: "length (encode_u32_integer v) \<le> 5"
  using strip_unsigned_length [of "0 # u32_to_be v"] by (simp add: encode_u32_integer_def)

text \<open>The members beside the data set take at most 500 octets.\<close>

lemma goose_members_length:
  assumes "pdu_typed p"
  shows "length (goose_members p all_data) \<le> 500 + length all_data"
proof -
  have size: "length_size n \<le> 3" for n by (simp add: length_size_def)
  have "length s \<le> 129" if "goose_string_ok s" for s using that by (simp add: goose_string_ok_def GOOSE_STRING_MAX_LEN_def)
  then have "length (gp_gocb_ref p) \<le> 129" "length (gp_dat_set p) \<le> 129" "length (gp_go_id p) \<le> 129"
    using assms by (auto simp: pdu_typed_def)
  then have "length (goose_members p all_data) \<le> 12 * 4 + 3 * 129 + 5 * 5 + 8 + 2 + length all_data"
    unfolding goose_members_def length_append length_tlv length_str_bytes length_bytes8 length_goose_bool
    using size [of "length (gp_gocb_ref p)"] size [of "length (gp_dat_set p)"] size [of "length (gp_go_id p)"]
      size [of "length all_data"] size [of 8] size [of 1]
      size [of "length (encode_u32_integer (gp_time_allowed_to_live p))"]
      size [of "length (encode_u32_integer (gp_st_num p))"] size [of "length (encode_u32_integer (gp_sq_num p))"]
      size [of "length (encode_u32_integer (gp_conf_rev p))"]
      size [of "length (encode_u32_integer (gp_num_dataset_entries p))"]
      encode_u32_integer_short [of "gp_time_allowed_to_live p"] encode_u32_integer_short [of "gp_st_num p"]
      encode_u32_integer_short [of "gp_sq_num p"] encode_u32_integer_short [of "gp_conf_rev p"]
      encode_u32_integer_short [of "gp_num_dataset_entries p"]
    by linarith
  then show ?thesis by simp
qed

lemma pdu_okI:
  assumes "pdu_typed p" and "\<forall>v \<in> set (gp_all_data p). goose_ok v"
    and "length (concat (map goose_bytes (gp_all_data p))) \<le> 65000"
  shows "pdu_ok p"
  using assms goose_members_length [OF assms(1), of "concat (map goose_bytes (gp_all_data p))"]
  by (simp add: pdu_ok_def)

lemma sample_pdu_ok: "pdu_ok sample_pdu"
proof (rule pdu_okI)
  have i: "goose_integer (- 5) = [0xfb]" by (simp add: goose_integer_def u64_to_be_def Let_def)
  have "utc_valid (gp_t sample_pdu)" by code_simp
  then show "pdu_typed sample_pdu"
    by (simp add: pdu_typed_def sample_pdu_def goose_string_ok_def str_valid_def str_bytes_def
        GOOSE_STRING_MAX_LEN_def fits_def)
  show "\<forall>v \<in> set (gp_all_data sample_pdu). goose_ok v" and
    "length (concat (map goose_bytes (gp_all_data sample_pdu))) \<le> 65000"
    by (simp_all add: sample_pdu_def i length_size_def)
qed

theorem goose_pdu_roundtrip_witness:
  "pdu_ok sample_pdu \<and> (\<exists>bs. encode_ber sample_pdu = Inr bs \<and> decode_ber (bs @ [0, 0]) = Inr sample_pdu)"
  using sample_pdu_ok goose_pdu_roundtrip [OF sample_pdu_ok] by blast

section \<open>What the decoder accepts\<close>

lemma decode_primitive_flat: "goose_decode_primitive tag val = Inr v \<Longrightarrow> value_depth v = 0"
  by (auto simp: goose_decode_primitive_def goose_decode_unsigned_def goose_decode_string_def
      split: if_splits option.splits)

lemma decode_elements_fit:
  "decode_data_element pos data depth = Inr (v, next) \<Longrightarrow> fits depth v"
  "decode_data_elements pos data depth = Inr vs \<Longrightarrow> \<forall>v \<in> set vs. fits depth v"
proof (induction pos data depth and pos data depth arbitrary: v "next" and vs
    rule: decode_data_element_decode_data_elements.induct)
  case (1 pos data depth)
  then have deep: "\<not> depth > GOOSE_DATA_MAX_DEPTH" by (auto simp: decode_data_element.simps [of pos])
  obtain tag start val where header: "read_tlv_header pos data = Inr (tag, start, val, next)"
    using "1.prems" deep by (auto simp: decode_data_element.simps [of pos] split: sum.splits if_splits)
  show ?case
  proof (cases "tag = 0xa1 \<or> tag = 0xa2")
    case True
    then obtain items where "decode_data_elements (pos + start) val (depth + 1) = Inr items"
      and "v = Array items \<or> v = Structure items"
      using "1.prems" deep header by (auto simp: decode_data_element.simps [of pos])
    moreover from this(1) have "\<forall>v \<in> set items. fits (depth + 1) v"
      using True "1.IH" [OF deep header refl refl refl] by blast
    ultimately show ?thesis using fits_container [OF deep, of items] by blast
  next
    case False
    then have "value_depth v = 0"
      using "1.prems" deep header decode_primitive_flat by (auto simp: decode_data_element.simps [of pos])
    with deep show ?thesis by (simp add: fits_def word_less_nat_alt)
  qed
next
  case (2 pos data depth)
  show ?case
  proof (cases "data = []")
    case True
    then show ?thesis using "2.prems" by (simp add: decode_data_elements.simps)
  next
    case False
    then obtain item "next" items where "decode_data_element pos data depth = Inr (item, next)"
      and "decode_data_elements (pos + next) (drop next data) depth = Inr items" and "vs = item # items"
      using "2.prems" by (auto simp: decode_data_elements.simps [of pos] split: sum.splits)
    moreover have "fits depth item" using "2.IH"(1) False calculation(1) .
    moreover have "\<forall>v \<in> set items. fits depth v" using "2.IH"(2) False calculation(1,2) by simp
    ultimately show ?thesis by simp
  qed
qed

lemma from_utf8_typed:
  assumes "from_utf8 bs = Some s"
  shows "str_valid s" and "length s = length bs"
proof -
  have "unat (b :: u8) mod 256 = unat b" for b using unat_u8_less [of b] by simp
  then have "str_bytes s = bs"
    using assms by (auto simp: from_utf8_def str_bytes_def comp_def split: if_splits intro!: map_idI)
  with assms show "str_valid s" and "length s = length bs"
    by (auto simp: from_utf8_def str_valid_def split: if_splits)
qed

lemma parse_string_typed: "parse_string_field val GOOSE_STRING_MAX_LEN = Inr s \<Longrightarrow> goose_string_ok s"
  using from_utf8_typed [of val s]
  by (auto simp: parse_string_field_def goose_string_ok_def split: if_splits option.splits)

lemma decode_t_typed: "decode_t val = Inr t \<Longrightarrow> utc_valid t"
  by (auto simp: decode_t_def utc_valid_def split: if_splits sum.splits)

lemma decode_st_num_typed: "decode_st_num val = Inr v \<Longrightarrow> v \<noteq> 0"
  by (auto simp: decode_st_num_def split: if_splits sum.splits)

definition found_typed :: "goose_found \<Rightarrow> bool" where
  "found_typed m \<longleftrightarrow> (\<forall>s \<in> set_option (gf_gocb_ref m) \<union> set_option (gf_dat_set m) \<union> set_option (gf_go_id m). goose_string_ok s)
     \<and> pred_option utc_valid (gf_t m) \<and> pred_option (\<lambda>v. v \<noteq> 0) (gf_st_num m)
     \<and> pred_option (\<lambda>vs. \<forall>v \<in> set vs. fits 0 v) (gf_all_data m)"

lemma found_typed_update:
  "found_typed m \<Longrightarrow> goose_string_ok s \<Longrightarrow> found_typed (m\<lparr>gf_gocb_ref := Some s\<rparr>)"
  "found_typed m \<Longrightarrow> goose_string_ok s \<Longrightarrow> found_typed (m\<lparr>gf_dat_set := Some s\<rparr>)"
  "found_typed m \<Longrightarrow> goose_string_ok s \<Longrightarrow> found_typed (m\<lparr>gf_go_id := Some s\<rparr>)"
  "found_typed m \<Longrightarrow> utc_valid t \<Longrightarrow> found_typed (m\<lparr>gf_t := Some t\<rparr>)"
  "found_typed m \<Longrightarrow> v \<noteq> 0 \<Longrightarrow> found_typed (m\<lparr>gf_st_num := Some v\<rparr>)"
  "found_typed m \<Longrightarrow> \<forall>v \<in> set vs. fits 0 v \<Longrightarrow> found_typed (m\<lparr>gf_all_data := Some vs\<rparr>)"
  "found_typed m \<Longrightarrow> found_typed (m\<lparr>gf_time_allowed_to_live := x\<rparr>)"
  "found_typed m \<Longrightarrow> found_typed (m\<lparr>gf_sq_num := x\<rparr>)"
  "found_typed m \<Longrightarrow> found_typed (m\<lparr>gf_simulation := b\<rparr>)"
  "found_typed m \<Longrightarrow> found_typed (m\<lparr>gf_conf_rev := x\<rparr>)"
  "found_typed m \<Longrightarrow> found_typed (m\<lparr>gf_nds_com := b\<rparr>)"
  "found_typed m \<Longrightarrow> found_typed (m\<lparr>gf_num_dataset_entries := x\<rparr>)"
  by (auto simp: found_typed_def)

lemma goose_member_typed: "goose_member pos tag val m = Inr m' \<Longrightarrow> found_typed m \<Longrightarrow> found_typed m'"
  using decode_elements_fit(2) [of pos val 0] parse_string_typed [of val] decode_t_typed [of val] decode_st_num_typed [of val]
  unfolding goose_member_def
  by (simp split: if_splits) (safe; simp add: found_typed_update)+

lemma nothing_found_typed: "found_typed nothing_found"
  by (simp add: found_typed_def nothing_found_def)

lemma goose_members_typed: "goose_members_of pos data m = Inr m' \<Longrightarrow> found_typed m \<Longrightarrow> found_typed m'"
proof (induction pos data m rule: goose_members_of.induct)
  case (1 pos data m)
  show ?case
  proof (cases "data = []")
    case True
    then show ?thesis using "1.prems" by (simp add: goose_members_of.simps)
  next
    case False
    then obtain tag start val "next" m1 where header: "read_tlv_header pos data = Inr (tag, start, val, next)"
      and member: "goose_member (pos + start) tag val m = Inr m1"
      and rest: "goose_members_of (pos + next) (drop next data) m1 = Inr m'"
      using "1.prems"(1) by (subst (asm) goose_members_of.simps) (auto split: sum.splits)
    show ?thesis
      using "1.IH" [OF False header refl refl refl member rest] goose_member_typed [OF member "1.prems"(2)] .
  qed
qed

lemma ok_or_Inr: "ok_or e x f = Inr y \<longleftrightarrow> (\<exists>v. x = Some v \<and> f v = Inr y)"
  by (cases x) (simp_all add: ok_or_def)

lemma goose_complete_typed: "found_typed m \<Longrightarrow> goose_complete m = Inr p \<Longrightarrow> pdu_typed p"
  by (auto simp: goose_complete_def ok_or_Inr found_typed_def pdu_typed_def split: if_splits)

text \<open>
  C22. Every PDU the decoder returns is well typed: its references are UTF-8 of at most 129 octets, its
  timestamp is one the time type accepts, stNum is not zero, numDatSetEntries is the number of values, and no
  value nests deeper than the limit.
\<close>

theorem decoded_pdu_is_typed:
  assumes "decode_ber data = Inr p"
  shows "pdu_typed p"
proof -
  obtain m pos d where "goose_members_of pos d nothing_found = Inr m" and c: "goose_complete m = Inr p"
    using assms by (auto simp: decode_ber_def split: if_splits sum.splits)
  then have "found_typed m" using goose_members_typed nothing_found_typed by blast
  with c show ?thesis by (rule goose_complete_typed [rotated])
qed

theorem decoded_pdu_is_typed_witness:
  "\<exists>data p. decode_ber data = Inr p \<and> p = sample_pdu \<and> pdu_typed p"
proof -
  have "decode_ber (goose_pdu_bytes sample_pdu) = Inr sample_pdu"
    using goose_pdu_decoded [OF sample_pdu_ok, of "[]"] by simp
  then show ?thesis using decoded_pdu_is_typed by blast
qed

end
