(* ===== verification/Goose_Frame.thy ===== *)
theory Goose_Frame
  imports Goose_Pdu
begin

text \<open>
  The Ethernet frame of crates/iec61850-goose/src/frame.rs. \<open>[u8; 6]\<close> is the type \<open>mac\<close>; \<open>GooseFrame::encode\<close>
  gives the octets it appends to its buffer, whose number is the length it returns.
\<close>

datatype mac = Mac u8 u8 u8 u8 u8 u8

fun mac_bytes :: "mac \<Rightarrow> bytes" where
  "mac_bytes (Mac a b c d e f) = [a, b, c, d, e, f]"

definition GOOSE_ETHER_TYPE :: u16 where
  "GOOSE_ETHER_TYPE = 0x88B8"

definition VLAN_TPID :: u16 where
  "VLAN_TPID = 0x8100"

definition ETHERNET_HEADER_NO_VLAN :: nat where
  "ETHERNET_HEADER_NO_VLAN = 14"

definition ETHERNET_HEADER_WITH_VLAN :: nat where
  "ETHERNET_HEADER_WITH_VLAN = 18"

definition GOOSE_HEADER_SIZE :: nat where
  "GOOSE_HEADER_SIZE = 8"

definition RESERVED1_SIMULATION :: u16 where
  "RESERVED1_SIMULATION = 0x8000"

datatype vlan_priority = VlanPriority (priority_value: u8)

definition vlan_priority_new :: "u8 \<Rightarrow> goose_error + vlan_priority" where
  "vlan_priority_new p = (if p > 7 then Inl (VlanPriorityOutOfRange p) else Inr (VlanPriority p))"

record vlan_tag =
  vt_priority :: vlan_priority
  vt_vlan_id :: u16

definition vlan_tag_default :: vlan_tag where
  "vlan_tag_default = \<lparr>vt_priority = VlanPriority 4, vt_vlan_id = 0\<rparr>"

record goose_frame_header =
  fh_dst_mac :: mac
  fh_src_mac :: mac
  fh_vlan :: "vlan_tag option"
  fh_app_id :: u16
  fh_length :: u16
  fh_simulation :: bool

definition goose_frame_header_new :: "mac \<Rightarrow> mac \<Rightarrow> u16 \<Rightarrow> goose_frame_header" where
  "goose_frame_header_new dst_mac src_mac app_id =
     \<lparr>fh_dst_mac = dst_mac, fh_src_mac = src_mac, fh_vlan = None, fh_app_id = app_id, fh_length = 0,
      fh_simulation = False\<rparr>"

record goose_frame =
  gfr_header :: goose_frame_header
  gfr_pdu_bytes :: bytes

definition vlan_bytes :: "vlan_tag option \<Rightarrow> bytes" where
  "vlan_bytes vlan =
     (case vlan of
        None \<Rightarrow> []
      | Some v \<Rightarrow> u16_to_be VLAN_TPID
          @ [push_bit 5 (priority_value (vt_priority v)) OR (ucast (drop_bit 8 (vt_vlan_id v)) AND 0x0F),
             ucast (vt_vlan_id v AND 0xFF)])"

definition frame_encode :: "goose_frame \<Rightarrow> bytes" where
  "frame_encode fr =
     (let hdr = gfr_header fr;
          len = of_nat (length (gfr_pdu_bytes fr) + GOOSE_HEADER_SIZE) :: u16;
          reserved1 = if fh_simulation hdr then RESERVED1_SIMULATION else 0
      in mac_bytes (fh_dst_mac hdr) @ mac_bytes (fh_src_mac hdr) @ vlan_bytes (fh_vlan hdr)
         @ u16_to_be GOOSE_ETHER_TYPE @ u16_to_be (fh_app_id hdr) @ u16_to_be len
         @ u16_to_be reserved1 @ [0x00, 0x00] @ gfr_pdu_bytes fr)"

definition u16_at :: "bytes \<Rightarrow> nat \<Rightarrow> u16" where
  "u16_at buf pos = from_be [buf ! pos, buf ! (pos + 1)]"

definition mac_at :: "bytes \<Rightarrow> nat \<Rightarrow> mac" where
  "mac_at buf pos =
     Mac (buf ! pos) (buf ! (pos + 1)) (buf ! (pos + 2)) (buf ! (pos + 3)) (buf ! (pos + 4)) (buf ! (pos + 5))"

text \<open>The part of \<open>GooseFrame::decode\<close> behind the EtherType, which ends at \<open>pos\<close>.\<close>

definition decode_goose_header :: "bytes \<Rightarrow> nat \<Rightarrow> vlan_tag option \<Rightarrow> goose_error + goose_frame" where
  "decode_goose_header buf pos vlan =
     (if length buf < pos + GOOSE_HEADER_SIZE then Inl EthernetFrameTooShort
      else let len = u16_at buf (pos + 2);
               start = pos + 8;
               apdu_length = unat len - GOOSE_HEADER_SIZE
           in if unat len < GOOSE_HEADER_SIZE then Inl EthernetFrameTooShort
              else if start + apdu_length > length buf then Inl EthernetFrameTooShort
              else Inr \<lparr>gfr_header = \<lparr>fh_dst_mac = mac_at buf 0, fh_src_mac = mac_at buf 6, fh_vlan = vlan,
                       fh_app_id = u16_at buf pos, fh_length = len,
                       fh_simulation = (u16_at buf (pos + 4) AND RESERVED1_SIMULATION \<noteq> 0)\<rparr>,
                     gfr_pdu_bytes = take apdu_length (drop start buf)\<rparr>)"

definition frame_decode :: "bytes \<Rightarrow> goose_error + goose_frame" where
  "frame_decode buf =
     (if length buf < ETHERNET_HEADER_NO_VLAN then Inl EthernetFrameTooShort
      else if u16_at buf 12 = VLAN_TPID then
        (if length buf < ETHERNET_HEADER_WITH_VLAN then Inl EthernetFrameTooShort
         else let tci0 = buf ! 14;
                  tci1 = buf ! 15
              in case vlan_priority_new (drop_bit 5 tci0 AND 0x07) of
                   Inl e \<Rightarrow> Inl e
                 | Inr priority \<Rightarrow>
                     if u16_at buf 16 \<noteq> GOOSE_ETHER_TYPE then Inl (WrongEtherType (u16_at buf 16))
                     else decode_goose_header buf 18 (Some \<lparr>vt_priority = priority,
                            vt_vlan_id = push_bit 8 (ucast tci0 AND 0x0F) OR ucast tci1\<rparr>))
      else if u16_at buf 12 = GOOSE_ETHER_TYPE then decode_goose_header buf 14 None
      else Inl (WrongEtherType (u16_at buf 12)))"

definition parse_frame_to_pdu :: "bytes \<Rightarrow> goose_error + goose_pdu" where
  "parse_frame_to_pdu buf =
     (case frame_decode buf of Inl e \<Rightarrow> Inl e | Inr fr \<Rightarrow> decode_ber (gfr_pdu_bytes fr))"

section \<open>The round trip\<close>

lemma u16_to_be_octets: "u16_to_be w = [ucast (drop_bit 8 w), ucast w]"
proof -
  have "unat w div 256 = unat (drop_bit 8 w)"
    using unat_drop_bit_eq [of 8 w] drop_bit_eq_div [of 8 "unat w"] by simp
  then show ?thesis by (simp add: u16_to_be_def be_of_nat_2 del: of_nat_div)
qed

lemma from_be_u16_octets: "from_be [ucast (drop_bit 8 w), ucast w] = (w :: u16)"
  using from_be_u16_to_be [of w] by (simp add: u16_to_be_octets)

definition vlan_ok :: "vlan_tag option \<Rightarrow> bool" where
  "vlan_ok vlan \<longleftrightarrow> (\<forall>v. vlan = Some v \<longrightarrow> priority_value (vt_priority v) \<le> 7 \<and> vt_vlan_id v < 4096)"

lemma tci_octets:
  assumes "p \<le> 7" and "vid < 4096"
  shows "drop_bit 5 (push_bit 5 p OR (ucast (drop_bit 8 vid) AND 0x0F) :: u8) AND 0x07 = p"
    and "push_bit 8 (ucast (push_bit 5 p OR (ucast (drop_bit 8 vid) AND 0x0F) :: u8) AND 0x0F)
      OR ucast (ucast (vid AND 0xFF) :: u8) = (vid :: u16)"
proof -
  have masks: "(0x07 :: u8) = mask 3" "(0x0F :: u8) = mask 4" "(0x0F :: u16) = mask 4" "(0xFF :: u16) = mask 8"
    by (simp_all add: mask_eq_exp_minus_1)
  have "take_bit 3 p = p"
    using assms(1) by (simp add: word_unat_eq_iff unsigned_take_bit_eq take_bit_nat_eq_self_iff word_le_nat_alt)
  then have p: "bit p n \<Longrightarrow> n < 3" for n by (metis bit_take_bit_iff)
  have "take_bit 12 vid = vid"
    using assms(2) by (simp add: word_unat_eq_iff unsigned_take_bit_eq take_bit_nat_eq_self_iff word_less_nat_alt)
  then have v: "bit vid n \<Longrightarrow> n < 12" for n by (metis bit_take_bit_iff)
  show "drop_bit 5 (push_bit 5 p OR (ucast (drop_bit 8 vid) AND 0x0F) :: u8) AND 0x07 = p"
    unfolding masks by (rule bit_word_eqI) (auto simp: bit_simps dest: p)
  show "push_bit 8 (ucast (push_bit 5 p OR (ucast (drop_bit 8 vid) AND 0x0F) :: u8) AND 0x0F)
      OR ucast (ucast (vid AND 0xFF) :: u8) = vid"
    unfolding masks by (rule bit_word_eqI) (auto simp: bit_simps dest: v)
qed

text \<open>The header with the Length field that \<open>encode\<close> computes.\<close>

definition with_length :: "goose_frame \<Rightarrow> goose_frame" where
  "with_length fr =
     fr\<lparr>gfr_header := (gfr_header fr)\<lparr>fh_length := of_nat (length (gfr_pdu_bytes fr) + GOOSE_HEADER_SIZE)\<rparr>\<rparr>"

lemma simulation_bit:
  "(if b then RESERVED1_SIMULATION else 0) AND RESERVED1_SIMULATION \<noteq> 0 \<longleftrightarrow> b"
  by (simp add: RESERVED1_SIMULATION_def)

lemma u16_at_octets:
  assumes "buf ! pos = ucast (drop_bit 8 w)" and "buf ! (pos + 1) = ucast w"
  shows "u16_at buf pos = w"
  unfolding u16_at_def assms by (rule from_be_u16_octets)

lemma decode_goose_header_encoded:
  assumes "buf = before @ u16_to_be app_id @ u16_to_be (of_nat (length pdu + 8)) @
      u16_to_be (if sim then RESERVED1_SIMULATION else 0) @ [0, 0] @ pdu @ rest"
    and "length pdu + 8 < 65536"
  shows "decode_goose_header buf (length before) vlan =
    Inr \<lparr>gfr_header = \<lparr>fh_dst_mac = mac_at buf 0, fh_src_mac = mac_at buf 6, fh_vlan = vlan, fh_app_id = app_id,
           fh_length = of_nat (length pdu + 8), fh_simulation = sim\<rparr>, gfr_pdu_bytes = pdu\<rparr>"
proof -
  have at: "buf ! (length before + k) =
      (u16_to_be app_id @ u16_to_be (of_nat (length pdu + 8)) @
       u16_to_be (if sim then RESERVED1_SIMULATION else 0) @ [0, 0] @ pdu @ rest) ! k" for k
    unfolding assms(1) by (simp add: nth_append)
  have f0: "u16_at buf (length before) = app_id"
    using at [of 0] at [of 1] by (intro u16_at_octets) (simp_all add: u16_to_be_octets)
  have f2: "u16_at buf (length before + 2) = of_nat (length pdu + 8)"
    using at [of 2] at [of 3] by (intro u16_at_octets) (simp_all add: u16_to_be_octets numeral_eq_Suc)
  have f4: "u16_at buf (length before + 4) = (if sim then RESERVED1_SIMULATION else 0)"
    using at [of 4] at [of 5] by (intro u16_at_octets) (simp_all add: u16_to_be_octets numeral_eq_Suc)
  note fields = f0 f2 f4
  have len: "unat (of_nat (length pdu + 8) :: u16) = length pdu + 8"
    using assms(2) by (simp add: unat_of_nat del: of_nat_add)
  have rest: "take (length pdu) (drop (length before + 8) buf) = pdu"
    unfolding assms(1) by (simp add: u16_to_be_octets)
  have total: "length buf = length before + 8 + length pdu + length rest"
    unfolding assms(1) by simp
  show ?thesis
    unfolding decode_goose_header_def Let_def fields len
    using simulation_bit [of sim] by (simp add: GOOSE_HEADER_SIZE_def total rest del: of_nat_add)
qed

lemma frame_roundtrip:
  assumes "vlan_ok (fh_vlan (gfr_header fr))" and "length (gfr_pdu_bytes fr) + 8 < 65536"
  shows "frame_decode (frame_encode fr @ rest) = Inr (with_length fr)"
proof -
  obtain dst src vlan app_id len sim pdu where fr:
    "fr = \<lparr>gfr_header = \<lparr>fh_dst_mac = dst, fh_src_mac = src, fh_vlan = vlan, fh_app_id = app_id, fh_length = len,
       fh_simulation = sim\<rparr>, gfr_pdu_bytes = pdu\<rparr>"
    by (metis goose_frame.surjective goose_frame_header.surjective old.unit.exhaust)
  define before where "before = mac_bytes dst @ mac_bytes src @ vlan_bytes vlan @ u16_to_be GOOSE_ETHER_TYPE"
  define buf where "buf = frame_encode fr @ rest"
  have buf: "buf = before @ u16_to_be app_id @ u16_to_be (of_nat (length pdu + 8)) @
      u16_to_be (if sim then RESERVED1_SIMULATION else 0) @ [0, 0] @ pdu @ rest"
    by (simp add: buf_def before_def fr frame_encode_def Let_def GOOSE_HEADER_SIZE_def del: of_nat_add)
  have macs: "mac_at buf 0 = dst" "mac_at buf 6 = src"
    unfolding buf before_def by (cases dst; cases src; simp add: mac_at_def)+
  have "length pdu + 8 < 65536" using assms(2) fr by simp
  note hdr = decode_goose_header_encoded [OF buf this, unfolded macs]
  have total: "length before + 8 \<le> length buf" unfolding buf by simp
  show ?thesis
  proof (cases vlan)
    case None
    then have "length before = 14" by (cases dst; cases src) (simp add: before_def vlan_bytes_def)
    moreover have "u16_at buf 12 = GOOSE_ETHER_TYPE"
      using None unfolding buf before_def
      by (cases dst; cases src) (simp add: u16_at_octets u16_to_be_octets vlan_bytes_def)
    ultimately show ?thesis
      using hdr [of None] total None unfolding buf_def [symmetric] frame_decode_def
      by (simp add: ETHERNET_HEADER_NO_VLAN_def with_length_def fr GOOSE_HEADER_SIZE_def
          GOOSE_ETHER_TYPE_def VLAN_TPID_def)
  next
    case (Some v)
    let ?p = "priority_value (vt_priority v)"
    have ok: "?p \<le> 7" "vt_vlan_id v < 4096" using assms(1) Some by (simp_all add: fr vlan_ok_def)
    have before: "length before = 18" using Some by (cases dst; cases src) (simp add: before_def vlan_bytes_def)
    have "u16_at buf 12 = VLAN_TPID" "u16_at buf 16 = GOOSE_ETHER_TYPE"
      using Some unfolding buf before_def
      by (cases dst; cases src; simp add: u16_at_octets u16_to_be_octets vlan_bytes_def)+
    moreover have "buf ! 14 = push_bit 5 ?p OR (ucast (drop_bit 8 (vt_vlan_id v)) AND 0x0F)"
      "buf ! 15 = ucast (vt_vlan_id v AND 0xFF)"
      using Some unfolding buf before_def by (cases dst; cases src; simp add: u16_to_be_octets vlan_bytes_def)+
    ultimately show ?thesis
      using hdr [of "Some v"] total before Some tci_octets [OF ok] ok(1) unfolding buf_def [symmetric] frame_decode_def
      by (cases v) (simp add: ETHERNET_HEADER_NO_VLAN_def ETHERNET_HEADER_WITH_VLAN_def with_length_def fr
          GOOSE_HEADER_SIZE_def vlan_priority_new_def not_less Let_def)
  qed
qed

end
