(* ===== verification/Goose_Publisher.thy ===== *)
theory Goose_Publisher
  imports Goose_Frame
begin

text \<open>
  The publisher of crates/iec61850-goose/src/publisher.rs. A \<open>Duration\<close> and an \<open>Instant\<close> count nanoseconds.
  A timestamp source, a closure of the caller, is the sequence of its readings with the number already made.
\<close>

record comm_parameters =
  cp_app_id :: u16
  cp_dst_mac :: mac
  cp_src_mac :: "mac option"
  cp_vlan :: "vlan_tag option"

definition comm_parameters_new :: "u16 \<Rightarrow> mac \<Rightarrow> comm_parameters" where
  "comm_parameters_new app_id dst_mac =
     \<lparr>cp_app_id = app_id, cp_dst_mac = dst_mac, cp_src_mac = None, cp_vlan = Some vlan_tag_default\<rparr>"

definition with_vlan :: "comm_parameters \<Rightarrow> vlan_tag \<Rightarrow> comm_parameters" where
  "with_vlan c vlan = c\<lparr>cp_vlan := Some vlan\<rparr>"

definition without_vlan :: "comm_parameters \<Rightarrow> comm_parameters" where
  "without_vlan c = c\<lparr>cp_vlan := None\<rparr>"

definition with_src_mac :: "comm_parameters \<Rightarrow> mac \<Rightarrow> comm_parameters" where
  "with_src_mac c src = c\<lparr>cp_src_mac := Some src\<rparr>"

definition with_priority :: "comm_parameters \<Rightarrow> vlan_priority \<Rightarrow> comm_parameters" where
  "with_priority c priority =
     c\<lparr>cp_vlan := Some \<lparr>vt_priority = priority,
         vt_vlan_id = (case cp_vlan c of Some v \<Rightarrow> vt_vlan_id v | None \<Rightarrow> 0)\<rparr>\<rparr>"

section \<open>Retransmission intervals\<close>

abbreviation from_millis :: "nat \<Rightarrow> nat" where
  "from_millis ms \<equiv> ms * 1000000"

abbreviation as_millis :: "nat \<Rightarrow> nat" where
  "as_millis d \<equiv> d div 1000000"

definition DURATION_MAX :: nat where
  "DURATION_MAX = (2 ^ 64 - 1) * 1000000000 + 999999999"

record retrans_intervals =
  ri_t1 :: nat
  ri_t2 :: nat
  ri_t3 :: nat
  ri_t4 :: nat
  ri_tmax :: nat

definition retrans_default :: retrans_intervals where
  "retrans_default =
     \<lparr>ri_t1 = from_millis 4, ri_t2 = from_millis 8, ri_t3 = from_millis 16, ri_t4 = from_millis 32,
      ri_tmax = from_millis 1000\<rparr>"

definition from_min_max :: "nat \<Rightarrow> nat \<Rightarrow> retrans_intervals" where
  "from_min_max min_time max_time =
     (let t1 = max min_time (from_millis 1);
          tmax = max max_time t1;
          step = (\<lambda>n. min (min (t1 * 2 ^ n) DURATION_MAX) tmax)
      in \<lparr>ri_t1 = t1, ri_t2 = step 1, ri_t3 = step 2, ri_t4 = step 3, ri_tmax = tmax\<rparr>)"

text \<open>The \<open>MinTime\<close> and the \<open>MaxTime\<close> of the \<open>GseAddress\<close>, the fields the constructor reads.\<close>

definition from_gse :: "u32 option \<Rightarrow> u32 option \<Rightarrow> retrans_intervals" where
  "from_gse min_time_ms max_time_ms =
     from_min_max
       (case min_time_ms of None \<Rightarrow> ri_t1 retrans_default | Some ms \<Rightarrow> from_millis (unat ms))
       (case max_time_ms of None \<Rightarrow> ri_tmax retrans_default | Some ms \<Rightarrow> from_millis (unat ms))"

datatype retrans_phase = T1 | T2 | T3 | T4 | Stable

fun phase_interval :: "retrans_phase \<Rightarrow> retrans_intervals \<Rightarrow> nat" where
  "phase_interval T1 i = ri_t1 i"
| "phase_interval T2 i = ri_t2 i"
| "phase_interval T3 i = ri_t3 i"
| "phase_interval T4 i = ri_t4 i"
| "phase_interval Stable i = ri_tmax i"

fun advance :: "retrans_phase \<Rightarrow> retrans_phase" where
  "advance T1 = T2"
| "advance T2 = T3"
| "advance T3 = T4"
| "advance T4 = Stable"
| "advance Stable = Stable"

section \<open>The publisher\<close>

type_synonym timestamp_source = "(nat \<Rightarrow> utc_time) \<times> nat"

record goose_publisher =
  gpub_gocb_ref :: string
  gpub_data_set_ref :: string
  gpub_go_id :: "string option"
  gpub_conf_rev :: u32
  gpub_st_num :: u32
  gpub_sq_num :: u32
  gpub_simulation :: bool
  gpub_needs_commission :: bool
  gpub_timestamp :: utc_time
  gpub_timestamp_source :: "timestamp_source option"
  gpub_time_allowed_to_live_override :: "u32 option"
  gpub_comm :: comm_parameters
  gpub_frame_header_bytes :: bytes
  gpub_length_field_offset :: nat
  gpub_retrans_intervals :: retrans_intervals
  gpub_phase :: retrans_phase
  gpub_next_publish_at :: "nat option"
  gpub_enabled :: bool

definition GOOSE_MAX_FRAME_SIZE :: nat where
  "GOOSE_MAX_FRAME_SIZE = 1518"

definition goose_publisher_new ::
    "comm_parameters \<Rightarrow> string \<Rightarrow> string option \<Rightarrow> string \<Rightarrow> u32 \<Rightarrow> goose_error + goose_publisher" where
  "goose_publisher_new comm gocb_ref go_id data_set_ref conf_rev =
     (if gocb_ref = [] then Inl (FieldTooLong 0)
      else if data_set_ref = [] then Inl (FieldTooLong 0)
      else let src_mac = (case cp_src_mac comm of Some m \<Rightarrow> m | None \<Rightarrow> Mac 0 0 0 0 0 0);
               header = \<lparr>fh_dst_mac = cp_dst_mac comm, fh_src_mac = src_mac, fh_vlan = cp_vlan comm,
                 fh_app_id = cp_app_id comm, fh_length = 8, fh_simulation = False\<rparr>
           in Inr \<lparr>gpub_gocb_ref = gocb_ref, gpub_data_set_ref = data_set_ref, gpub_go_id = go_id,
                gpub_conf_rev = conf_rev, gpub_st_num = 1, gpub_sq_num = 0, gpub_simulation = False,
                gpub_needs_commission = False, gpub_timestamp = UTC_TIME_NULL, gpub_timestamp_source = None,
                gpub_time_allowed_to_live_override = None, gpub_comm = comm,
                gpub_frame_header_bytes = frame_encode \<lparr>gfr_header = header, gfr_pdu_bytes = []\<rparr>,
                gpub_length_field_offset = (if cp_vlan comm \<noteq> None then 20 else 16),
                gpub_retrans_intervals = retrans_default, gpub_phase = T1, gpub_next_publish_at = None,
                gpub_enabled = False\<rparr>)"

definition set_enabled :: "goose_publisher \<Rightarrow> bool \<Rightarrow> goose_publisher" where
  "set_enabled p on = p\<lparr>gpub_enabled := on\<rparr>"

definition set_data_set_ref :: "goose_publisher \<Rightarrow> string \<Rightarrow> goose_publisher \<times> (goose_error + unit)" where
  "set_data_set_ref p data_set_ref =
     (if data_set_ref = [] then (p, Inl (FieldTooLong 0)) else (p\<lparr>gpub_data_set_ref := data_set_ref\<rparr>, Inr ()))"

definition set_simulation :: "goose_publisher \<Rightarrow> bool \<Rightarrow> goose_publisher" where
  "set_simulation p v =
     (let reserved1 = gpub_length_field_offset p + 2;
          s_bit = ucast (drop_bit 8 RESERVED1_SIMULATION) :: u8;
          header = gpub_frame_header_bytes p
      in p\<lparr>gpub_simulation := v,
           gpub_frame_header_bytes :=
             header[reserved1 := if v then header ! reserved1 OR s_bit else header ! reserved1 AND NOT s_bit]\<rparr>)"

definition set_needs_commission :: "goose_publisher \<Rightarrow> bool \<Rightarrow> goose_publisher" where
  "set_needs_commission p v = p\<lparr>gpub_needs_commission := v\<rparr>"

definition set_go_id :: "goose_publisher \<Rightarrow> string option \<Rightarrow> goose_publisher" where
  "set_go_id p go_id = p\<lparr>gpub_go_id := go_id\<rparr>"

definition set_conf_rev :: "goose_publisher \<Rightarrow> u32 \<Rightarrow> goose_publisher" where
  "set_conf_rev p v = p\<lparr>gpub_conf_rev := v\<rparr>"

definition set_retrans_intervals :: "goose_publisher \<Rightarrow> retrans_intervals \<Rightarrow> goose_publisher" where
  "set_retrans_intervals p intervals = p\<lparr>gpub_retrans_intervals := intervals\<rparr>"

definition set_time_allowed_to_live :: "goose_publisher \<Rightarrow> u32 option \<Rightarrow> goose_publisher" where
  "set_time_allowed_to_live p ms = p\<lparr>gpub_time_allowed_to_live_override := ms\<rparr>"

definition next_interval :: "goose_publisher \<Rightarrow> nat" where
  "next_interval p = phase_interval (gpub_phase p) (gpub_retrans_intervals p)"

definition time_allowed_to_live_ms :: "goose_publisher \<Rightarrow> u32" where
  "time_allowed_to_live_ms p =
     (case gpub_time_allowed_to_live_override p of
        Some v \<Rightarrow> v
      | None \<Rightarrow>
          let doubled = 2 * as_millis (next_interval p) in if doubled < 2 ^ 32 then of_nat doubled else - 1)"

definition stamp_state_change :: "goose_publisher \<Rightarrow> goose_publisher" where
  "stamp_state_change p =
     (case gpub_timestamp_source p of
        None \<Rightarrow> p
      | Some (source, n) \<Rightarrow> p\<lparr>gpub_timestamp := source n, gpub_timestamp_source := Some (source, Suc n)\<rparr>)"

definition increase_st_num :: "goose_publisher \<Rightarrow> goose_publisher" where
  "increase_st_num p =
     (let new_st = gpub_st_num p + 1
      in stamp_state_change
           (p\<lparr>gpub_st_num := (if new_st = 0 then 1 else new_st), gpub_sq_num := 0, gpub_phase := T1,
              gpub_next_publish_at := None\<rparr>))"

definition publisher_reset :: "goose_publisher \<Rightarrow> goose_publisher" where
  "publisher_reset p =
     stamp_state_change (p\<lparr>gpub_st_num := 1, gpub_sq_num := 0, gpub_phase := T1, gpub_next_publish_at := None\<rparr>)"

definition set_timestamp_source :: "goose_publisher \<Rightarrow> timestamp_source option \<Rightarrow> goose_publisher" where
  "set_timestamp_source p source = p\<lparr>gpub_timestamp_source := source\<rparr>"

definition set_timestamp :: "goose_publisher \<Rightarrow> utc_time \<Rightarrow> goose_publisher" where
  "set_timestamp p ts = p\<lparr>gpub_timestamp := ts\<rparr>"

definition next_publish_at :: "goose_publisher \<Rightarrow> nat \<Rightarrow> nat" where
  "next_publish_at p now = (case gpub_next_publish_at p of Some t \<Rightarrow> t | None \<Rightarrow> now)"

definition publisher_tick :: "goose_publisher \<Rightarrow> nat \<Rightarrow> nat option" where
  "publisher_tick p now = (let target = next_publish_at p now in if now \<ge> target then Some target else None)"

text \<open>The PDU that \<open>publish_at\<close> builds.\<close>

definition publication :: "goose_publisher \<Rightarrow> mms_value list \<Rightarrow> goose_pdu" where
  "publication p data =
     \<lparr>gp_gocb_ref = gpub_gocb_ref p, gp_time_allowed_to_live = time_allowed_to_live_ms p,
      gp_dat_set = gpub_data_set_ref p,
      gp_go_id = (case gpub_go_id p of Some i \<Rightarrow> i | None \<Rightarrow> gpub_gocb_ref p), gp_t = gpub_timestamp p,
      gp_st_num = gpub_st_num p, gp_sq_num = gpub_sq_num p, gp_simulation = gpub_simulation p,
      gp_conf_rev = gpub_conf_rev p, gp_nds_com = gpub_needs_commission p,
      gp_num_dataset_entries = of_nat (length data), gp_all_data = data\<rparr>"

text \<open>The counters and the schedule after a publication.\<close>

definition published :: "goose_publisher \<Rightarrow> nat \<Rightarrow> goose_publisher" where
  "published p now =
     (let new_sq = gpub_sq_num p + 1
      in p\<lparr>gpub_sq_num := (if new_sq = 0 then 1 else new_sq), gpub_phase := advance (gpub_phase p),
           gpub_next_publish_at := Some (now + next_interval p)\<rparr>)"

definition publish_at :: "goose_publisher \<Rightarrow> mms_value list \<Rightarrow> nat \<Rightarrow> goose_publisher \<times> (goose_error + bytes)" where
  "publish_at p data now =
     (case encode_ber (publication p data) of
        Inl e \<Rightarrow> (p, Inl e)
      | Inr pdu_bytes \<Rightarrow>
          if length (gpub_frame_header_bytes p) + length pdu_bytes > GOOSE_MAX_FRAME_SIZE then (p, Inl PduOverflow)
          else let len = length pdu_bytes + 8;
                   length_be = u16_to_be (if len < 2 ^ 16 then of_nat len else - 1);
                   o1 = gpub_length_field_offset p;
                   out = (gpub_frame_header_bytes p)[o1 := length_be ! 0, o1 + 1 := length_be ! 1]
               in (published p now, Inr (out @ pdu_bytes)))"

section \<open>The frame template\<close>

text \<open>The header the template stands for.\<close>

definition frame_header :: "goose_publisher \<Rightarrow> goose_frame_header" where
  "frame_header p =
     \<lparr>fh_dst_mac = cp_dst_mac (gpub_comm p),
      fh_src_mac = (case cp_src_mac (gpub_comm p) of Some m \<Rightarrow> m | None \<Rightarrow> Mac 0 0 0 0 0 0),
      fh_vlan = cp_vlan (gpub_comm p), fh_app_id = cp_app_id (gpub_comm p), fh_length = 8,
      fh_simulation = gpub_simulation p\<rparr>"

definition source_valid :: "timestamp_source option \<Rightarrow> bool" where
  "source_valid source \<longleftrightarrow> (\<forall>f n. source = Some (f, n) \<longrightarrow> (\<forall>i. utc_valid (f i)))"

text \<open>
  A publisher is well formed when its references are not empty, stNum is not zero, its time is one the type
  can hold, and the template is the header encoded with the simulation flag of the moment.
\<close>

definition publisher_inv :: "goose_publisher \<Rightarrow> bool" where
  "publisher_inv p \<longleftrightarrow> gpub_gocb_ref p \<noteq> [] \<and> gpub_data_set_ref p \<noteq> [] \<and> gpub_st_num p \<noteq> 0
     \<and> utc_valid (gpub_timestamp p) \<and> source_valid (gpub_timestamp_source p)
     \<and> gpub_frame_header_bytes p = frame_encode \<lparr>gfr_header = frame_header p, gfr_pdu_bytes = []\<rparr>
     \<and> gpub_length_field_offset p = (if cp_vlan (gpub_comm p) \<noteq> None then 20 else 16)"

lemma length_mac_bytes [simp]: "length (mac_bytes m) = 6"
  by (cases m) simp

text \<open>The octets before the Length field.\<close>

definition address_octets :: "goose_frame_header \<Rightarrow> bytes" where
  "address_octets hdr = mac_bytes (fh_dst_mac hdr) @ mac_bytes (fh_src_mac hdr) @ vlan_bytes (fh_vlan hdr)
     @ u16_to_be GOOSE_ETHER_TYPE @ u16_to_be (fh_app_id hdr)"

lemma length_address_octets: "length (address_octets hdr) = (if fh_vlan hdr \<noteq> None then 20 else 16)"
  by (simp add: address_octets_def vlan_bytes_def split: option.split)

lemma frame_encode_split:
  "frame_encode \<lparr>gfr_header = hdr, gfr_pdu_bytes = pdu\<rparr> =
     address_octets hdr @ u16_to_be (of_nat (length pdu + 8)) @ [if fh_simulation hdr then 0x80 else 0, 0, 0, 0] @ pdu"
proof -
  have "u16_to_be (if b then RESERVED1_SIMULATION else 0) = [if b then 0x80 else 0, 0]" for b
    by (simp add: u16_to_be_octets RESERVED1_SIMULATION_def)
  then show ?thesis
    by (simp add: frame_encode_def Let_def address_octets_def GOOSE_HEADER_SIZE_def del: of_nat_add)
qed

lemma template_split:
  assumes "publisher_inv p"
  shows "gpub_frame_header_bytes p =
      address_octets (frame_header p) @ u16_to_be 8 @ [if gpub_simulation p then 0x80 else 0, 0, 0, 0]"
    and "gpub_length_field_offset p = length (address_octets (frame_header p))"
  using assms by (simp_all add: publisher_inv_def frame_encode_split length_address_octets frame_header_def)

lemma header_length:
  assumes "publisher_inv p"
  shows "length (gpub_frame_header_bytes p) = gpub_length_field_offset p + 6"
  by (simp add: template_split [OF assms])

lemma set_simulation_header:
  assumes "publisher_inv p"
  shows "gpub_frame_header_bytes (set_simulation p v) =
    frame_encode \<lparr>gfr_header = frame_header (set_simulation p v), gfr_pdu_bytes = []\<rparr>"
proof -
  have addr: "address_octets (frame_header (set_simulation p v)) = address_octets (frame_header p)"
    by (simp add: set_simulation_def Let_def address_octets_def frame_header_def)
  have bits: "(if b then 0x80 else 0) OR (0x80 :: u8) = 0x80" "(if b then 0x80 else 0) AND NOT (0x80 :: u8) = 0" for b
    by simp_all
  have sim: "fh_simulation (frame_header (set_simulation p v)) = v"
    by (simp add: set_simulation_def Let_def frame_header_def)
  have "ucast (drop_bit 8 RESERVED1_SIMULATION) = (0x80 :: u8)" by (simp add: RESERVED1_SIMULATION_def)
  then show ?thesis
    unfolding frame_encode_split addr sim
    by (simp add: set_simulation_def Let_def template_split [OF assms] nth_append list_update_append bits
        u16_to_be_octets)
qed

lemma publisher_new_inv:
  assumes "goose_publisher_new comm gocb_ref go_id data_set_ref conf_rev = Inr p"
  shows "publisher_inv p"
proof -
  have "utc_valid UTC_TIME_NULL" by code_simp
  with assms show ?thesis
    by (auto simp: goose_publisher_new_def publisher_inv_def frame_header_def source_valid_def Let_def split: if_splits)
qed

section \<open>Operations\<close>

text \<open>Every operation that changes a publisher.\<close>

datatype publisher_op =
    SetEnabled bool
  | SetDataSetRef string
  | SetSimulation bool
  | SetNeedsCommission bool
  | SetGoId "string option"
  | SetConfRev u32
  | SetRetransIntervals retrans_intervals
  | SetTimeAllowedToLive "u32 option"
  | IncreaseStNum
  | Reset
  | SetTimestampSource "timestamp_source option"
  | SetTimestamp utc_time
  | Publish "mms_value list" nat

fun publisher_apply :: "publisher_op \<Rightarrow> goose_publisher \<Rightarrow> goose_publisher" where
  "publisher_apply (SetEnabled on) p = set_enabled p on"
| "publisher_apply (SetDataSetRef r) p = fst (set_data_set_ref p r)"
| "publisher_apply (SetSimulation v) p = set_simulation p v"
| "publisher_apply (SetNeedsCommission v) p = set_needs_commission p v"
| "publisher_apply (SetGoId i) p = set_go_id p i"
| "publisher_apply (SetConfRev v) p = set_conf_rev p v"
| "publisher_apply (SetRetransIntervals i) p = set_retrans_intervals p i"
| "publisher_apply (SetTimeAllowedToLive ms) p = set_time_allowed_to_live p ms"
| "publisher_apply IncreaseStNum p = increase_st_num p"
| "publisher_apply Reset p = publisher_reset p"
| "publisher_apply (SetTimestampSource s) p = set_timestamp_source p s"
| "publisher_apply (SetTimestamp t) p = set_timestamp p t"
| "publisher_apply (Publish data now) p = fst (publish_at p data now)"

text \<open>What the types of Rust give: a \<open>UtcTime\<close> is always a valid encoding.\<close>

fun op_typed :: "publisher_op \<Rightarrow> bool" where
  "op_typed (SetTimestamp t) \<longleftrightarrow> utc_valid t"
| "op_typed (SetTimestampSource s) \<longleftrightarrow> source_valid s"
| "op_typed _ \<longleftrightarrow> True"

lemma stamp_keeps_inv: "publisher_inv p \<Longrightarrow> publisher_inv (stamp_state_change p)"
  by (auto simp: stamp_state_change_def publisher_inv_def source_valid_def frame_header_def split: option.splits)

lemma publish_state:
  "fst (publish_at p data now) = p \<or> fst (publish_at p data now) = published p now"
  by (auto simp: publish_at_def Let_def split: sum.splits)

lemma publisher_op_inv: "publisher_inv p \<Longrightarrow> op_typed op \<Longrightarrow> publisher_inv (publisher_apply op p)"
proof (cases op)
  case (SetSimulation v)
  assume inv: "publisher_inv p"
  have "gpub_frame_header_bytes (set_simulation p v) =
    frame_encode \<lparr>gfr_header = frame_header (set_simulation p v), gfr_pdu_bytes = []\<rparr>"
    using inv by (rule set_simulation_header)
  with inv SetSimulation show ?thesis by (auto simp: publisher_inv_def) (simp_all add: set_simulation_def Let_def)
next
  case IncreaseStNum
  assume inv: "publisher_inv p"
  then have "publisher_inv (p\<lparr>gpub_st_num := if gpub_st_num p + 1 = 0 then 1 else gpub_st_num p + 1,
      gpub_sq_num := 0, gpub_phase := T1, gpub_next_publish_at := None\<rparr>)"
    by (simp add: publisher_inv_def frame_header_def)
  then show ?thesis using IncreaseStNum stamp_keeps_inv by (simp add: increase_st_num_def Let_def)
next
  case Reset
  assume inv: "publisher_inv p"
  then have "publisher_inv (p\<lparr>gpub_st_num := 1, gpub_sq_num := 0, gpub_phase := T1, gpub_next_publish_at := None\<rparr>)"
    by (simp add: publisher_inv_def frame_header_def)
  then show ?thesis using Reset stamp_keeps_inv by (simp add: publisher_reset_def)
next
  case (Publish data now)
  assume inv: "publisher_inv p"
  then have "publisher_inv (published p now)" by (simp add: publisher_inv_def published_def frame_header_def Let_def)
  then show ?thesis using publish_state [of p data now] inv Publish by auto
qed (auto simp: publisher_inv_def frame_header_def set_enabled_def set_data_set_ref_def set_needs_commission_def
     set_go_id_def set_conf_rev_def set_retrans_intervals_def set_time_allowed_to_live_def
     set_timestamp_source_def set_timestamp_def)

interpretation pub: kept_by_operations publisher_apply op_typed publisher_inv
  by unfold_locales (rule publisher_op_inv)

definition publisher_run :: "publisher_op list \<Rightarrow> goose_publisher \<Rightarrow> goose_publisher" where
  "publisher_run ops p = foldl (\<lambda>q op. publisher_apply op q) p ops"

lemma publisher_run_inv: "publisher_inv p \<Longrightarrow> \<forall>op \<in> set ops. op_typed op \<Longrightarrow> publisher_inv (publisher_run ops p)"
  unfolding publisher_run_def by (rule pub.run_keeps)

lemma publisher_op_comm: "gpub_comm (publisher_apply op p) = gpub_comm p"
  using publish_state
  by (cases op) (auto simp: set_enabled_def set_data_set_ref_def set_simulation_def set_needs_commission_def
     set_go_id_def set_conf_rev_def set_retrans_intervals_def set_time_allowed_to_live_def increase_st_num_def
     publisher_reset_def stamp_state_change_def set_timestamp_source_def set_timestamp_def Let_def published_def
     publish_at_def split: option.splits sum.splits)

interpretation pub_comm: kept_by_operations publisher_apply "\<lambda>_. True" "\<lambda>p. gpub_comm p = c" for c
  by unfold_locales (simp add: publisher_op_comm)

lemma publisher_run_comm: "gpub_comm (publisher_run ops p) = gpub_comm p"
  unfolding publisher_run_def by (rule pub_comm.run_keeps) simp_all

section \<open>Publications\<close>

lemma publish_at_success:
  assumes "publisher_inv p" and "publish_at p data now = (p', Inr frame)"
  obtains pdu where "encode_ber (publication p data) = Inr pdu"
    and "frame = frame_encode \<lparr>gfr_header = frame_header p, gfr_pdu_bytes = pdu\<rparr>"
    and "length frame \<le> 1518" and "p' = published p now"
proof -
  obtain pdu where pdu: "encode_ber (publication p data) = Inr pdu"
    and small: "length (gpub_frame_header_bytes p) + length pdu \<le> 1518" and p': "p' = published p now"
    using assms(2) by (auto simp: publish_at_def GOOSE_MAX_FRAME_SIZE_def Let_def split: sum.splits if_splits)
  have len: "length pdu + 8 < 2 ^ 16" using small by simp
  let ?be = "u16_to_be (of_nat (length pdu + 8))" and ?o = "gpub_length_field_offset p"
  have two: "?be = [?be ! 0, ?be ! 1]" by (simp add: u16_to_be_octets)
  have "frame = (gpub_frame_header_bytes p)[?o := ?be ! 0, ?o + 1 := ?be ! 1] @ pdu"
    using assms(2) pdu small len by (simp add: publish_at_def GOOSE_MAX_FRAME_SIZE_def Let_def)
  also have "(gpub_frame_header_bytes p)[?o := ?be ! 0, ?o + 1 := ?be ! 1] =
      address_octets (frame_header p) @ [?be ! 0, ?be ! 1] @ [if gpub_simulation p then 0x80 else 0, 0, 0, 0]"
    unfolding template_split [OF assms(1)] by (simp add: list_update_append u16_to_be_octets [of 8])
  finally have frame: "frame = frame_encode \<lparr>gfr_header = frame_header p, gfr_pdu_bytes = pdu\<rparr>"
    unfolding two [symmetric] frame_encode_split by (simp add: frame_header_def)
  have "length frame = length (gpub_frame_header_bytes p) + length pdu"
    unfolding frame frame_encode_split template_split(1) [OF assms(1)] by simp
  with pdu frame small p' show thesis using that by simp
qed

lemma goose_bytes_length: "2 \<le> length (goose_bytes v)"
proof -
  obtain tag c where "goose_bytes v = tlv tag c" by (cases v) auto
  then show ?thesis by (simp add: length_size_def)
qed

lemma values_length: "length data \<le> length (concat (map goose_bytes data))"
proof (induction data)
  case (Cons v vs)
  then show ?case using goose_bytes_length [of v] by simp
qed simp

text \<open>A publication that was encoded into a frame satisfies what the decoder asks.\<close>

definition references_ok :: "goose_publisher \<Rightarrow> bool" where
  "references_ok p \<longleftrightarrow> goose_string_ok (gpub_gocb_ref p) \<and> goose_string_ok (gpub_data_set_ref p)
     \<and> pred_option goose_string_ok (gpub_go_id p)"

lemma publication_ok:
  assumes "publisher_inv p" and "references_ok p" and "\<forall>v \<in> set data. goose_ok v"
    and "encode_ber (publication p data) = Inr pdu" and "length pdu \<le> 1518"
  shows "pdu_ok (publication p data)" and "pdu = goose_pdu_bytes (publication p data)"
proof -
  let ?q = "publication p data"
  have data: "gp_all_data ?q = data" by (simp add: publication_def)
  have fit: "\<forall>v \<in> set data. fits 0 v" and pdu: "pdu = goose_pdu_bytes ?q"
    using assms(4) by (auto simp: encode_ber_def encode_mms_value_meets_reference(2) data goose_pdu_bytes_def
        split: if_splits)
  then show "pdu = goose_pdu_bytes ?q" by simp
  have "length (goose_members ?q (concat (map goose_bytes data))) \<le> 1518"
    using assms(5) unfolding pdu goose_pdu_bytes_def data length_tlv by linarith
  moreover from this have all: "length (concat (map goose_bytes data)) \<le> 1518" by (simp add: goose_members_def)
  then have "length data < 2 ^ 32" using values_length [of data] by simp
  then have "unat (gp_num_dataset_entries ?q) = length data" by (simp add: publication_def unat_of_nat)
  then have "pdu_typed ?q"
    using assms(1,2) fit
    by (auto simp: pdu_typed_def publication_def publisher_inv_def references_ok_def split: option.split)
  ultimately show "pdu_ok ?q" using assms(3) by (simp add: pdu_ok_def data)
qed

lemma published_frame_decodes:
  assumes "publisher_inv p" and "references_ok p" and "vlan_ok (cp_vlan (gpub_comm p))"
    and "\<forall>v \<in> set data. goose_ok v" and "publish_at p data now = (p', Inr frame)"
  shows "frame_decode (frame @ padding) = Inr (with_length \<lparr>gfr_header = frame_header p,
        gfr_pdu_bytes = goose_pdu_bytes (publication p data)\<rparr>)"
    and "decode_ber (goose_pdu_bytes (publication p data)) = Inr (publication p data)"
proof -
  obtain pdu where pdu: "encode_ber (publication p data) = Inr pdu"
    and frame: "frame = frame_encode \<lparr>gfr_header = frame_header p, gfr_pdu_bytes = pdu\<rparr>"
    and small: "length frame \<le> 1518"
    using publish_at_success [OF assms(1,5)] by metis
  have len: "length pdu \<le> 1518" using small unfolding frame frame_encode_split by simp
  have ok: "pdu_ok (publication p data)" and bytes: "pdu = goose_pdu_bytes (publication p data)"
    using publication_ok [OF assms(1,2,4) pdu len] .
  show "decode_ber (goose_pdu_bytes (publication p data)) = Inr (publication p data)"
    using goose_pdu_decoded [OF ok, of "[]"] by simp
  show "frame_decode (frame @ padding) = Inr (with_length \<lparr>gfr_header = frame_header p,
        gfr_pdu_bytes = goose_pdu_bytes (publication p data)\<rparr>)"
    unfolding frame bytes using assms(3) len bytes by (intro frame_roundtrip) (simp_all add: frame_header_def)
qed

text \<open>A data set of at most 900 octets always gets a frame.\<close>

lemma small_publication_succeeds:
  assumes "publisher_inv p" and "references_ok p" and "\<forall>v \<in> set data. fits 0 v"
    and "length (concat (map goose_bytes data)) \<le> 900"
  shows "\<exists>frame. publish_at p data now = (published p now, Inr frame)"
proof -
  let ?q = "publication p data"
  have "length data < 2 ^ 32" using values_length [of data] assms(4) by simp
  then have "unat (gp_num_dataset_entries ?q) = length data" by (simp add: publication_def unat_of_nat)
  then have typed: "pdu_typed ?q"
    using assms(1-3)
    by (auto simp: pdu_typed_def publication_def publisher_inv_def references_ok_def split: option.split)
  have data: "gp_all_data ?q = data" by (simp add: publication_def)
  have "length (goose_members ?q (concat (map goose_bytes data))) \<le> 1400"
    using goose_members_length [OF typed, of "concat (map goose_bytes data)"] assms(4) by linarith
  then have "length (goose_pdu_bytes ?q) \<le> 1404"
    unfolding goose_pdu_bytes_def data length_tlv length_size_def by (auto split: if_splits)
  moreover have "length (gpub_frame_header_bytes p) \<le> 26"
    using header_length [OF assms(1)] assms(1) by (simp add: publisher_inv_def split: if_splits)
  ultimately show ?thesis
    by (simp add: publish_at_def goose_pdu_encoded [OF typed] GOOSE_MAX_FRAME_SIZE_def Let_def)
qed

text \<open>
  C24. The frame a publisher returns, patched into the template it has kept since it was created, is the frame
  that \<open>GooseFrame::encode\<close> gives for its parameters and its simulation flag of the moment, whatever operations
  came before; it has at most 1518 octets.
\<close>

theorem template_frame_is_encoded_frame:
  assumes "goose_publisher_new comm gocb_ref go_id data_set_ref conf_rev = Inr p0"
    and "\<forall>op \<in> set ops. op_typed op"
    and "publish_at (publisher_run ops p0) data now = (p', Inr frame)"
  shows "\<exists>pdu. encode_ber (publication (publisher_run ops p0) data) = Inr pdu
    \<and> frame = frame_encode \<lparr>gfr_header = frame_header (publisher_run ops p0), gfr_pdu_bytes = pdu\<rparr>
    \<and> length frame \<le> 1518"
  using publish_at_success [OF publisher_run_inv [OF publisher_new_inv [OF assms(1)] assms(2)] assms(3)] by blast

definition sample_comm :: comm_parameters where
  "sample_comm = with_src_mac (comm_parameters_new 0x1000 (Mac 0x01 0x0c 0xcd 0x01 0x00 0x01)) (Mac 0 0x50 0xc2 0x12 0x34 0x56)"

definition sample_publisher :: goose_publisher where
  "sample_publisher =
     (case goose_publisher_new sample_comm ''LD/gcb'' None ''LD/ds'' 1 of Inr p \<Rightarrow> p | Inl _ \<Rightarrow> undefined)"

definition sample_ops :: "publisher_op list" where
  "sample_ops = [Publish [Boolean False] 5, SetSimulation True, IncreaseStNum]"

definition sample_values :: "mms_value list" where
  "sample_values = [Boolean True, Structure [BitString 6 [0x40], OctetString [1, 2]]]"

lemma sample_publisher_new: "goose_publisher_new sample_comm ''LD/gcb'' None ''LD/ds'' 1 = Inr sample_publisher"
  by (simp add: sample_publisher_def goose_publisher_new_def Let_def)

lemma sample_references: "references_ok (publisher_run sample_ops sample_publisher)"
proof -
  have refs: "gpub_gocb_ref (publisher_run ops p) = gpub_gocb_ref p \<and> gpub_data_set_ref (publisher_run ops p) = gpub_data_set_ref p
      \<and> gpub_go_id (publisher_run ops p) = gpub_go_id p" if "ops = sample_ops" for ops p
    using publish_state [of p "[Boolean False]" 5]
    by (auto simp: that publisher_run_def sample_ops_def set_simulation_def increase_st_num_def
        stamp_state_change_def Let_def published_def split: option.splits)
  have "gpub_gocb_ref sample_publisher = ''LD/gcb''" "gpub_data_set_ref sample_publisher = ''LD/ds''"
    "gpub_go_id sample_publisher = None"
    by (simp_all add: sample_publisher_def goose_publisher_new_def Let_def)
  with refs show ?thesis
    by (simp add: references_ok_def goose_string_ok_def str_valid_def str_bytes_def GOOSE_STRING_MAX_LEN_def)
qed

lemma sample_publish:
  obtains p' frame where "publish_at (publisher_run sample_ops sample_publisher) sample_values 9 = (p', Inr frame)"
proof -
  have "publisher_inv (publisher_run sample_ops sample_publisher)"
    using publisher_run_inv [OF publisher_new_inv [OF sample_publisher_new], of sample_ops] by (simp add: sample_ops_def)
  moreover have "\<forall>v \<in> set sample_values. fits 0 v" and "length (concat (map goose_bytes sample_values)) \<le> 900"
    by (simp_all add: sample_values_def fits_def length_size_def)
  ultimately show thesis using small_publication_succeeds [OF _ sample_references] that by blast
qed

theorem template_frame_is_encoded_frame_witness:
  "\<exists>p' frame pdu. publish_at (publisher_run sample_ops sample_publisher) sample_values 9 = (p', Inr frame)
    \<and> frame = frame_encode \<lparr>gfr_header = frame_header (publisher_run sample_ops sample_publisher), gfr_pdu_bytes = pdu\<rparr>
    \<and> length frame \<le> 1518"
proof -
  obtain p' frame where a: "publish_at (publisher_run sample_ops sample_publisher) sample_values 9 = (p', Inr frame)"
    by (rule sample_publish)
  have "\<forall>op \<in> set sample_ops. op_typed op" by (simp add: sample_ops_def)
  from template_frame_is_encoded_frame [OF sample_publisher_new this a] a show ?thesis by blast
qed

text \<open>
  C23. Every frame a publisher returns parses back to the PDU it published, also behind the padding of a short
  Ethernet frame, when the references keep to the 129 octets of the protocol, the VLAN tag to its fields and
  the values to what a TLV carries.
\<close>

theorem published_frame_parses:
  assumes "goose_publisher_new comm gocb_ref go_id data_set_ref conf_rev = Inr p0"
    and "\<forall>op \<in> set ops. op_typed op"
    and "publish_at (publisher_run ops p0) data now = (p', Inr frame)"
    and "references_ok (publisher_run ops p0)" and "vlan_ok (cp_vlan comm)" and "\<forall>v \<in> set data. goose_ok v"
  shows "parse_frame_to_pdu (frame @ padding) = Inr (publication (publisher_run ops p0) data)"
proof -
  have "gpub_comm (publisher_run ops p0) = comm"
    unfolding publisher_run_comm using assms(1) by (auto simp: goose_publisher_new_def Let_def split: if_splits)
  then show ?thesis
    using published_frame_decodes [OF publisher_run_inv [OF publisher_new_inv [OF assms(1)] assms(2)] assms(4) _ assms(6,3)] assms(5)
    by (simp add: parse_frame_to_pdu_def with_length_def)
qed

theorem published_frame_parses_witness:
  "\<exists>p' frame. publish_at (publisher_run sample_ops sample_publisher) sample_values 9 = (p', Inr frame)
    \<and> parse_frame_to_pdu (frame @ [0, 0, 0]) = Inr (publication (publisher_run sample_ops sample_publisher) sample_values)"
proof -
  obtain p' frame where a: "publish_at (publisher_run sample_ops sample_publisher) sample_values 9 = (p', Inr frame)"
    by (rule sample_publish)
  have "\<forall>op \<in> set sample_ops. op_typed op" "\<forall>v \<in> set sample_values. goose_ok v" "vlan_ok (cp_vlan sample_comm)"
    by (simp_all add: sample_ops_def sample_values_def length_size_def sample_comm_def with_src_mac_def
        comm_parameters_new_def vlan_ok_def vlan_tag_default_def)
  from published_frame_parses [OF sample_publisher_new this(1) a sample_references this(3,2), of "[0, 0, 0]"] a
  show ?thesis by blast
qed

section \<open>The retransmission burst\<close>

lemma foldl_published_phase:
  "gpub_phase (foldl published p ts) = (advance ^^ length ts) (gpub_phase p)"
  "gpub_retrans_intervals (foldl published p ts) = gpub_retrans_intervals p"
  by (induction ts arbitrary: p) (simp_all add: published_def Let_def funpow_swap1)

lemma advance_settles: "4 \<le> n \<Longrightarrow> (advance ^^ n) ph = Stable"
proof -
  assume "4 \<le> n"
  then obtain k where n: "n = k + 4" by (metis add.commute le_Suc_ex)
  have "(advance ^^ 4) ph = Stable" by (cases ph) (simp_all add: numeral_eq_Suc)
  moreover have "(advance ^^ k) Stable = Stable" for k by (induction k) simp_all
  ultimately show ?thesis by (simp add: n funpow_add)
qed

text \<open>
  C28. The burst after a change ends: whatever phase the publisher is in, from the fifth publication without a
  change on, the next one is scheduled one steady-state interval after the last.
\<close>

theorem burst_settles:
  assumes "5 \<le> length ts"
  shows "gpub_phase (foldl published p ts) = Stable \<and>
    gpub_next_publish_at (foldl published p ts) = Some (last ts + ri_tmax (gpub_retrans_intervals p))"
proof -
  obtain us u where ts: "ts = us @ [u]" using assms by (cases ts rule: rev_cases) auto
  have "gpub_phase (foldl published p us) = Stable"
    using assms by (simp add: foldl_published_phase advance_settles ts)
  then show ?thesis
    by (simp add: ts published_def [of "foldl published p us"] Let_def next_interval_def foldl_published_phase(2))
qed

theorem burst_settles_witness:
  "gpub_phase (foldl published sample_publisher [0, 4000000, 12000000, 28000000, 60000000]) = Stable \<and>
   gpub_next_publish_at (foldl published sample_publisher [0, 4000000, 12000000, 28000000, 60000000]) = Some 1060000000"
proof -
  have "ri_tmax (gpub_retrans_intervals sample_publisher) = 1000000000"
    by (simp add: sample_publisher_def goose_publisher_new_def Let_def retrans_default_def)
  with burst_settles [of "[0, 4000000, 12000000, 28000000, 60000000]" sample_publisher] show ?thesis by simp
qed

end
