(* ===== verification/Goose_Subscriber.thy ===== *)
theory Goose_Subscriber
  imports Goose_Publisher "HOL-Library.Multiset"
begin

text \<open>
  The subscription of crates/iec61850-goose/src/subscriber.rs. A call of the listener is an event an operation
  returns, in the order of the calls; a subscriber without a listener returns none.
\<close>

record subscriber_state =
  gss_gocb_ref :: string
  gss_dat_set :: string
  gss_go_id :: string
  gss_time_allowed_to_live_ms :: u32
  gss_st_num :: u32
  gss_sq_num :: u32
  gss_conf_rev :: u32
  gss_timestamp :: utc_time
  gss_simulation :: bool
  gss_frame_simulation :: bool
  gss_nds_com :: bool
  gss_dataset_values :: "mms_value list"
  gss_src_mac :: mac
  gss_dst_mac :: mac
  gss_vlan :: "vlan_tag option"
  gss_received_at :: nat
  gss_state_valid :: bool

definition is_simulated :: "subscriber_state \<Rightarrow> bool" where
  "is_simulated s \<longleftrightarrow> gss_simulation s \<or> gss_frame_simulation s"

datatype goose_event =
    NewState u32 subscriber_state "goose_error + unit"
  | Retransmission subscriber_state "goose_error + unit"
  | Expired subscriber_state

datatype simulation_filter = AnySimulation | NonSimulated | Simulated

fun filter_accepts :: "simulation_filter \<Rightarrow> bool \<Rightarrow> bool" where
  "filter_accepts AnySimulation simulated \<longleftrightarrow> True"
| "filter_accepts NonSimulated simulated \<longleftrightarrow> \<not> simulated"
| "filter_accepts Simulated simulated \<longleftrightarrow> simulated"

record stream_track =
  st_last :: subscriber_state
  st_expired_fired :: bool
  st_last_seen :: u64

record goose_subscriber =
  gs_gocb_ref :: "string option"
  gs_app_id :: "u16 option"
  gs_dst_mac :: "mac option"
  gs_simulation :: simulation_filter
  gs_max_streams :: nat
  gs_listener :: bool
  gs_last_state :: "subscriber_state option"
  gs_streams :: "stream_track list"
  gs_clock :: u64
  gs_eviction_reported :: bool

definition DEFAULT_OBSERVER_MAX_STREAMS :: nat where
  "DEFAULT_OBSERVER_MAX_STREAMS = 64"

section \<open>The builder\<close>

record subscriber_builder =
  sb_gocb_ref :: "string option"
  sb_app_id :: "u16 option"
  sb_dst_mac :: "mac option"
  sb_simulation :: simulation_filter
  sb_is_observer :: bool
  sb_max_streams :: "nat option"
  sb_listener :: bool

definition builder_new :: subscriber_builder where
  "builder_new = \<lparr>sb_gocb_ref = None, sb_app_id = None, sb_dst_mac = None, sb_simulation = AnySimulation,
     sb_is_observer = False, sb_max_streams = None, sb_listener = False\<rparr>"

definition builder_gocb_ref :: "subscriber_builder \<Rightarrow> string \<Rightarrow> subscriber_builder" where
  "builder_gocb_ref b gocb_ref = b\<lparr>sb_gocb_ref := Some gocb_ref\<rparr>"

definition builder_app_id :: "subscriber_builder \<Rightarrow> u16 \<Rightarrow> subscriber_builder" where
  "builder_app_id b app_id = b\<lparr>sb_app_id := Some app_id\<rparr>"

definition builder_dst_mac :: "subscriber_builder \<Rightarrow> mac \<Rightarrow> subscriber_builder" where
  "builder_dst_mac b dst = b\<lparr>sb_dst_mac := Some dst\<rparr>"

definition builder_simulation :: "subscriber_builder \<Rightarrow> simulation_filter \<Rightarrow> subscriber_builder" where
  "builder_simulation b flt = b\<lparr>sb_simulation := flt\<rparr>"

definition builder_observer :: "subscriber_builder \<Rightarrow> subscriber_builder" where
  "builder_observer b = b\<lparr>sb_is_observer := True\<rparr>"

definition builder_max_streams :: "subscriber_builder \<Rightarrow> nat \<Rightarrow> subscriber_builder" where
  "builder_max_streams b n = b\<lparr>sb_max_streams := Some n\<rparr>"

definition builder_listener :: "subscriber_builder \<Rightarrow> subscriber_builder" where
  "builder_listener b = b\<lparr>sb_listener := True\<rparr>"

definition build :: "subscriber_builder \<Rightarrow> goose_subscriber" where
  "build b =
     \<lparr>gs_gocb_ref = (if sb_is_observer b then None else sb_gocb_ref b), gs_app_id = sb_app_id b,
      gs_dst_mac = sb_dst_mac b, gs_simulation = sb_simulation b,
      gs_max_streams =
        max (case sb_max_streams b of Some n \<Rightarrow> n | None \<Rightarrow> DEFAULT_OBSERVER_MAX_STREAMS) 1,
      gs_listener = sb_listener b, gs_last_state = None, gs_streams = [], gs_clock = 0,
      gs_eviction_reported = False\<rparr>"

definition subscriber_new :: "string \<Rightarrow> goose_subscriber" where
  "subscriber_new gocb_ref = build (builder_gocb_ref builder_new gocb_ref)"

definition new_observer :: goose_subscriber where
  "new_observer = build (builder_observer builder_new)"

definition set_listener :: "goose_subscriber \<Rightarrow> goose_subscriber" where
  "set_listener s = s\<lparr>gs_listener := True\<rparr>"

section \<open>The subscription\<close>

definition is_wrap_to_one :: "u32 \<Rightarrow> u32 \<Rightarrow> bool" where
  "is_wrap_to_one prev new \<longleftrightarrow> prev = - 1 \<and> new = 1"

definition elapsed_ms :: "subscriber_state \<Rightarrow> nat \<Rightarrow> u64" where
  "elapsed_ms state now =
     (let ms = as_millis (now - gss_received_at state) in if ms < 2 ^ 64 then of_nat ms else - 1)"

definition is_valid_at :: "goose_subscriber \<Rightarrow> nat \<Rightarrow> bool" where
  "is_valid_at s now =
     (case gs_last_state s of
        None \<Rightarrow> False
      | Some state \<Rightarrow>
          gss_state_valid state \<and> elapsed_ms state now \<le> ucast (gss_time_allowed_to_live_ms state))"

definition matches_frame :: "goose_subscriber \<Rightarrow> u16 \<Rightarrow> mac \<Rightarrow> bool" where
  "matches_frame s app_id dst_mac \<longleftrightarrow>
     (case gs_app_id s of None \<Rightarrow> True | Some i \<Rightarrow> i = app_id) \<and>
     (case gs_dst_mac s of None \<Rightarrow> True | Some m \<Rightarrow> m = dst_mac)"

definition matches_gocb_ref :: "goose_subscriber \<Rightarrow> string \<Rightarrow> bool" where
  "matches_gocb_ref s gocb_ref \<longleftrightarrow> (case gs_gocb_ref s of None \<Rightarrow> True | Some g \<Rightarrow> g = gocb_ref)"

text \<open>The publication a frame belongs to, and \<open>Iterator::position\<close>.\<close>

definition stream_key :: "subscriber_state \<Rightarrow> string \<times> bool" where
  "stream_key s = (gss_gocb_ref s, is_simulated s)"

primrec position :: "('a \<Rightarrow> bool) \<Rightarrow> 'a list \<Rightarrow> nat option" where
  "position P [] = None"
| "position P (x # xs) = (if P x then Some 0 else map_option Suc (position P xs))"

text \<open>\<open>min_by_key\<close> gives the first of the least elements; \<open>swap_remove\<close> moves the last element into the gap.\<close>

primrec oldest :: "stream_track list \<Rightarrow> (nat \<times> u64) option" where
  "oldest [] = None"
| "oldest (t # ts) =
     (case oldest ts of
        None \<Rightarrow> Some (0, st_last_seen t)
      | Some (i, seen) \<Rightarrow> if st_last_seen t \<le> seen then Some (0, st_last_seen t) else Some (Suc i, seen))"

definition swap_remove :: "'a list \<Rightarrow> nat \<Rightarrow> 'a list" where
  "swap_remove xs i = butlast (xs[i := last xs])"

definition evict_least_recent :: "goose_subscriber \<Rightarrow> goose_subscriber" where
  "evict_least_recent s =
     (case oldest (gs_streams s) of
        None \<Rightarrow> s
      | Some (i, _) \<Rightarrow> s\<lparr>gs_streams := swap_remove (gs_streams s) i, gs_eviction_reported := True\<rparr>)"

text \<open>The checks of \<open>update_and_dispatch\<close> against the previous message of the publication.\<close>

definition st_num_wrapped :: "subscriber_state option \<Rightarrow> subscriber_state \<Rightarrow> bool" where
  "st_num_wrapped prev new = (case prev of None \<Rightarrow> False | Some q \<Rightarrow> is_wrap_to_one (gss_st_num q) (gss_st_num new))"

definition st_num_rollback :: "subscriber_state option \<Rightarrow> subscriber_state \<Rightarrow> bool" where
  "st_num_rollback prev new =
     (case prev of
        None \<Rightarrow> False
      | Some q \<Rightarrow> gss_st_num new < gss_st_num q \<and> \<not> st_num_wrapped prev new)"

definition sq_num_rollback :: "subscriber_state option \<Rightarrow> subscriber_state \<Rightarrow> bool" where
  "sq_num_rollback prev new =
     (\<not> st_num_rollback prev new \<and>
      (case prev of
         None \<Rightarrow> False
       | Some q \<Rightarrow> gss_st_num new = gss_st_num q \<and> gss_sq_num new \<le> gss_sq_num q \<and>
           \<not> is_wrap_to_one (gss_sq_num q) (gss_sq_num new)))"

definition conf_rev_result :: "subscriber_state option \<Rightarrow> subscriber_state \<Rightarrow> goose_error + unit" where
  "conf_rev_result prev new =
     (case prev of
        None \<Rightarrow> Inr ()
      | Some q \<Rightarrow>
          if gss_conf_rev q \<noteq> 0 \<and> gss_conf_rev new \<noteq> gss_conf_rev q
          then Inl (ConfRevMismatch (gss_conf_rev q) (gss_conf_rev new)) else Inr ())"

definition judged :: "subscriber_state option \<Rightarrow> subscriber_state \<Rightarrow> subscriber_state" where
  "judged prev new =
     new\<lparr>gss_state_valid := (\<not> st_num_rollback prev new \<and> \<not> sq_num_rollback prev new \<and> gss_state_valid new)\<rparr>"

definition event_of :: "subscriber_state option \<Rightarrow> subscriber_state \<Rightarrow> goose_event" where
  "event_of prev new =
     (let prev_st_num = (case prev of None \<Rightarrow> 0 | Some q \<Rightarrow> gss_st_num q);
          final_state = judged prev new;
          parse_result = conf_rev_result prev new
      in if st_num_rollback prev new \<or> st_num_wrapped prev new \<or> gss_st_num new > prev_st_num \<or> prev_st_num = 0
         then NewState prev_st_num final_state parse_result
         else Retransmission final_state parse_result)"

definition slot_of :: "stream_track list \<Rightarrow> subscriber_state \<Rightarrow> nat option" where
  "slot_of streams new = position (\<lambda>t. stream_key (st_last t) = stream_key new) streams"

text \<open>The rearming of a track the publication already has.\<close>

definition refreshed :: "stream_track \<Rightarrow> subscriber_state \<Rightarrow> u64 \<Rightarrow> stream_track" where
  "refreshed t new clock =
     t\<lparr>st_last_seen := clock,
       st_expired_fired := (sq_num_rollback (Some (st_last t)) new \<and> st_expired_fired t),
       st_last := judged (Some (st_last t)) new\<rparr>"

definition update_and_dispatch :: "goose_subscriber \<Rightarrow> subscriber_state \<Rightarrow> goose_subscriber \<times> goose_event list" where
  "update_and_dispatch s new =
     (let slot = slot_of (gs_streams s) new;
          prev = map_option (\<lambda>i. st_last (gs_streams s ! i)) slot;
          final_state = judged prev new;
          clock = gs_clock s + 1;
          s = s\<lparr>gs_clock := clock\<rparr>;
          s = (case slot of
                 Some i \<Rightarrow> s\<lparr>gs_streams := (gs_streams s)[i := refreshed (gs_streams s ! i) new clock]\<rparr>
               | None \<Rightarrow>
                   let s = (if length (gs_streams s) \<ge> gs_max_streams s then evict_least_recent s else s)
                   in s\<lparr>gs_streams := gs_streams s @ [\<lparr>st_last = final_state, st_expired_fired = False,
                        st_last_seen = clock\<rparr>]\<rparr>);
          s = s\<lparr>gs_last_state := Some final_state\<rparr>
      in (s, if gs_listener s then [event_of prev new] else []))"

definition overdue :: "nat \<Rightarrow> stream_track \<Rightarrow> bool" where
  "overdue now t \<longleftrightarrow> \<not> st_expired_fired t \<and>
     elapsed_ms (st_last t) now > ucast (gss_time_allowed_to_live_ms (st_last t))"

definition check_expired_at :: "goose_subscriber \<Rightarrow> nat \<Rightarrow> goose_subscriber \<times> goose_event list" where
  "check_expired_at s now =
     (s\<lparr>gs_streams := map (\<lambda>t. if overdue now t then t\<lparr>st_expired_fired := True\<rparr> else t) (gs_streams s)\<rparr>,
      if gs_listener s then map (\<lambda>t. Expired (st_last t)) (filter (overdue now) (gs_streams s)) else [])"

section \<open>Tracked publications\<close>

lemma position_Some:
  "position P xs = Some i \<Longrightarrow> i < length xs \<and> P (xs ! i)"
  by (induction xs arbitrary: i) (auto split: if_splits)

lemma position_None: "position P xs = None \<longleftrightarrow> (\<forall>x \<in> set xs. \<not> P x)"
  by (induction xs) auto

abbreviation track_key :: "stream_track \<Rightarrow> string \<times> bool" where
  "track_key t \<equiv> stream_key (st_last t)"

definition subscriber_inv :: "goose_subscriber \<Rightarrow> bool" where
  "subscriber_inv s \<longleftrightarrow> 1 \<le> gs_max_streams s \<and> length (gs_streams s) \<le> gs_max_streams s
     \<and> distinct (map track_key (gs_streams s))"

lemma build_inv: "subscriber_inv (build b)"
  by (simp add: build_def subscriber_inv_def)

lemma slot_of_Some:
  assumes "slot_of ts new = Some i"
  shows "i < length ts" and "track_key (ts ! i) = stream_key new"
  using position_Some [OF assms [unfolded slot_of_def]] by auto

lemma slot_of_None: "slot_of ts new = None \<longleftrightarrow> stream_key new \<notin> track_key ` set ts"
  by (force simp: slot_of_def position_None)

lemma oldest_None: "oldest ts = None \<longleftrightarrow> ts = []"
  by (cases ts) (auto split: option.splits)

lemma oldest_least:
  "oldest ts = Some (i, seen) \<Longrightarrow> i < length ts \<and> seen = st_last_seen (ts ! i) \<and> (\<forall>t \<in> set ts. seen \<le> st_last_seen t)"
  by (induction ts arbitrary: i seen) (auto simp: oldest_None split: option.splits if_splits intro: order_trans)

lemma swap_remove_mset:
  assumes "i < length xs"
  shows "mset (swap_remove xs i) = mset xs - {#xs ! i#}"
proof -
  have ne: "xs \<noteq> []" using assms by auto
  let ?ys = "xs[i := last xs]"
  have "last ?ys = last xs" using ne assms by (auto simp: last_list_update)
  moreover have "mset ?ys = mset (butlast ?ys) + {#last ?ys#}"
    using ne by (metis append_butlast_last_id list_update_nonempty mset.simps(1,2) mset_append union_mset_add_mset_right add_0)
  ultimately show ?thesis using assms by (simp add: swap_remove_def mset_update)
qed

lemma swap_remove_keeps:
  assumes "i < length xs"
  shows "length (swap_remove xs i) = length xs - 1" and "set (swap_remove xs i) \<subseteq> set xs"
    and "distinct (map f xs) \<Longrightarrow> distinct (map f (swap_remove xs i))"
    and "distinct (map f xs) \<Longrightarrow> x \<in> set xs \<Longrightarrow> x = xs ! i \<or> x \<in> set (swap_remove xs i)"
proof -
  note m = swap_remove_mset [OF assms]
  show "length (swap_remove xs i) = length xs - 1" by (simp add: swap_remove_def)
  show "set (swap_remove xs i) \<subseteq> set xs" using m by (metis in_diffD set_mset_mset subsetI)
  have add: "mset xs = add_mset (xs ! i) (mset (swap_remove xs i))" using assms by (simp add: m nth_mem_mset)
  show "x \<in> set xs \<Longrightarrow> x = xs ! i \<or> x \<in> set (swap_remove xs i)" if "distinct (map f xs)"
    using add by (metis insert_iff set_mset_add_mset_insert set_mset_mset)
  assume "distinct (map f xs)"
  moreover have "mset (map f xs) = mset (map f (xs ! i # swap_remove xs i))" using add by simp
  ultimately have "distinct (map f (xs ! i # swap_remove xs i))" by (metis mset_eq_imp_distinct_iff)
  then show "distinct (map f (swap_remove xs i))" by simp
qed

lemma judged_key [simp]: "stream_key (judged prev new) = stream_key new"
  by (simp add: stream_key_def judged_def is_simulated_def)

lemma refreshed_key [simp]: "track_key (refreshed t new clock) = stream_key new"
  by (simp add: refreshed_def)

lemma evict_keeps:
  assumes "gs_streams s \<noteq> []" and "distinct (map track_key (gs_streams s))"
  shows "length (gs_streams (evict_least_recent s)) = length (gs_streams s) - 1"
    and "set (gs_streams (evict_least_recent s)) \<subseteq> set (gs_streams s)"
    and "distinct (map track_key (gs_streams (evict_least_recent s)))"
    and "gs_max_streams (evict_least_recent s) = gs_max_streams s"
proof -
  obtain i seen where o: "oldest (gs_streams s) = Some (i, seen)" using assms(1) oldest_None by fastforce
  note i = oldest_least [OF o, THEN conjunct1]
  show "length (gs_streams (evict_least_recent s)) = length (gs_streams s) - 1"
    "set (gs_streams (evict_least_recent s)) \<subseteq> set (gs_streams s)"
    "distinct (map track_key (gs_streams (evict_least_recent s)))"
    "gs_max_streams (evict_least_recent s) = gs_max_streams s"
    using swap_remove_keeps [OF i] assms(2) by (simp_all add: evict_least_recent_def o)
qed

lemma distinct_map_update:
  assumes "distinct (map f xs)" and "i < length xs" and "f y = f (xs ! i)"
  shows "distinct (map f (xs[i := y]))"
  using assms by (metis list_update_id map_update nth_map length_map)

lemma update_keeps_inv:
  assumes "subscriber_inv s"
  shows "subscriber_inv (fst (update_and_dispatch s new))"
proof (cases "slot_of (gs_streams s) new")
  case (Some i)
  then show ?thesis
    using assms slot_of_Some [OF Some]
    by (simp add: update_and_dispatch_def Let_def subscriber_inv_def distinct_map_update)
next
  case None
  let ?s = "s\<lparr>gs_clock := gs_clock s + 1\<rparr>"
  let ?e = "if length (gs_streams ?s) \<ge> gs_max_streams ?s then evict_least_recent ?s else ?s"
  have "length (gs_streams ?e) < gs_max_streams s" "distinct (map track_key (gs_streams ?e))"
    "set (gs_streams ?e) \<subseteq> set (gs_streams s)" "gs_max_streams ?e = gs_max_streams s"
    using assms evict_keeps [of ?s]
    by (cases "length (gs_streams s) \<ge> gs_max_streams s"; cases "gs_streams s = []"; simp add: subscriber_inv_def)+
  moreover have "stream_key new \<notin> track_key ` set (gs_streams s)" using None by (simp add: slot_of_None)
  ultimately show ?thesis
    using assms by (auto simp: update_and_dispatch_def Let_def subscriber_inv_def None)
qed

lemma check_keeps_inv: "subscriber_inv s \<Longrightarrow> subscriber_inv (fst (check_expired_at s now))"
  by (auto simp: check_expired_at_def subscriber_inv_def comp_def if_distrib [of st_last] if_distrib [of track_key]
      intro: arg_cong [of _ _ distinct, THEN iffD1, rotated] map_cong)

section \<open>Sequence supervision\<close>

text \<open>The track of a publication.\<close>

definition tracked :: "goose_subscriber \<Rightarrow> string \<times> bool \<Rightarrow> stream_track option" where
  "tracked s k = find (\<lambda>t. track_key t = k) (gs_streams s)"

lemma find_position: "find P xs = map_option (\<lambda>i. xs ! i) (position P xs)"
  by (induction xs) (simp_all add: option.map_comp comp_def)

lemma tracked_slot: "tracked s (stream_key new) = map_option (\<lambda>i. gs_streams s ! i) (slot_of (gs_streams s) new)"
  by (simp add: tracked_def slot_of_def find_position)

lemma update_events:
  "snd (update_and_dispatch s new) =
     (if gs_listener s then [event_of (map_option st_last (tracked s (stream_key new))) new] else [])"
proof -
  have "gs_listener (evict_least_recent q) = gs_listener q" for q
    by (simp add: evict_least_recent_def split: option.split)
  then show ?thesis
    by (simp add: update_and_dispatch_def Let_def tracked_slot option.map_comp comp_def split: option.split)
qed

lemma update_listener [simp]: "gs_listener (fst (update_and_dispatch s new)) = gs_listener s"
  by (simp add: update_and_dispatch_def Let_def evict_least_recent_def split: option.split)

lemma find_distinct_key:
  "distinct (map f xs) \<Longrightarrow> x \<in> set xs \<Longrightarrow> find (\<lambda>t. f t = f x) xs = Some x"
  by (induction xs) force+

lemma tracked_iff: "subscriber_inv s \<Longrightarrow> tracked s k = Some t \<longleftrightarrow> t \<in> set (gs_streams s) \<and> track_key t = k"
  using find_distinct_key [of track_key "gs_streams s" t]
  by (auto simp: tracked_def subscriber_inv_def find_Some_iff)

text \<open>After an update the publication is tracked at the message.\<close>

lemma update_tracked:
  assumes "subscriber_inv s"
  shows "\<exists>t. tracked (fst (update_and_dispatch s new)) (stream_key new) = Some t
    \<and> st_last t = judged (map_option st_last (tracked s (stream_key new))) new
    \<and> (st_expired_fired t \<longrightarrow> (\<exists>t'. tracked s (stream_key new) = Some t' \<and> st_expired_fired t'))"
proof (cases "slot_of (gs_streams s) new")
  case (Some i)
  let ?t = "refreshed (gs_streams s ! i) new (gs_clock s + 1)"
  have i: "i < length (gs_streams s)" using slot_of_Some [OF Some] by simp
  then have "?t \<in> set (gs_streams (fst (update_and_dispatch s new)))"
    by (simp add: update_and_dispatch_def Let_def Some set_update_memI)
  then have "tracked (fst (update_and_dispatch s new)) (stream_key new) = Some ?t"
    using tracked_iff [OF update_keeps_inv [OF assms]] by simp
  moreover have "tracked s (stream_key new) = Some (gs_streams s ! i)" by (simp add: tracked_slot Some)
  ultimately show ?thesis by (intro exI [of _ ?t]) (simp add: refreshed_def)
next
  case None
  let ?t = "\<lparr>st_last = judged None new, st_expired_fired = False, st_last_seen = gs_clock s + 1\<rparr>"
  have "?t \<in> set (gs_streams (fst (update_and_dispatch s new)))"
    by (simp add: update_and_dispatch_def Let_def None)
  then have "tracked (fst (update_and_dispatch s new)) (stream_key new) = Some ?t"
    using tracked_iff [OF update_keeps_inv [OF assms]] by simp
  moreover have "tracked s (stream_key new) = None" by (simp add: tracked_slot None)
  ultimately show ?thesis by (intro exI [of _ ?t]) simp
qed

text \<open>The order of messages: stNum, then sqNum, each with its step from the maximum to 1.\<close>

definition newer :: "subscriber_state \<Rightarrow> subscriber_state \<Rightarrow> bool" where
  "newer q new \<longleftrightarrow> gss_st_num q < gss_st_num new \<or> is_wrap_to_one (gss_st_num q) (gss_st_num new)
     \<or> gss_st_num q = gss_st_num new
       \<and> (gss_sq_num q < gss_sq_num new \<or> is_wrap_to_one (gss_sq_num q) (gss_sq_num new))"

lemma judged_valid: "gss_state_valid (judged (Some q) new) \<longleftrightarrow> gss_state_valid new \<and> newer q new"
  by (auto simp: judged_def st_num_rollback_def sq_num_rollback_def st_num_wrapped_def newer_def is_wrap_to_one_def)

fun event_state :: "goose_event \<Rightarrow> subscriber_state" where
  "event_state (NewState _ state _) = state"
| "event_state (Retransmission state _) = state"
| "event_state (Expired state) = state"

lemma event_of_state [simp]: "event_state (event_of prev new) = judged prev new"
  by (simp add: event_of_def Let_def)

definition feed :: "goose_subscriber \<Rightarrow> subscriber_state list \<Rightarrow> goose_subscriber" where
  "feed s fs = foldl (\<lambda>q f. fst (update_and_dispatch q f)) s fs"

lemma feed_keeps: "subscriber_inv s \<Longrightarrow> subscriber_inv (feed s fs)" "gs_listener (feed s fs) = gs_listener s"
  unfolding feed_def by (induction fs arbitrary: s) (simp_all add: update_keeps_inv)

lemma feed_tracks_last:
  assumes "subscriber_inv s" and "fs \<noteq> []" and "stream_key (last fs) = k"
  obtains t prev where "tracked (feed s fs) k = Some t" and "st_last t = judged prev (last fs)"
proof -
  obtain gs g where fs: "fs = gs @ [g]" using assms(2) by (cases fs rule: rev_cases) auto
  have "feed s fs = fst (update_and_dispatch (feed s gs) g)" by (simp add: fs feed_def)
  then show thesis
    using update_tracked [OF feed_keeps(1) [OF assms(1)], of gs g] assms(3) that by (auto simp: fs)
qed

definition earlier :: "subscriber_state \<Rightarrow> subscriber_state \<Rightarrow> bool" where
  "earlier q new \<longleftrightarrow> gss_st_num q < gss_st_num new \<or> gss_st_num q = gss_st_num new \<and> gss_sq_num q < gss_sq_num new"

lemma sorted_wrt_last: "sorted_wrt P xs \<Longrightarrow> x \<in> set xs \<Longrightarrow> P x (last xs) \<or> x = last xs"
  by (induction xs) auto

lemma earlier_not_newer:
  assumes "earlier f l \<or> f = l" and "gss_st_num l \<noteq> - 1" and "gss_sq_num l \<noteq> - 1"
  shows "\<not> newer l f"
proof -
  have "\<not> is_wrap_to_one (gss_st_num l) (gss_st_num f)" "\<not> is_wrap_to_one (gss_sq_num l) (gss_sq_num f)"
    using assms(2,3) by (simp_all add: is_wrap_to_one_def)
  with assms(1) show ?thesis unfolding newer_def earlier_def by (elim disjE conjE) (simp_all add: not_less less_imp_le)
qed


definition sample_state :: "u32 \<Rightarrow> u32 \<Rightarrow> nat \<Rightarrow> subscriber_state" where
  "sample_state st sq at =
     \<lparr>gss_gocb_ref = ''LD/gcb'', gss_dat_set = ''LD/ds'', gss_go_id = ''id'', gss_time_allowed_to_live_ms = 8,
      gss_st_num = st, gss_sq_num = sq, gss_conf_rev = 1, gss_timestamp = UTC_TIME_NULL, gss_simulation = False,
      gss_frame_simulation = False, gss_nds_com = False, gss_dataset_values = [Boolean True],
      gss_src_mac = Mac 0 0 0 0 0 1, gss_dst_mac = Mac 1 0 0 0 0 1, gss_vlan = None, gss_received_at = at,
      gss_state_valid = True\<rparr>"

definition sample_subscriber :: goose_subscriber where
  "sample_subscriber = set_listener (subscriber_new ''LD/gcb'')"

lemma sample_subscriber_inv: "subscriber_inv sample_subscriber" "gs_listener sample_subscriber"
  using build_inv by (simp_all add: sample_subscriber_def set_listener_def subscriber_new_def subscriber_inv_def)


section \<open>Expiry\<close>

primrec sweeps :: "goose_subscriber \<Rightarrow> nat list \<Rightarrow> goose_subscriber \<times> goose_event list" where
  "sweeps s [] = (s, [])"
| "sweeps s (now # ts) =
     (let (s1, es) = check_expired_at s now; (s2, fs) = sweeps s1 ts in (s2, es @ fs))"

definition outlived :: "subscriber_state \<Rightarrow> nat \<Rightarrow> bool" where
  "outlived state now \<longleftrightarrow> elapsed_ms state now > ucast (gss_time_allowed_to_live_ms state)"

lemma check_track:
  assumes "t \<in> set (gs_streams s)"
  shows "(if overdue now t then t\<lparr>st_expired_fired := True\<rparr> else t) \<in> set (gs_streams (fst (check_expired_at s now)))"
  using assms by (auto simp: check_expired_at_def)

lemma filter_unique_key: "distinct (map f ts) \<Longrightarrow> t \<in> set ts \<Longrightarrow> filter (\<lambda>u. f u = f t) ts = [t]"
proof (induction ts)
  case (Cons u us)
  then show ?case by (cases "u = t") (auto simp: filter_empty_conv image_iff)
qed simp

lemma check_track_events:
  assumes "subscriber_inv s" and "gs_listener s" and "t \<in> set (gs_streams s)"
  shows "filter (\<lambda>e. e = Expired (st_last t)) (snd (check_expired_at s now)) = (if overdue now t then [Expired (st_last t)] else [])"
proof -
  let ?P = "\<lambda>u. overdue now u \<and> st_last u = st_last t"
  have "filter ?P (gs_streams s) = filter ?P (filter (\<lambda>u. track_key u = track_key t) (gs_streams s))"
    by (auto simp: filter_filter intro: filter_cong)
  also have "filter (\<lambda>u. track_key u = track_key t) (gs_streams s) = [t]"
    using assms(1,3) by (intro filter_unique_key) (simp_all add: subscriber_inv_def)
  finally have "filter ?P (gs_streams s) = (if overdue now t then [t] else [])" by simp
  then show ?thesis using assms(2) by (simp add: check_expired_at_def filter_map comp_def conj_commute)
qed

lemma check_listener [simp]: "gs_listener (fst (check_expired_at s now)) = gs_listener s"
  by (simp add: check_expired_at_def)

lemma sweeps_track_events:
  assumes "subscriber_inv s" and "gs_listener s" and "t \<in> set (gs_streams s)"
  shows "filter (\<lambda>e. e = Expired (st_last t)) (snd (sweeps s ts)) =
    (if \<not> st_expired_fired t \<and> (\<exists>now \<in> set ts. outlived (st_last t) now) then [Expired (st_last t)] else [])"
  using assms
proof (induction ts arbitrary: s t)
  case (Cons now ts)
  let ?s = "fst (check_expired_at s now)" and ?t = "if overdue now t then t\<lparr>st_expired_fired := True\<rparr> else t"
  have last: "st_last ?t = st_last t" by simp
  have "filter (\<lambda>e. e = Expired (st_last ?t)) (snd (sweeps ?s ts)) =
    (if \<not> st_expired_fired ?t \<and> (\<exists>now \<in> set ts. outlived (st_last ?t) now) then [Expired (st_last ?t)] else [])"
    using Cons.IH [OF check_keeps_inv, of s now ?t] Cons.prems check_track by simp
  then show ?case
    using check_track_events [OF Cons.prems, of now]
    by (auto simp: last split_beta overdue_def outlived_def)
qed simp

text \<open>
  C27. A publication that falls silent is reported exactly once: over any sweeps after its last message, the
  listener gets one expiry event of it if one of the sweeps comes when the time allowed to live has elapsed,
  and none if no sweep does.
\<close>

theorem silent_publication_expires_once:
  assumes "subscriber_inv s" and "gs_listener s" and "t \<in> set (gs_streams s)" and "\<not> st_expired_fired t"
  shows "filter (\<lambda>e. e = Expired (st_last t)) (snd (sweeps s ts)) =
    (if \<exists>now \<in> set ts. outlived (st_last t) now then [Expired (st_last t)] else [])"
  using sweeps_track_events [OF assms(1-3)] assms(4) by simp

theorem silent_publication_expires_once_witness:
  "\<exists>t. t \<in> set (gs_streams (feed sample_subscriber [sample_state 1 0 0])) \<and> st_last t = sample_state 1 0 0
    \<and> filter (\<lambda>e. e = Expired (st_last t))
        (snd (sweeps (feed sample_subscriber [sample_state 1 0 0]) [7000000, 9000000, 9500000])) = [Expired (st_last t)]"
proof -
  let ?s = "feed sample_subscriber [sample_state 1 0 0]"
  let ?t = "\<lparr>st_last = sample_state 1 0 0, st_expired_fired = False, st_last_seen = 1\<rparr>"
  have t: "?t \<in> set (gs_streams ?s)"
    by (simp add: feed_def update_and_dispatch_def Let_def sample_subscriber_def set_listener_def subscriber_new_def
        build_def builder_gocb_ref_def builder_new_def slot_of_def judged_def st_num_rollback_def sq_num_rollback_def
        sample_state_def DEFAULT_OBSERVER_MAX_STREAMS_def)
  have "outlived (st_last ?t) 9000000" by (simp add: outlived_def elapsed_ms_def sample_state_def)
  then show ?thesis
    using silent_publication_expires_once [OF feed_keeps(1) [OF sample_subscriber_inv(1)] _ t, of "[7000000, 9000000, 9500000]"]
      t sample_subscriber_inv(2) by (intro exI [of _ ?t]) (auto simp: feed_keeps)
qed

section \<open>Which publications an observer tracks\<close>

text \<open>
  The abstract view: the publications in the order they were last heard, the oldest first. A message moves its
  publication to the end, and what exceeds the bound falls off the front.
\<close>

definition touch :: "nat \<Rightarrow> 'k \<Rightarrow> 'k list \<Rightarrow> 'k list" where
  "touch n k ks = (let ks' = removeAll k ks @ [k] in drop (length ks' - n) ks')"

definition by_recency :: "goose_subscriber \<Rightarrow> stream_track list" where
  "by_recency s = sort_key st_last_seen (gs_streams s)"

definition heard :: "goose_subscriber \<Rightarrow> (string \<times> bool) list" where
  "heard s = map track_key (by_recency s)"

definition recency_inv :: "goose_subscriber \<Rightarrow> bool" where
  "recency_inv s \<longleftrightarrow> distinct (map st_last_seen (gs_streams s)) \<and> (\<forall>t \<in> set (gs_streams s). st_last_seen t \<le> gs_clock s)"

lemma by_recency_facts:
  assumes "recency_inv s"
  shows "set (by_recency s) = set (gs_streams s)" and "sorted (map st_last_seen (by_recency s))"
    and "distinct (map st_last_seen (by_recency s))" and "length (by_recency s) = length (gs_streams s)"
    and "subscriber_inv s \<Longrightarrow> distinct (map track_key (by_recency s))"
proof -
  have m: "mset (by_recency s) = mset (gs_streams s)" by (simp add: by_recency_def)
  show "set (by_recency s) = set (gs_streams s)" "length (by_recency s) = length (gs_streams s)"
    "sorted (map st_last_seen (by_recency s))" by (simp_all add: by_recency_def)
  have d: "distinct (map f (by_recency s)) \<longleftrightarrow> distinct (map f (gs_streams s))" for f :: "stream_track \<Rightarrow> 'a"
    using m by (intro mset_eq_imp_distinct_iff) simp
  show "distinct (map st_last_seen (by_recency s))" using assms by (simp add: d recency_inv_def)
  show "subscriber_inv s \<Longrightarrow> distinct (map track_key (by_recency s))" by (simp add: d subscriber_inv_def)
qed

lemma by_recency_unique:
  assumes "recency_inv s" and "set ts = set (gs_streams s)" and "sorted (map st_last_seen ts)"
    and "distinct (map st_last_seen ts)"
  shows "by_recency s = ts"
  using assms by_recency_facts [OF assms(1)]
  by (intro map_sorted_distinct_set_unique [of st_last_seen]) (simp_all add: distinct_map)

lemma sorted_distinct_hd_least:
  assumes "sorted (map f xs)" and "distinct (map f xs)" and "x \<in> set xs" and "\<forall>y \<in> set xs. f x \<le> f y"
  shows "x = hd xs"
proof -
  obtain y ys where xs: "xs = y # ys" using assms(3) by (cases xs) auto
  have "f x = f y" using assms(1,3,4) xs by (auto intro: order_antisym)
  then have "x \<in> set ys \<Longrightarrow> f y \<in> f ` set ys" by (metis imageI)
  then show ?thesis using assms(2,3) xs by auto
qed

text \<open>The track that an eviction takes is the front of the order.\<close>

lemma evict_takes_front:
  assumes "subscriber_inv s" and "recency_inv s" and "gs_streams s \<noteq> []"
  shows "set (gs_streams (evict_least_recent s)) = set (tl (by_recency s))"
    and "distinct (map st_last_seen (gs_streams (evict_least_recent s)))"
proof -
  obtain i seen where o: "oldest (gs_streams s) = Some (i, seen)" using assms(3) oldest_None by fastforce
  note i = oldest_least [OF o] and facts = by_recency_facts [OF assms(2)]
  let ?o = "gs_streams s ! i"
  have least: "\<forall>t \<in> set (by_recency s). st_last_seen ?o \<le> st_last_seen t" and "?o \<in> set (by_recency s)"
    using i by (auto simp: facts(1))
  then have hd: "?o = hd (by_recency s)"
    using facts assms(3) by (intro sorted_distinct_hd_least) auto
  have streams: "gs_streams (evict_least_recent s) = swap_remove (gs_streams s) i"
    by (simp add: evict_least_recent_def o)
  have "mset (swap_remove (gs_streams s) i) = mset (by_recency s) - {#hd (by_recency s)#}"
    using swap_remove_mset [of i "gs_streams s"] i hd by (simp add: by_recency_def)
  also have "\<dots> = mset (tl (by_recency s))"
    using facts(4) assms(3) by (cases "by_recency s") auto
  finally show "set (gs_streams (evict_least_recent s)) = set (tl (by_recency s))"
    unfolding streams by (metis set_mset_mset)
  show "distinct (map st_last_seen (gs_streams (evict_least_recent s)))"
    unfolding streams using assms(2) i by (intro swap_remove_keeps(3)) (simp_all add: recency_inv_def)
qed

lemma less_add_one_word: "(c :: u64) \<noteq> - 1 \<Longrightarrow> c < c + 1"
  using inc_less_eq_triv_imp [of c] by (meson not_le)

lemma stamp_greater:
  assumes "recency_inv s" and "gs_clock s \<noteq> - 1" and "t \<in> set (gs_streams s)"
  shows "st_last_seen t < gs_clock s + 1"
proof -
  have "gs_clock s < gs_clock s + 1" using assms(2) by (simp add: less_add_one_word)
  then show ?thesis using assms(1,3) by (auto simp: recency_inv_def intro: le_less_trans)
qed

text \<open>The tracks that stay, with the track of the message behind them, are the new order.\<close>

lemma order_step:
  assumes "recency_inv s" and "gs_clock s \<noteq> - 1" and "gs_clock s' = gs_clock s + 1" and "st_last_seen t = gs_clock s + 1"
    and "set (gs_streams s') = insert t (set kept)" and "length (gs_streams s') = Suc (length kept)"
    and "set kept \<subseteq> set (gs_streams s)" and "sorted (map st_last_seen kept)" and "distinct (map st_last_seen kept)"
  shows "recency_inv s'" and "by_recency s' = kept @ [t]"
proof -
  have less: "\<forall>u \<in> set kept. st_last_seen u < st_last_seen t"
    using stamp_greater [OF assms(1,2)] assms(4,7) by auto
  then have d: "distinct (map st_last_seen (kept @ [t]))" and so: "sorted (map st_last_seen (kept @ [t]))"
    using assms(8,9) by (auto simp: sorted_append less_imp_le)
  have "mset (gs_streams s') = mset (kept @ [t])"
    using d assms(5,6) by (intro set_eq_iff_mset_eq_distinct [THEN iffD1] card_distinct)
      (auto simp: distinct_map card_insert_if distinct_card)
  then have "distinct (map st_last_seen (gs_streams s'))"
    using d by (metis mset_eq_imp_distinct_iff mset_map)
  then show r: "recency_inv s'"
    using less assms(3,4,5) by (auto simp: recency_inv_def less_imp_le)
  show "by_recency s' = kept @ [t]"
    using r so d assms(5) by (intro by_recency_unique) auto
qed

lemma update_known_order:
  assumes "subscriber_inv s" and "recency_inv s" and "gs_clock s \<noteq> - 1" and "slot_of (gs_streams s) new = Some i"
  shows "recency_inv (fst (update_and_dispatch s new))"
    and "by_recency (fst (update_and_dispatch s new)) =
      filter (\<lambda>t. track_key t \<noteq> stream_key new) (by_recency s) @ [refreshed (gs_streams s ! i) new (gs_clock s + 1)]"
proof -
  let ?s = "fst (update_and_dispatch s new)" and ?t = "refreshed (gs_streams s ! i) new (gs_clock s + 1)"
  let ?kept = "filter (\<lambda>t. track_key t \<noteq> stream_key new) (by_recency s)"
  note facts = by_recency_facts [OF assms(2)] and i = slot_of_Some [OF assms(4)]
  have streams: "gs_streams ?s = (gs_streams s)[i := ?t]" and clock: "gs_clock ?s = gs_clock s + 1"
    by (simp_all add: update_and_dispatch_def Let_def assms(4))
  have others: "track_key (gs_streams s ! j) = stream_key new \<longleftrightarrow> j = i" if "j < length (gs_streams s)" for j
    using assms(1) i that nth_eq_iff_index_eq [of "map track_key (gs_streams s)" j i] by (auto simp: subscriber_inv_def)
  have set: "set (gs_streams ?s) = insert ?t (set ?kept)"
    unfolding streams facts(1) set_filter set_conv_nth [of "gs_streams s"] using others i
    by (auto simp: set_conv_nth nth_list_update) (metis nth_list_update_neq)
  have "length (filter (\<lambda>t. track_key t = stream_key new) (by_recency s)) = 1"
    using filter_unique_key [of track_key "by_recency s" "gs_streams s ! i"] i facts assms(1) by simp
  then have len: "length (gs_streams ?s) = Suc (length ?kept)"
    using sum_length_filter_compl [of "\<lambda>t. track_key t = stream_key new" "by_recency s"] facts(4) by (simp add: streams)
  have kept: "set ?kept \<subseteq> set (gs_streams s)" "sorted (map st_last_seen ?kept)" "distinct (map st_last_seen ?kept)"
    using facts(1-3) by (auto simp: sorted_filter distinct_map_filter)
  show "recency_inv ?s" "by_recency ?s = ?kept @ [?t]"
    using order_step [OF assms(2,3) clock _ set len kept] by (simp_all add: refreshed_def)
qed

lemma update_unknown_order:
  assumes "subscriber_inv s" and "recency_inv s" and "gs_clock s \<noteq> - 1" and "slot_of (gs_streams s) new = None"
  shows "recency_inv (fst (update_and_dispatch s new))"
    and "by_recency (fst (update_and_dispatch s new)) =
      (if length (gs_streams s) \<ge> gs_max_streams s then tl (by_recency s) else by_recency s)
      @ [\<lparr>st_last = judged None new, st_expired_fired = False, st_last_seen = gs_clock s + 1\<rparr>]"
proof -
  let ?s = "fst (update_and_dispatch s new)" and ?full = "length (gs_streams s) \<ge> gs_max_streams s"
  let ?t = "\<lparr>st_last = judged None new, st_expired_fired = False, st_last_seen = gs_clock s + 1\<rparr>"
  let ?kept = "if ?full then tl (by_recency s) else by_recency s" and ?c = "s\<lparr>gs_clock := gs_clock s + 1\<rparr>"
  note facts = by_recency_facts [OF assms(2)]
  have inv: "subscriber_inv ?c" "distinct (map st_last_seen (gs_streams s))"
    using assms(1,2) by (simp_all add: subscriber_inv_def recency_inv_def)
  have ne: "gs_streams s \<noteq> []" if "?full" using that assms(1) by (auto simp: subscriber_inv_def)
  have ev: "gs_streams (evict_least_recent ?c) = gs_streams (evict_least_recent s)"
    "gs_clock (evict_least_recent ?c) = gs_clock s + 1"
    by (simp_all add: evict_least_recent_def split: option.split)
  have streams: "gs_streams ?s = (if ?full then gs_streams (evict_least_recent s) else gs_streams s) @ [?t]"
    and clock: "gs_clock ?s = gs_clock s + 1"
    by (simp_all add: update_and_dispatch_def Let_def assms(4) ev)
  have set: "set (gs_streams ?s) = insert ?t (set ?kept)"
    using evict_takes_front [OF assms(1,2) ne] facts(1) by (simp add: streams)
  have len: "length (gs_streams ?s) = Suc (length ?kept)"
    using evict_keeps(1) [of s, OF ne] assms(1) facts(4) by (simp add: streams subscriber_inv_def)
  have kept: "set ?kept \<subseteq> set (gs_streams s)" "sorted (map st_last_seen ?kept)" "distinct (map st_last_seen ?kept)"
    using facts(1-3) by (cases "by_recency s"; auto)+
  show "recency_inv ?s" "by_recency ?s = ?kept @ [?t]"
    using order_step [OF assms(2,3) clock _ set len kept] by simp_all
qed

lemma update_touches:
  assumes "subscriber_inv s" and "recency_inv s" and "gs_clock s \<noteq> - 1"
  shows "recency_inv (fst (update_and_dispatch s new))"
    and "heard (fst (update_and_dispatch s new)) = touch (gs_max_streams s) (stream_key new) (heard s)"
proof -
  note facts = by_recency_facts [OF assms(2)]
  have len: "length (by_recency s) \<le> gs_max_streams s" "1 \<le> gs_max_streams s"
    using assms(1) facts(4) by (simp_all add: subscriber_inv_def)
  show "recency_inv (fst (update_and_dispatch s new))"
    using update_known_order(1) update_unknown_order(1) assms by (cases "slot_of (gs_streams s) new") auto
  show "heard (fst (update_and_dispatch s new)) = touch (gs_max_streams s) (stream_key new) (heard s)"
  proof (cases "slot_of (gs_streams s) new")
    case (Some i)
    have rem: "map track_key (filter (\<lambda>t. track_key t \<noteq> stream_key new) (by_recency s)) = removeAll (stream_key new) (heard s)"
      by (simp add: heard_def removeAll_filter_not_eq filter_map comp_def eq_commute)
    have "stream_key new \<in> set (heard s)"
      using slot_of_Some [OF Some] facts(1) by (metis heard_def image_set image_eqI nth_mem)
    then have "length (removeAll (stream_key new) (heard s)) < length (heard s)" by (rule length_removeAll_less)
    then show ?thesis
      using update_known_order(2) [OF assms Some] rem len by (simp add: heard_def touch_def Let_def)
  next
    case None
    then have "stream_key new \<notin> set (heard s)"
      using facts(1) by (simp add: slot_of_None heard_def)
    then have rem: "removeAll (stream_key new) (heard s) = heard s" by simp
    show ?thesis
      using update_unknown_order(2) [OF assms None] rem len facts(4)
      by (cases "by_recency s") (auto simp: heard_def touch_def Let_def)
  qed
qed

lemma update_clock: "gs_clock (fst (update_and_dispatch s new)) = gs_clock s + 1"
  by (simp add: update_and_dispatch_def Let_def evict_least_recent_def split: option.split)

lemma update_bound: "gs_max_streams (fst (update_and_dispatch s new)) = gs_max_streams s"
  by (simp add: update_and_dispatch_def Let_def evict_least_recent_def split: option.split)

lemma feed_touches:
  assumes "subscriber_inv s" and "recency_inv s" and "unat (gs_clock s) + length fs < 2 ^ 64"
  shows "heard (feed s fs) = foldl (\<lambda>ks f. touch (gs_max_streams s) (stream_key f) ks) (heard s) fs"
  using assms
proof (induction fs arbitrary: s)
  case (Cons f fs)
  have s1: "unat (gs_clock s + 1) = Suc (unat (gs_clock s))" using Cons.prems(3) by (simp add: unat_word_ariths)
  then have max: "gs_clock s \<noteq> - 1" by auto
  from s1 show ?case
    using Cons.IH [OF update_keeps_inv [OF Cons.prems(1)] update_touches(1) [OF Cons.prems(1,2) max]]
      update_touches(2) [OF Cons.prems(1,2) max] Cons.prems(3)
    by (simp add: feed_def update_clock update_bound)
qed (simp add: feed_def)

text \<open>
  C25. A subscription is a least recently used cache of the publications it hears: each message moves its
  publication to the end of the order in which they were last heard, and when the bound is exceeded the one not
  heard for longest is forgotten. This holds for any messages until the 64 bit message counter wraps.
\<close>

theorem observer_keeps_recent_publications:
  assumes "length fs < 2 ^ 64"
  shows "heard (feed (build b) fs) = foldl (\<lambda>ks f. touch (gs_max_streams (build b)) (stream_key f) ks) [] fs"
proof -
  have "recency_inv (build b)" "unat (gs_clock (build b)) = 0" "heard (build b) = []"
    by (simp_all add: build_def recency_inv_def heard_def by_recency_def)
  with feed_touches [OF build_inv, of b fs] assms show ?thesis by simp
qed

theorem observer_keeps_recent_publications_witness:
  "length [sample_state 1 0 0, sample_state 1 1 4] < 2 ^ 64 \<and>
   heard (feed (build builder_new) [sample_state 1 0 0, sample_state 1 1 4]) = [(''LD/gcb'', False)]"
proof -
  have l: "length [sample_state 1 0 0, sample_state 1 1 4] < 2 ^ 64" by simp
  have k: "stream_key (sample_state st sq now) = (''LD/gcb'', False)" for st sq now
    by (simp add: stream_key_def sample_state_def is_simulated_def)
  have "gs_max_streams (build builder_new) = 64"
    by (simp add: build_def builder_new_def DEFAULT_OBSERVER_MAX_STREAMS_def)
  with l observer_keeps_recent_publications [OF l, of builder_new] show ?thesis by (simp add: touch_def k)
qed

end
