(* ===== verification/Goose_Receiver.thy ===== *)
theory Goose_Receiver
  imports Goose_Subscriber
begin

text \<open>
  The dispatch point of crates/iec61850-goose/src/receiver.rs. An idle and a running receiver have the same
  fields; \<open>start\<close> and \<open>stop\<close> change the type alone. A listener call is an event with the index of its subscriber.
\<close>

record goose_receiver =
  gr_subscribers :: "goose_subscriber option list"
  gr_appid_index :: "u16 \<rightharpoonup> nat list"
  gr_wildcard_indices :: "nat list"

definition receiver_new :: goose_receiver where
  "receiver_new = \<lparr>gr_subscribers = [], gr_appid_index = Map.empty, gr_wildcard_indices = []\<rparr>"

definition indices_for :: "goose_receiver \<Rightarrow> u16 \<Rightarrow> nat list" where
  "indices_for r app_id = (case gr_appid_index r app_id of None \<Rightarrow> [] | Some is \<Rightarrow> is)"

definition add_subscriber :: "goose_receiver \<Rightarrow> goose_subscriber \<Rightarrow> goose_receiver \<times> nat" where
  "add_subscriber r sub =
     (let idx = length (gr_subscribers r);
          r = (case gs_app_id sub of
                 Some i \<Rightarrow> r\<lparr>gr_appid_index := (gr_appid_index r)(i \<mapsto> indices_for r i @ [idx])\<rparr>
               | None \<Rightarrow> r\<lparr>gr_wildcard_indices := gr_wildcard_indices r @ [idx]\<rparr>)
      in (r\<lparr>gr_subscribers := gr_subscribers r @ [Some sub]\<rparr>, idx))"

definition remove_subscriber :: "goose_receiver \<Rightarrow> nat \<Rightarrow> goose_receiver \<times> bool" where
  "remove_subscriber r idx =
     (if idx \<ge> length (gr_subscribers r) then (r, False)
      else case gr_subscribers r ! idx of
        None \<Rightarrow> (r, False)
      | Some sub \<Rightarrow>
          let r = r\<lparr>gr_subscribers := (gr_subscribers r)[idx := None]\<rparr>
          in (case gs_app_id sub of
                Some i \<Rightarrow>
                  (case gr_appid_index r i of
                     None \<Rightarrow> r
                   | Some is \<Rightarrow> r\<lparr>gr_appid_index := (gr_appid_index r)(i \<mapsto> filter (\<lambda>j. j \<noteq> idx) is)\<rparr>)
              | None \<Rightarrow> r\<lparr>gr_wildcard_indices := filter (\<lambda>j. j \<noteq> idx) (gr_wildcard_indices r)\<rparr>, True))"

definition candidates :: "goose_receiver \<Rightarrow> u16 \<Rightarrow> nat list" where
  "candidates r app_id = indices_for r app_id @ gr_wildcard_indices r"

definition get_subscriber :: "goose_subscriber option list \<Rightarrow> nat \<Rightarrow> goose_subscriber option" where
  "get_subscriber subs idx = (if idx < length subs then subs ! idx else None)"

definition state_of :: "goose_frame_header \<Rightarrow> goose_pdu \<Rightarrow> nat \<Rightarrow> subscriber_state" where
  "state_of hdr parsed now =
     \<lparr>gss_gocb_ref = gp_gocb_ref parsed, gss_dat_set = gp_dat_set parsed, gss_go_id = gp_go_id parsed,
      gss_time_allowed_to_live_ms = gp_time_allowed_to_live parsed, gss_st_num = gp_st_num parsed,
      gss_sq_num = gp_sq_num parsed, gss_conf_rev = gp_conf_rev parsed, gss_timestamp = gp_t parsed,
      gss_simulation = gp_simulation parsed, gss_frame_simulation = fh_simulation hdr,
      gss_nds_com = gp_nds_com parsed, gss_dataset_values = gp_all_data parsed, gss_src_mac = fh_src_mac hdr,
      gss_dst_mac = fh_dst_mac hdr, gss_vlan = fh_vlan hdr, gss_received_at = now, gss_state_valid = True\<rparr>"

definition accepts :: "goose_subscriber \<Rightarrow> goose_frame_header \<Rightarrow> subscriber_state \<Rightarrow> bool" where
  "accepts sub hdr state \<longleftrightarrow> matches_frame sub (fh_app_id hdr) (fh_dst_mac hdr)
     \<and> matches_gocb_ref sub (gss_gocb_ref state) \<and> filter_accepts (gs_simulation sub) (is_simulated state)"

text \<open>The loop over the candidates.\<close>

primrec dispatch :: "goose_frame_header \<Rightarrow> subscriber_state \<Rightarrow> nat list \<Rightarrow> goose_subscriber option list \<Rightarrow>
    goose_subscriber option list \<times> (nat \<times> goose_event) list" where
  "dispatch hdr state [] subs = (subs, [])"
| "dispatch hdr state (idx # idxs) subs =
     (case get_subscriber subs idx of
        None \<Rightarrow> dispatch hdr state idxs subs
      | Some sub \<Rightarrow>
          if accepts sub hdr state
          then let (sub, es) = update_and_dispatch sub state;
                   (subs, fs) = dispatch hdr state idxs (subs[idx := Some sub])
               in (subs, map (Pair idx) es @ fs)
          else dispatch hdr state idxs subs)"

definition any_frame_match :: "goose_receiver \<Rightarrow> goose_frame_header \<Rightarrow> bool" where
  "any_frame_match r hdr \<longleftrightarrow>
     list_ex (\<lambda>idx. case get_subscriber (gr_subscribers r) idx of
         None \<Rightarrow> False
       | Some sub \<Rightarrow> matches_frame sub (fh_app_id hdr) (fh_dst_mac hdr)) (candidates r (fh_app_id hdr))"

definition do_handle_message ::
    "goose_receiver \<Rightarrow> bytes \<Rightarrow> nat \<Rightarrow> goose_receiver \<times> (nat \<times> goose_event) list \<times> (goose_error + unit)" where
  "do_handle_message r buf now =
     (case frame_decode buf of
        Inl e \<Rightarrow> (r, [], Inl e)
      | Inr frame \<Rightarrow>
          let hdr = gfr_header frame
          in if \<not> any_frame_match r hdr then (r, [], Inr ())
             else case decode_ber (gfr_pdu_bytes frame) of
               Inl e \<Rightarrow> (r, [], Inl e)
             | Inr parsed \<Rightarrow>
                 let (subs, es) = dispatch hdr (state_of hdr parsed now) (candidates r (fh_app_id hdr)) (gr_subscribers r)
                 in (r\<lparr>gr_subscribers := subs\<rparr>, es, Inr ()))"

primrec sweep_from :: "nat \<Rightarrow> goose_subscriber option list \<Rightarrow> nat \<Rightarrow> goose_subscriber option list \<times> (nat \<times> goose_event) list" where
  "sweep_from idx [] now = ([], [])"
| "sweep_from idx (sub # subs) now =
     (let (subs', fs) = sweep_from (Suc idx) subs now
      in case sub of
           None \<Rightarrow> (None # subs', fs)
         | Some sub \<Rightarrow> let (sub', es) = check_expired_at sub now in (Some sub' # subs', map (Pair idx) es @ fs))"

definition check_all_expired :: "goose_receiver \<Rightarrow> nat \<Rightarrow> goose_receiver \<times> (nat \<times> goose_event) list" where
  "check_all_expired r now =
     (let (subs, es) = sweep_from 0 (gr_subscribers r) now in (r\<lparr>gr_subscribers := subs\<rparr>, es))"

definition handle_message_at :: "goose_receiver \<Rightarrow> bytes \<Rightarrow> nat \<Rightarrow> goose_receiver \<times> (nat \<times> goose_event) list" where
  "handle_message_at r buf now =
     (let (r, es, _) = do_handle_message r buf now; (r, fs) = check_all_expired r now in (r, es @ fs))"

definition tick_at :: "goose_receiver \<Rightarrow> bytes option \<Rightarrow> nat \<Rightarrow> goose_receiver \<times> (nat \<times> goose_event) list \<times> bool" where
  "tick_at r frame now =
     (case frame of
        Some buf \<Rightarrow> let (r, es) = handle_message_at r buf now in (r, es, buf \<noteq> [])
      | None \<Rightarrow> let (r, es) = check_all_expired r now in (r, es, False))"

section \<open>The index\<close>

text \<open>The subscribers a filter on the APPID leaves, and the index as the set of them.\<close>

definition live :: "goose_subscriber option list \<Rightarrow> u16 option \<Rightarrow> nat set" where
  "live subs app = {i. \<exists>sub. get_subscriber subs i = Some sub \<and> gs_app_id sub = app}"

definition index_inv :: "goose_receiver \<Rightarrow> bool" where
  "index_inv r \<longleftrightarrow> set (gr_wildcard_indices r) = live (gr_subscribers r) None \<and> distinct (gr_wildcard_indices r)
     \<and> (\<forall>app. set (indices_for r app) = live (gr_subscribers r) (Some app) \<and> distinct (indices_for r app))"

lemma index_inv_new: "index_inv receiver_new"
  by (simp add: index_inv_def receiver_new_def live_def get_subscriber_def indices_for_def)

lemma get_subscriber_append:
  "get_subscriber (subs @ [x]) i = (if i = length subs then x else get_subscriber subs i)"
  by (auto simp: get_subscriber_def nth_append)

lemma get_subscriber_update:
  "get_subscriber (subs[j := x]) i = (if i = j \<and> j < length subs then x else get_subscriber subs i)"
  by (auto simp: get_subscriber_def nth_list_update)

lemma live_bound: "i \<in> live subs app \<Longrightarrow> i < length subs"
  by (auto simp: live_def get_subscriber_def split: if_splits)

lemma live_append:
  "live (subs @ [Some sub]) app = (if gs_app_id sub = app then insert (length subs) (live subs app) else live subs app)"
proof -
  have "get_subscriber subs (length subs) = None" by (simp add: get_subscriber_def)
  then show ?thesis by (auto simp: live_def get_subscriber_append)
qed

lemma live_remove:
  assumes "get_subscriber subs idx = Some sub"
  shows "live (subs[idx := None]) app = (if gs_app_id sub = app then live subs app - {idx} else live subs app)"
proof -
  have "idx < length subs" using assms by (simp add: get_subscriber_def split: if_splits)
  then show ?thesis using assms by (auto simp: live_def get_subscriber_update split: if_splits)
qed

lemma index_inv_add:
  assumes "index_inv r"
  shows "index_inv (fst (add_subscriber r sub))"
proof -
  let ?r = "fst (add_subscriber r sub)" and ?n = "length (gr_subscribers r)"
  have subs: "gr_subscribers ?r = gr_subscribers r @ [Some sub]"
    by (simp add: add_subscriber_def Let_def split: option.split)
  have wild: "gr_wildcard_indices ?r = gr_wildcard_indices r @ (if gs_app_id sub = None then [?n] else [])"
    by (simp add: add_subscriber_def Let_def split: option.split)
  have ind: "indices_for ?r app = indices_for r app @ (if gs_app_id sub = Some app then [?n] else [])" for app
    by (auto simp: add_subscriber_def Let_def indices_for_def split: option.split)
  have "?n \<notin> live (gr_subscribers r) app" for app using live_bound by blast
  then show ?thesis using assms by (auto simp: index_inv_def subs live_append wild ind)
qed

lemma index_inv_remove:
  assumes "index_inv r"
  shows "index_inv (fst (remove_subscriber r idx))"
proof (cases "get_subscriber (gr_subscribers r) idx")
  case None
  then show ?thesis using assms by (auto simp: remove_subscriber_def get_subscriber_def split: if_splits)
next
  case (Some sub)
  let ?r = "fst (remove_subscriber r idx)"
  have idx: "idx < length (gr_subscribers r)" "gr_subscribers r ! idx = Some sub"
    using Some by (auto simp: get_subscriber_def split: if_splits)
  have subs: "gr_subscribers ?r = (gr_subscribers r)[idx := None]"
    using idx by (simp add: remove_subscriber_def Let_def split: option.split)
  have wild: "gr_wildcard_indices ?r =
      (if gs_app_id sub = None then filter (\<lambda>j. j \<noteq> idx) (gr_wildcard_indices r) else gr_wildcard_indices r)"
    using idx by (simp add: remove_subscriber_def Let_def split: option.split)
  have ind: "indices_for ?r app =
      (if gs_app_id sub = Some app then filter (\<lambda>j. j \<noteq> idx) (indices_for r app) else indices_for r app)" for app
    using idx by (auto simp: remove_subscriber_def Let_def indices_for_def split: option.split)
  show ?thesis using assms by (auto simp: index_inv_def subs live_remove [OF Some] wild ind)
qed

text \<open>Keeping the subscribers at their places keeps the index right.\<close>

definition same_filters :: "goose_subscriber option list \<Rightarrow> goose_subscriber option list \<Rightarrow> bool" where
  "same_filters subs subs' \<longleftrightarrow> map (map_option gs_app_id) subs = map (map_option gs_app_id) subs'"

lemma index_inv_same:
  assumes "index_inv r" and "same_filters (gr_subscribers r) subs"
  shows "index_inv (r\<lparr>gr_subscribers := subs\<rparr>)"
proof -
  have len: "length (gr_subscribers r) = length subs" using assms(2) by (metis length_map same_filters_def)
  have "map_option gs_app_id (get_subscriber subs i) = map_option gs_app_id (get_subscriber (gr_subscribers r) i)" for i
    using assms(2) len by (auto simp: get_subscriber_def same_filters_def dest: arg_cong [of _ _ "\<lambda>l. l ! i"])
  then have "live subs app = live (gr_subscribers r) app" for app
    by (simp add: live_def) (metis (no_types, lifting) map_option_eq_Some)
  then show ?thesis using assms(1) by (simp add: index_inv_def indices_for_def)
qed

lemma candidates_correct:
  assumes "index_inv r"
  shows "distinct (candidates r app)"
    and "i \<in> set (candidates r app) \<longleftrightarrow> (\<exists>sub. get_subscriber (gr_subscribers r) i = Some sub
      \<and> (gs_app_id sub = None \<or> gs_app_id sub = Some app))"
proof -
  have "live (gr_subscribers r) None \<inter> live (gr_subscribers r) (Some app) = {}" by (auto simp: live_def)
  then show "distinct (candidates r app)" using assms by (auto simp: candidates_def index_inv_def)
  show "i \<in> set (candidates r app) \<longleftrightarrow> (\<exists>sub. get_subscriber (gr_subscribers r) i = Some sub
      \<and> (gs_app_id sub = None \<or> gs_app_id sub = Some app))"
    using assms by (auto simp: candidates_def index_inv_def live_def)
qed

section \<open>Dispatch\<close>

text \<open>
  The reference: a scan of every subscriber. One that accepts the message handles it, and the others are left
  alone.
\<close>

definition deliver :: "goose_frame_header \<Rightarrow> subscriber_state \<Rightarrow> goose_subscriber \<Rightarrow> goose_subscriber \<times> goose_event list" where
  "deliver hdr state sub = (if accepts sub hdr state then update_and_dispatch sub state else (sub, []))"

definition received :: "bytes \<Rightarrow> nat \<Rightarrow> (goose_frame_header \<times> subscriber_state) option" where
  "received buf now =
     (case frame_decode buf of
        Inl _ \<Rightarrow> None
      | Inr frame \<Rightarrow>
          (case decode_ber (gfr_pdu_bytes frame) of
             Inl _ \<Rightarrow> None
           | Inr parsed \<Rightarrow> Some (gfr_header frame, state_of (gfr_header frame) parsed now)))"

definition served :: "bytes \<Rightarrow> nat \<Rightarrow> goose_subscriber \<Rightarrow> goose_subscriber \<times> goose_event list" where
  "served buf now sub =
     (let (sub1, es) = (case received buf now of None \<Rightarrow> (sub, []) | Some (hdr, state) \<Rightarrow> deliver hdr state sub);
          (sub2, fs) = check_expired_at sub1 now
      in (sub2, es @ fs))"

definition events_of :: "nat \<Rightarrow> (nat \<times> goose_event) list \<Rightarrow> goose_event list" where
  "events_of i es = map snd (filter (\<lambda>e. fst e = i) es)"

lemma events_of_simps [simp]:
  "events_of i [] = []" "events_of i (es @ fs) = events_of i es @ events_of i fs"
  "events_of i (map (Pair j) gs) = (if i = j then gs else [])"
  by (auto simp: events_of_def filter_map comp_def)

abbreviation subscriber_at :: "goose_receiver \<Rightarrow> nat \<Rightarrow> goose_subscriber option" where
  "subscriber_at r i \<equiv> get_subscriber (gr_subscribers r) i"

definition outcome :: "(goose_subscriber \<Rightarrow> goose_subscriber \<times> goose_event list) \<Rightarrow> goose_subscriber option \<Rightarrow>
    goose_subscriber option \<times> goose_event list" where
  "outcome f sub = (case sub of None \<Rightarrow> (None, []) | Some s \<Rightarrow> (Some (fst (f s)), snd (f s)))"

lemma outcome_simps [simp]: "outcome f None = (None, [])" "outcome f (Some s) = (Some (fst (f s)), snd (f s))"
  by (simp_all add: outcome_def)

lemma update_filters [simp]:
  "gs_app_id (fst (update_and_dispatch s new)) = gs_app_id s"
  "gs_dst_mac (fst (update_and_dispatch s new)) = gs_dst_mac s"
  "gs_gocb_ref (fst (update_and_dispatch s new)) = gs_gocb_ref s"
  "gs_simulation (fst (update_and_dispatch s new)) = gs_simulation s"
  by (simp_all add: update_and_dispatch_def Let_def evict_least_recent_def split: option.split)

lemma check_filters [simp]:
  "gs_app_id (fst (check_expired_at s now)) = gs_app_id s"
  "gs_dst_mac (fst (check_expired_at s now)) = gs_dst_mac s"
  "gs_gocb_ref (fst (check_expired_at s now)) = gs_gocb_ref s"
  "gs_simulation (fst (check_expired_at s now)) = gs_simulation s"
  by (simp_all add: check_expired_at_def)

lemma dispatch_correct:
  assumes "distinct idxs"
  shows "length (fst (dispatch hdr state idxs subs)) = length subs"
    and "(get_subscriber (fst (dispatch hdr state idxs subs)) i, events_of i (snd (dispatch hdr state idxs subs))) =
      (if i \<in> set idxs then outcome (deliver hdr state) (get_subscriber subs i) else (get_subscriber subs i, []))"
  using assms
proof (induction idxs arbitrary: subs)
  case (Cons idx idxs)
  case 1
  then show ?case using Cons by (auto simp: split_beta split: option.split)
  case 2
  show ?case
  proof (cases "get_subscriber subs idx")
    case None
    then show ?thesis using Cons 2 by auto
  next
    case (Some sub)
    have "idx < length subs" using Some by (simp add: get_subscriber_def split: if_splits)
    then show ?thesis
      using Cons.IH(2) [of "subs[idx := Some (fst (update_and_dispatch sub state))]"] Cons.IH(2) [of subs] 2 Some
      by (auto simp: deliver_def [of hdr state sub] split_beta get_subscriber_update)
  qed
qed simp_all

lemma sweep_from_correct:
  "length (fst (sweep_from k subs now)) = length subs"
  "(get_subscriber (fst (sweep_from k subs now)) i, events_of (k + i) (snd (sweep_from k subs now))) =
     outcome (\<lambda>s. check_expired_at s now) (get_subscriber subs i)"
  "j < k \<Longrightarrow> events_of j (snd (sweep_from k subs now)) = []"
proof (induction subs arbitrary: k i j)
  case (Cons sub subs)
  case 1
  then show ?case using Cons by (auto simp: split_beta split: option.split)
  case 2
  show ?case
  proof (cases i)
    case 0
    then show ?thesis
      using Cons(3) [of k "Suc k"] by (cases sub) (auto simp: split_beta get_subscriber_def)
  next
    case (Suc i')
    then show ?thesis
      using Cons(2) [of "Suc k" i'] by (cases sub) (auto simp: split_beta get_subscriber_def)
  qed
  case 3
  then show ?case using Cons(3) [of _ "Suc k"] by (cases sub) (auto simp: split_beta)
qed (simp_all add: get_subscriber_def)

lemma check_all_correct:
  "(subscriber_at (fst (check_all_expired r now)) i, events_of i (snd (check_all_expired r now))) =
     outcome (\<lambda>s. check_expired_at s now) (subscriber_at r i)"
  using sweep_from_correct(2) [of 0 "gr_subscribers r" now i] by (simp add: check_all_expired_def split_beta)

lemma accepts_candidate:
  assumes "index_inv r" and "subscriber_at r i = Some sub" and "i \<notin> set (candidates r (fh_app_id hdr))"
  shows "\<not> matches_frame sub (fh_app_id hdr) (fh_dst_mac hdr)"
  using assms candidates_correct(2) [OF assms(1), of i] by (auto simp: matches_frame_def split: option.splits)

lemma dispatch_scans:
  assumes "index_inv r" and "dispatch hdr state (candidates r (fh_app_id hdr)) (gr_subscribers r) = (subs, es)"
  shows "(get_subscriber subs i, events_of i es) = outcome (deliver hdr state) (subscriber_at r i)"
proof -
  let ?c = "candidates r (fh_app_id hdr)"
  have d: "(get_subscriber subs i, events_of i es) =
      (if i \<in> set ?c then outcome (deliver hdr state) (subscriber_at r i) else (subscriber_at r i, []))"
    using dispatch_correct(2) [OF candidates_correct(1) [OF assms(1)], of hdr state "fh_app_id hdr" "gr_subscribers r" i]
    by (simp add: assms(2))
  show ?thesis
  proof (cases "subscriber_at r i")
    case (Some sub)
    then show ?thesis using d accepts_candidate [OF assms(1) Some, of hdr] by (auto simp: deliver_def accepts_def)
  qed (use d in simp)
qed

lemma no_match_no_delivery:
  assumes "index_inv r" and "\<not> any_frame_match r hdr"
  shows "outcome (deliver hdr state) (subscriber_at r i) = (subscriber_at r i, [])"
proof (cases "subscriber_at r i")
  case (Some sub)
  then have "\<not> matches_frame sub (fh_app_id hdr) (fh_dst_mac hdr)"
    using assms(2) accepts_candidate [OF assms(1) Some, of hdr]
    by (cases "i \<in> set (candidates r (fh_app_id hdr))") (auto simp: any_frame_match_def list_ex_iff)
  then show ?thesis by (simp add: Some deliver_def accepts_def)
qed simp

lemma outcome_id: "outcome (\<lambda>s. (s, [])) sub = (sub, [])"
  by (cases sub) simp_all

lemma do_handle_message_scans:
  assumes "index_inv r" and "do_handle_message r buf now = (r', es, res)"
  shows "(subscriber_at r' i, events_of i es) =
    outcome (\<lambda>s. case received buf now of None \<Rightarrow> (s, []) | Some (hdr, state) \<Rightarrow> deliver hdr state s) (subscriber_at r i)"
  using assms(2) no_match_no_delivery [OF assms(1), of _ _ i] dispatch_scans [OF assms(1), of _ _ _ _ i]
  by (auto simp: do_handle_message_def received_def outcome_id Let_def split_beta
      split: sum.splits if_splits option.splits)

section \<open>Runs of a receiver\<close>

text \<open>Every operation that changes a receiver; a subscriber comes from a builder.\<close>

datatype receiver_op =
    AddSubscriber subscriber_builder
  | RemoveSubscriber nat
  | Message bytes nat
  | Sweep nat

fun receiver_apply :: "receiver_op \<Rightarrow> goose_receiver \<Rightarrow> goose_receiver" where
  "receiver_apply (AddSubscriber b) r = fst (add_subscriber r (build b))"
| "receiver_apply (RemoveSubscriber idx) r = fst (remove_subscriber r idx)"
| "receiver_apply (Message buf now) r = fst (tick_at r (Some buf) now)"
| "receiver_apply (Sweep now) r = fst (tick_at r None now)"

definition receiver_run :: "receiver_op list \<Rightarrow> goose_receiver" where
  "receiver_run ops = foldl (\<lambda>r op. receiver_apply op r) receiver_new ops"

lemma handle_scans:
  assumes "index_inv r"
  shows "(subscriber_at (fst (handle_message_at r buf now)) i, events_of i (snd (handle_message_at r buf now))) =
    outcome (served buf now) (subscriber_at r i)"
proof -
  obtain r1 es res where d: "do_handle_message r buf now = (r1, es, res)" by (metis prod.exhaust)
  let ?f = "\<lambda>s. case received buf now of None \<Rightarrow> (s, []) | Some (hdr, state) \<Rightarrow> deliver hdr state s"
  have one: "(subscriber_at r1 i, events_of i es) = outcome ?f (subscriber_at r i)"
    using do_handle_message_scans [OF assms d] .
  have two: "(subscriber_at (fst (check_all_expired r1 now)) i, events_of i (snd (check_all_expired r1 now))) =
      outcome (\<lambda>s. check_expired_at s now) (subscriber_at r1 i)"
    by (rule check_all_correct)
  have whole: "handle_message_at r buf now = (fst (check_all_expired r1 now), es @ snd (check_all_expired r1 now))"
    by (simp add: handle_message_at_def d split_beta)
  have "served buf now s = (fst (check_expired_at (fst (?f s)) now), snd (?f s) @ snd (check_expired_at (fst (?f s)) now))" for s
    by (simp add: served_def split_beta Let_def)
  then show ?thesis using one two unfolding whole by (cases "subscriber_at r i") auto
qed

lemma same_filters_update:
  assumes "get_subscriber subs idx = Some sub"
  shows "same_filters subs (subs[idx := Some (fst (update_and_dispatch sub state))])"
proof -
  have "Some (gs_app_id sub) = map (map_option gs_app_id) subs ! idx"
    using assms by (auto simp: get_subscriber_def split: if_splits)
  then show ?thesis unfolding same_filters_def map_update by (metis list_update_id option.simps(9) update_filters(1))
qed

lemma same_filters_trans: "same_filters a b \<Longrightarrow> same_filters b c \<Longrightarrow> same_filters a c"
  by (simp add: same_filters_def)

lemma same_filters_dispatch: "same_filters subs (fst (dispatch hdr state idxs subs))"
proof (induction idxs arbitrary: subs)
  case (Cons idx idxs)
  then show ?case
    using same_filters_trans [OF same_filters_update Cons] by (auto simp: split_beta split: option.split)
qed (simp add: same_filters_def)

lemma same_filters_sweep: "same_filters subs (fst (sweep_from k subs now))"
  by (induction subs arbitrary: k) (auto simp: same_filters_def split_beta split: option.split)

lemma sweep_index: "index_inv r \<Longrightarrow> index_inv (fst (check_all_expired r now))"
  using index_inv_same [OF _ same_filters_sweep] by (simp add: check_all_expired_def split_beta)

lemma handle_index:
  assumes "index_inv r"
  shows "index_inv (fst (handle_message_at r buf now))"
proof -
  have "index_inv (fst (do_handle_message r buf now))"
    using assms index_inv_same [OF assms same_filters_dispatch]
    by (auto simp: do_handle_message_def Let_def split_beta split: sum.split)
  then show ?thesis using sweep_index by (simp add: handle_message_at_def split_beta)
qed

lemma receiver_op_index: "index_inv r \<Longrightarrow> index_inv (receiver_apply op r)"
  by (cases op) (simp_all add: index_inv_add index_inv_remove handle_index sweep_index tick_at_def split_beta)

interpretation rcv: kept_by_operations receiver_apply "\<lambda>_. True" index_inv
  by unfold_locales (rule receiver_op_index)

lemma receiver_run_index: "index_inv (receiver_run ops)"
  unfolding receiver_run_def by (rule rcv.run_keeps) (simp_all add: index_inv_new)

text \<open>
  C21. The index by APPID changes nothing but the speed: after any additions, removals, frames and sweeps, a frame
  has on each subscriber the effect of a scan of all of them. One whose filters accept the message is updated
  exactly once and its listener gets the events of that update and of the sweep that follows; the others are
  only swept.
\<close>

theorem dispatch_equals_scan:
  "(subscriber_at (fst (handle_message_at (receiver_run ops) buf now)) i,
    events_of i (snd (handle_message_at (receiver_run ops) buf now))) =
   outcome (served buf now) (subscriber_at (receiver_run ops) i)"
  by (rule handle_scans) (rule receiver_run_index)

lemma served_inv: "subscriber_inv s \<Longrightarrow> subscriber_inv (fst (served buf now s))"
  by (auto simp: served_def deliver_def split_beta Let_def split: option.split
      intro!: check_keeps_inv update_keeps_inv)

text \<open>
  C20. Whatever frames arrive, a subscriber never tracks more publications than its bound, tracks each gocbRef
  and Simulation flag at most once, and the index of the receiver lists exactly the subscribers present.
\<close>

theorem receiver_invariant:
  "index_inv (receiver_run ops) \<and>
   (subscriber_at (receiver_run ops) i = Some s \<longrightarrow>
      length (gs_streams s) \<le> gs_max_streams s \<and> distinct (map track_key (gs_streams s)))"
proof -
  have "\<forall>s. subscriber_at (receiver_run ops) i = Some s \<longrightarrow> subscriber_inv s"
  proof (induction ops rule: rev_induct)
    case (snoc op ops)
    let ?r = "receiver_run ops"
    have run: "receiver_run (ops @ [op]) = receiver_apply op ?r" by (simp add: receiver_run_def)
    have "\<forall>s. subscriber_at (receiver_apply op ?r) i = Some s \<longrightarrow> subscriber_inv s"
    proof (cases op)
      case (AddSubscriber b)
      then show ?thesis
        using snoc build_inv
        by (auto simp: add_subscriber_def Let_def get_subscriber_append split: option.splits if_splits)
    next
      case (RemoveSubscriber idx)
      then show ?thesis
        using snoc
        by (auto simp: remove_subscriber_def Let_def get_subscriber_update split: option.splits if_splits)
    next
      case (Message buf now)
      then show ?thesis
        using snoc handle_scans [OF receiver_run_index, of ops buf now i] served_inv
        by (cases "subscriber_at ?r i") (auto simp: tick_at_def split_beta)
    next
      case (Sweep now)
      then show ?thesis
        using snoc check_all_correct [of ?r now i] check_keeps_inv
        by (cases "subscriber_at ?r i") (auto simp: tick_at_def split_beta)
    qed
    then show ?case by (simp add: run)
  qed (simp add: receiver_run_def receiver_new_def get_subscriber_def)
  then show ?thesis using receiver_run_index by (simp add: subscriber_inv_def)
qed

theorem receiver_invariant_witness:
  "subscriber_at (receiver_run [AddSubscriber builder_new, Sweep 5]) 0 = Some (build builder_new) \<and>
   length (gs_streams (build builder_new)) \<le> gs_max_streams (build builder_new)"
proof -
  have "subscriber_at (receiver_run [AddSubscriber builder_new, Sweep 5]) 0 = Some (build builder_new)"
    by (simp add: receiver_run_def receiver_new_def add_subscriber_def build_def builder_new_def Let_def tick_at_def
        check_all_expired_def check_expired_at_def get_subscriber_def)
  with receiver_invariant [of "[AddSubscriber builder_new, Sweep 5]" 0 "build builder_new"] show ?thesis by simp
qed

end
