(* ===== verification/Goose_Link.thy ===== *)
theory Goose_Link
  imports Goose_Receiver
begin

text \<open>
  A publisher and a receiver joined by a network that delivers the frames in order: what the listener of a
  subscriber hears over a sequence of publications.
\<close>

section \<open>The link\<close>

text \<open>
  One publication: whether the data changed before it, the data set, when it is published, when its frame
  arrives, and the times the receiver sweeps before the next frame.
\<close>

record link_round =
  lr_change :: bool
  lr_data :: "mms_value list"
  lr_at :: nat
  lr_arrival :: nat
  lr_sweeps :: "nat list"

definition before_publish :: "goose_publisher \<Rightarrow> link_round \<Rightarrow> goose_publisher" where
  "before_publish p x = (if lr_change x then increase_st_num p else p)"

primrec receiver_sweeps :: "goose_receiver \<Rightarrow> nat list \<Rightarrow> goose_receiver \<times> (nat \<times> goose_event) list" where
  "receiver_sweeps r [] = (r, [])"
| "receiver_sweeps r (now # ts) =
     (let (r1, es, _) = tick_at r None now; (r2, fs) = receiver_sweeps r1 ts in (r2, es @ fs))"

primrec link_run :: "goose_publisher \<Rightarrow> goose_receiver \<Rightarrow> link_round list \<Rightarrow> (nat \<times> goose_event) list" where
  "link_run p r [] = []"
| "link_run p r (x # xs) =
     (let (p, res) = publish_at (before_publish p x) (lr_data x) (lr_at x)
      in case res of
           Inl _ \<Rightarrow> link_run p r xs
         | Inr frame \<Rightarrow>
             let (r, es) = handle_message_at r frame (lr_arrival x);
                 (r, fs) = receiver_sweeps r (lr_sweeps x)
             in es @ fs @ link_run p r xs)"

text \<open>What the listener should hear: each publication once, in order, valid, and no expiry.\<close>

definition heard_state :: "goose_publisher \<Rightarrow> link_round \<Rightarrow> subscriber_state" where
  "heard_state q x = state_of (frame_header q) (publication q (lr_data x)) (lr_arrival x)"

primrec expected :: "goose_publisher \<Rightarrow> u32 option \<Rightarrow> link_round list \<Rightarrow> goose_event list" where
  "expected p prev [] = []"
| "expected p prev (x # xs) =
     (let q = before_publish p x
      in (case prev of
            None \<Rightarrow> NewState 0 (heard_state q x) (Inr ())
          | Some n \<Rightarrow>
              if lr_change x then NewState n (heard_state q x) (Inr ()) else Retransmission (heard_state q x) (Inr ()))
         # expected (published q (lr_at x)) (Some (gpub_st_num q)) xs)"

text \<open>Data a frame can carry, and sweeps that do not come later than the next publication is due.\<close>

primrec rounds_ok :: "goose_publisher \<Rightarrow> link_round list \<Rightarrow> bool" where
  "rounds_ok p [] = True"
| "rounds_ok p (x # xs) =
     (let q = before_publish p x
      in (\<forall>v \<in> set (lr_data x). goose_ok v \<and> fits 0 v) \<and> length (concat (map goose_bytes (lr_data x))) \<le> 900
         \<and> (\<forall>t \<in> set (lr_sweeps x). t \<le> lr_arrival x + next_interval q)
         \<and> rounds_ok (published q (lr_at x)) xs)"

section \<open>Publisher steps\<close>

lemma increase_simps [simp]:
  "gpub_gocb_ref (increase_st_num p) = gpub_gocb_ref p" "gpub_data_set_ref (increase_st_num p) = gpub_data_set_ref p"
  "gpub_go_id (increase_st_num p) = gpub_go_id p" "gpub_conf_rev (increase_st_num p) = gpub_conf_rev p"
  "gpub_st_num (increase_st_num p) = (if gpub_st_num p = - 1 then 1 else gpub_st_num p + 1)"
  "gpub_sq_num (increase_st_num p) = 0" "gpub_simulation (increase_st_num p) = gpub_simulation p"
  "gpub_comm (increase_st_num p) = gpub_comm p" "gpub_retrans_intervals (increase_st_num p) = gpub_retrans_intervals p"
  "gpub_time_allowed_to_live_override (increase_st_num p) = gpub_time_allowed_to_live_override p"
  by (auto simp: increase_st_num_def stamp_state_change_def Let_def eq_neg_iff_add_eq_0 [symmetric] split: option.split)

lemma published_simps [simp]:
  "gpub_gocb_ref (published p now) = gpub_gocb_ref p" "gpub_data_set_ref (published p now) = gpub_data_set_ref p"
  "gpub_go_id (published p now) = gpub_go_id p" "gpub_conf_rev (published p now) = gpub_conf_rev p"
  "gpub_st_num (published p now) = gpub_st_num p"
  "gpub_sq_num (published p now) = (if gpub_sq_num p = - 1 then 1 else gpub_sq_num p + 1)"
  "gpub_simulation (published p now) = gpub_simulation p" "gpub_comm (published p now) = gpub_comm p"
  "gpub_retrans_intervals (published p now) = gpub_retrans_intervals p"
  "gpub_time_allowed_to_live_override (published p now) = gpub_time_allowed_to_live_override p"
  by (auto simp: published_def Let_def eq_neg_iff_add_eq_0 [symmetric])

text \<open>A publisher a subscriber can follow.\<close>

definition link_publisher :: "goose_publisher \<Rightarrow> bool" where
  "link_publisher p \<longleftrightarrow> publisher_inv p \<and> references_ok p \<and> vlan_ok (cp_vlan (gpub_comm p))
     \<and> gpub_time_allowed_to_live_override p = None
     \<and> (\<forall>ph. phase_interval ph (gpub_retrans_intervals p) < from_millis (2 ^ 32))"

lemma link_publisher_steps:
  assumes "link_publisher p"
  shows "link_publisher (before_publish p x)" and "link_publisher (published p now)"
proof -
  have "publisher_inv (increase_st_num p)"
    using publisher_op_inv [of p IncreaseStNum] assms by (simp add: link_publisher_def)
  then show "link_publisher (before_publish p x)"
    using assms by (simp add: link_publisher_def before_publish_def references_ok_def)
  have "publisher_inv (published p now)"
    using assms by (simp add: link_publisher_def publisher_inv_def frame_header_def) (simp add: published_def Let_def)
  then show "link_publisher (published p now)"
    using assms by (simp add: link_publisher_def references_ok_def)
qed

text \<open>The time allowed to live covers the interval to the next publication.\<close>

lemma time_allowed_to_live_covers:
  assumes "link_publisher p"
  shows "as_millis (next_interval p) \<le> unat (time_allowed_to_live_ms p)"
proof -
  let ?ms = "as_millis (next_interval p)"
  have ms: "?ms < 2 ^ 32"
    using assms by (auto simp: link_publisher_def next_interval_def less_mult_imp_div_less)
  show ?thesis
  proof (cases "2 * ?ms < 2 ^ 32")
    case True
    then have "unat (of_nat (2 * ?ms) :: u32) = 2 * ?ms" by (simp add: unat_of_nat del: of_nat_mult)
    moreover have "time_allowed_to_live_ms p = of_nat (2 * ?ms)"
      using True assms by (simp add: link_publisher_def time_allowed_to_live_ms_def Let_def)
    ultimately show ?thesis by simp
  next
    case False
    have "(of_nat ?ms :: u32) \<le> - 1" by (rule word_order.extremum)
    then have "?ms \<le> unat (- 1 :: u32)" using ms by (simp add: word_le_nat_alt unat_of_nat)
    moreover have "time_allowed_to_live_ms p = - 1"
      using False assms by (simp add: link_publisher_def time_allowed_to_live_ms_def Let_def)
    ultimately show ?thesis by simp
  qed
qed

section \<open>Subscriber steps\<close>

text \<open>
  A subscriber in step with a publisher: before its first frame it tracks nothing, and afterwards it tracks the
  publication at the frame sent last.
\<close>

definition synced :: "goose_publisher \<Rightarrow> subscriber_state option \<Rightarrow> goose_subscriber \<Rightarrow> bool" where
  "synced p prev s \<longleftrightarrow> subscriber_inv s \<and> gs_listener s
     \<and> matches_frame s (cp_app_id (gpub_comm p)) (cp_dst_mac (gpub_comm p)) \<and> matches_gocb_ref s (gpub_gocb_ref p)
     \<and> filter_accepts (gs_simulation s) (gpub_simulation p)
     \<and> (case prev of
          None \<Rightarrow> gs_streams s = []
        | Some l \<Rightarrow> (\<exists>seen. gs_streams s = [\<lparr>st_last = l, st_expired_fired = False, st_last_seen = seen\<rparr>])
            \<and> stream_key l = (gpub_gocb_ref p, gpub_simulation p) \<and> gss_st_num l = gpub_st_num p
            \<and> gpub_sq_num p = (if gss_sq_num l = - 1 then 1 else gss_sq_num l + 1)
            \<and> gss_conf_rev l = gpub_conf_rev p \<and> gss_st_num l \<noteq> 0)"

lemma heard_state_simps [simp]:
  "stream_key (heard_state q x) = (gpub_gocb_ref q, gpub_simulation q)"
  "gss_st_num (heard_state q x) = gpub_st_num q" "gss_sq_num (heard_state q x) = gpub_sq_num q"
  "gss_conf_rev (heard_state q x) = gpub_conf_rev q" "gss_state_valid (heard_state q x)"
  "gss_gocb_ref (heard_state q x) = gpub_gocb_ref q" "is_simulated (heard_state q x) = gpub_simulation q"
  "gss_received_at (heard_state q x) = lr_arrival x"
  "gss_time_allowed_to_live_ms (heard_state q x) = time_allowed_to_live_ms q"
  by (simp_all add: heard_state_def state_of_def publication_def stream_key_def is_simulated_def frame_header_def)

lemma word_less_inc: "(w :: 'a::len word) \<noteq> - 1 \<Longrightarrow> w < w + 1"
  using inc_less_eq_triv_imp [of w] by (meson not_le)

lemma newer_iff: "newer l new \<longleftrightarrow> \<not> st_num_rollback (Some l) new \<and> \<not> sq_num_rollback (Some l) new"
  by (auto simp: st_num_rollback_def sq_num_rollback_def st_num_wrapped_def newer_def is_wrap_to_one_def)

lemma judged_fresh:
  assumes "gss_state_valid new" and "\<And>l. prev = Some l \<Longrightarrow> newer l new"
  shows "judged prev new = new"
proof -
  have "\<not> st_num_rollback prev new \<and> \<not> sq_num_rollback prev new"
    using assms(2) newer_iff by (cases prev) (simp_all add: st_num_rollback_def [of None] sq_num_rollback_def [of None])
  then show ?thesis using assms(1) by (cases new) (simp add: judged_def)
qed

lemma synced_Some:
  assumes "synced p (Some l) s"
  shows "stream_key l = (gpub_gocb_ref p, gpub_simulation p)" and "gss_st_num l = gpub_st_num p"
    and "gpub_sq_num p = (if gss_sq_num l = - 1 then 1 else gss_sq_num l + 1)"
    and "gss_conf_rev l = gpub_conf_rev p" and "gpub_st_num p \<noteq> 0"
    and "\<exists>seen. gs_streams s = [\<lparr>st_last = l, st_expired_fired = False, st_last_seen = seen\<rparr>]"
  using assms by (auto simp: synced_def)

lemma publication_step:
  assumes "synced p (Some l) s"
  shows "lr_change x \<Longrightarrow> st_num_wrapped (Some l) (heard_state (before_publish p x) x)
      \<or> gss_st_num (heard_state (before_publish p x) x) > gss_st_num l"
    and "\<not> lr_change x \<Longrightarrow> gss_st_num (heard_state (before_publish p x) x) = gss_st_num l
      \<and> (gss_sq_num l < gss_sq_num (heard_state (before_publish p x) x)
         \<or> is_wrap_to_one (gss_sq_num l) (gss_sq_num (heard_state (before_publish p x) x)))"
  using synced_Some(2,3) [OF assms] word_less_inc [of "gpub_st_num p"] word_less_inc [of "gss_sq_num l"]
  by (simp_all add: before_publish_def st_num_wrapped_def is_wrap_to_one_def)

lemma publication_newer:
  assumes "synced p (Some l) s"
  shows "newer l (heard_state (before_publish p x) x)"
  using publication_step [OF assms, of x] unfolding newer_def st_num_wrapped_def option.case by metis

lemma synced_event:
  assumes "synced p prev s"
  shows "event_of prev (heard_state (before_publish p x) x) =
    (case prev of
       None \<Rightarrow> NewState 0 (heard_state (before_publish p x) x) (Inr ())
     | Some l \<Rightarrow> if lr_change x then NewState (gss_st_num l) (heard_state (before_publish p x) x) (Inr ())
         else Retransmission (heard_state (before_publish p x) x) (Inr ()))"
proof (cases prev)
  case None
  then show ?thesis
    using judged_fresh [of "heard_state (before_publish p x) x" None]
    by (simp add: event_of_def Let_def conf_rev_result_def)
next
  case (Some l)
  let ?new = "heard_state (before_publish p x) x"
  note syn = assms [unfolded Some]
  note newer = publication_newer [OF syn, of x] and step = publication_step [OF syn, of x]
  have conf: "conf_rev_result (Some l) ?new = Inr ()"
    using synced_Some(4) [OF syn] by (simp add: conf_rev_result_def before_publish_def)
  have nz: "gss_st_num l \<noteq> 0" using synced_Some(2,5) [OF syn] by simp
  have new: "judged (Some l) ?new = ?new" using newer judged_fresh [of ?new "Some l"] by simp
  show ?thesis
  proof (cases "lr_change x")
    case True
    then show ?thesis using step(1) new conf by (auto simp: Some event_of_def Let_def)
  next
    case False
    then have same: "gss_st_num ?new = gss_st_num l" using step(2) by blast
    then have "\<not> st_num_wrapped (Some l) ?new" by (simp add: st_num_wrapped_def is_wrap_to_one_def del: heard_state_simps)
    then show ?thesis
      using False same newer new conf nz
      by (simp add: Some event_of_def Let_def newer_iff del: heard_state_simps)
  qed
qed

lemma synced_streams:
  assumes "synced p prev s" and new_def: "new = heard_state (before_publish p x) x"
  shows "map_option st_last (tracked s (stream_key new)) = prev"
    and "\<exists>seen. gs_streams (fst (update_and_dispatch s new)) =
      [\<lparr>st_last = new, st_expired_fired = False, st_last_seen = seen\<rparr>]"
proof -
  have key: "stream_key new = (gpub_gocb_ref p, gpub_simulation p)" by (simp add: new_def before_publish_def)
  have "map_option st_last (tracked s (stream_key new)) = prev \<and> (\<exists>seen. gs_streams (fst (update_and_dispatch s new)) =
      [\<lparr>st_last = new, st_expired_fired = False, st_last_seen = seen\<rparr>])"
  proof (cases prev)
    case None
    then have none: "gs_streams s = []" and room: "1 \<le> gs_max_streams s"
      using assms(1) by (simp_all add: synced_def subscriber_inv_def)
    have "judged None new = new" using judged_fresh [of new None] by (simp add: new_def)
    then show ?thesis
      using none room None by (simp add: tracked_def update_and_dispatch_def Let_def slot_of_def)
  next
    case (Some l)
    note syn = assms(1) [unfolded Some]
    obtain seen where t: "gs_streams s = [\<lparr>st_last = l, st_expired_fired = False, st_last_seen = seen\<rparr>]"
      using synced_Some(6) [OF syn] by blast
    have "newer l new" using publication_newer [OF syn] by (simp add: new_def)
    then have "judged (Some l) new = new" using judged_fresh [of new "Some l"] by (simp add: new_def)
    then show ?thesis
      using key synced_Some(1) [OF syn]
      by (simp add: t Some tracked_def update_and_dispatch_def Let_def slot_of_def refreshed_def)
  qed
  then show "map_option st_last (tracked s (stream_key new)) = prev"
    and "\<exists>seen. gs_streams (fst (update_and_dispatch s new)) =
      [\<lparr>st_last = new, st_expired_fired = False, st_last_seen = seen\<rparr>]" by blast+
qed

lemma synced_keeps:
  assumes "synced p prev s" and "publisher_inv p"
  shows "synced (published (before_publish p x) now) (Some (heard_state (before_publish p x) x))
      (fst (update_and_dispatch s (heard_state (before_publish p x) x)))"
proof -
  have "gpub_st_num (before_publish p x) \<noteq> 0"
    using publisher_op_inv [OF assms(2), of IncreaseStNum] assms(2) by (simp add: publisher_inv_def before_publish_def)
  moreover have "gpub_comm (before_publish p x) = gpub_comm p" "gpub_gocb_ref (before_publish p x) = gpub_gocb_ref p"
    "gpub_simulation (before_publish p x) = gpub_simulation p" by (simp_all add: before_publish_def)
  ultimately show ?thesis
    using assms(1) synced_streams(2) [OF assms(1) refl, of x] update_keeps_inv [of s]
    by (simp add: synced_def matches_frame_def matches_gocb_ref_def)
qed

text \<open>Sweeps within the interval raise nothing.\<close>

lemma sweep_quiet:
  assumes "link_publisher q" and "t \<le> lr_arrival x + next_interval q"
    and "gs_streams s = [\<lparr>st_last = heard_state q x, st_expired_fired = False, st_last_seen = seen\<rparr>]"
  shows "check_expired_at s t = (s, [])"
proof -
  let ?ms = "as_millis (t - lr_arrival x)" and ?tal = "time_allowed_to_live_ms q"
  have "?ms \<le> as_millis (next_interval q)" using assms(2) by (simp add: div_le_mono)
  also have "\<dots> \<le> unat ?tal" using assms(1) by (rule time_allowed_to_live_covers)
  finally have le: "?ms \<le> unat ?tal" .
  moreover have "unat ?tal < 2 ^ 32" using unat_u32_less [of ?tal] by simp
  ultimately have "?ms < 2 ^ 64" by simp
  then have "elapsed_ms (heard_state q x) t = of_nat ?ms" by (simp add: elapsed_ms_def Let_def)
  moreover have "(of_nat ?ms :: u64) \<le> ucast ?tal"
  proof -
    have "unat (ucast ?tal :: u64) = unat ?tal"
      using \<open>unat ?tal < 2 ^ 32\<close> by (simp add: unsigned_ucast_eq take_bit_nat_eq_self_iff)
    then show ?thesis using le \<open>?ms < 2 ^ 64\<close> by (simp add: word_le_nat_alt unat_of_nat)
  qed
  ultimately have "\<not> overdue t \<lparr>st_last = heard_state q x, st_expired_fired = False, st_last_seen = seen\<rparr>"
    by (simp add: overdue_def not_less)
  then show ?thesis using assms(3) by (cases s) (simp add: check_expired_at_def)
qed

section \<open>The whole link\<close>

lemma sweeps_quiet:
  assumes "link_publisher q"
    and "gs_streams s = [\<lparr>st_last = heard_state q x, st_expired_fired = False, st_last_seen = seen\<rparr>]"
    and "\<forall>t \<in> set ts. t \<le> lr_arrival x + next_interval q" and "subscriber_at r i = Some s"
  shows "subscriber_at (fst (receiver_sweeps r ts)) i = Some s \<and> events_of i (snd (receiver_sweeps r ts)) = []"
  using assms(3,4)
proof (induction ts arbitrary: r)
  case (Cons t ts)
  have quiet: "check_expired_at s t = (s, [])" using sweep_quiet [OF assms(1) _ assms(2)] Cons.prems(1) by simp
  have one: "subscriber_at (fst (check_all_expired r t)) i = Some s" "events_of i (snd (check_all_expired r t)) = []"
    using check_all_correct [of r t i] Cons.prems(2) quiet by auto
  then show ?case using Cons.IH [OF _ one(1)] Cons.prems(1) by (simp add: tick_at_def split_beta)
qed simp

lemma sweeps_index: "index_inv r \<Longrightarrow> index_inv (fst (receiver_sweeps r ts))"
  by (induction ts arbitrary: r) (simp_all add: tick_at_def split_beta sweep_index)

lemma frame_received:
  assumes "link_publisher q" and "publish_at q (lr_data x) at = (q', Inr frame)" and "\<forall>v \<in> set (lr_data x). goose_ok v"
  obtains hdr where "received frame (lr_arrival x) = Some (hdr, heard_state q x)"
    and "fh_app_id hdr = cp_app_id (gpub_comm q)" and "fh_dst_mac hdr = cp_dst_mac (gpub_comm q)"
proof -
  have inv: "publisher_inv q" "references_ok q" "vlan_ok (cp_vlan (gpub_comm q))"
    using assms(1) by (simp_all add: link_publisher_def)
  note d = published_frame_decodes(1) [OF inv assms(3,2), of "[]"] published_frame_decodes(2) [OF inv assms(3,2)]
  show thesis
    using d that by (simp add: received_def with_length_def heard_state_def state_of_def frame_header_def)
qed

lemma served_in_step:
  assumes "link_publisher p" and "synced p prev s" and "received frame (lr_arrival x) = Some (hdr, heard_state (before_publish p x) x)"
    and "fh_app_id hdr = cp_app_id (gpub_comm p)" and "fh_dst_mac hdr = cp_dst_mac (gpub_comm p)"
  shows "served frame (lr_arrival x) s = (fst (update_and_dispatch s (heard_state (before_publish p x) x)),
    [event_of prev (heard_state (before_publish p x) x)])"
proof -
  let ?new = "heard_state (before_publish p x) x"
  obtain seen where streams: "gs_streams (fst (update_and_dispatch s ?new)) =
      [\<lparr>st_last = ?new, st_expired_fired = False, st_last_seen = seen\<rparr>]"
    using synced_streams(2) [OF assms(2) refl] by blast
  have "accepts s hdr ?new"
    using assms(2,4,5) by (simp add: accepts_def synced_def before_publish_def)
  moreover have "snd (update_and_dispatch s ?new) = [event_of prev ?new]"
    using synced_streams(1) [OF assms(2) refl, of x] assms(2) by (simp add: update_events synced_def)
  moreover have "check_expired_at (fst (update_and_dispatch s ?new)) (lr_arrival x) =
      (fst (update_and_dispatch s ?new), [])"
    using sweep_quiet [OF link_publisher_steps(1) [OF assms(1)] _ streams, of "lr_arrival x"] by simp
  ultimately show ?thesis by (simp add: served_def assms(3) deliver_def split_beta)
qed

lemma link_heard:
  assumes "link_publisher p" and "rounds_ok p xs" and "index_inv r" and "subscriber_at r i = Some s" and "synced p prev s"
  shows "events_of i (link_run p r xs) = expected p (map_option gss_st_num prev) xs"
  using assms
proof (induction xs arbitrary: p r s prev)
  case (Cons x xs)
  let ?q = "before_publish p x" and ?new = "heard_state (before_publish p x) x"
  note q = link_publisher_steps(1) [OF Cons.prems(1), of x]
  from Cons.prems(2) have ok: "\<forall>v \<in> set (lr_data x). goose_ok v" "\<forall>v \<in> set (lr_data x). fits 0 v"
    "length (concat (map goose_bytes (lr_data x))) \<le> 900" "\<forall>t \<in> set (lr_sweeps x). t \<le> lr_arrival x + next_interval ?q"
    "rounds_ok (published ?q (lr_at x)) xs" by (auto simp: Let_def)
  obtain frame where pub: "publish_at ?q (lr_data x) (lr_at x) = (published ?q (lr_at x), Inr frame)"
    using small_publication_succeeds [OF _ _ ok(2,3)] q unfolding link_publisher_def by blast
  have comm: "gpub_comm ?q = gpub_comm p" by (simp add: before_publish_def)
  obtain hdr where rec: "received frame (lr_arrival x) = Some (hdr, ?new)"
    and hdr: "fh_app_id hdr = cp_app_id (gpub_comm p)" "fh_dst_mac hdr = cp_dst_mac (gpub_comm p)"
    using q pub ok(1) unfolding comm [symmetric] by (rule frame_received)
  let ?s = "fst (update_and_dispatch s ?new)" and ?r1 = "fst (handle_message_at r frame (lr_arrival x))"
  have one: "subscriber_at ?r1 i = Some ?s" "events_of i (snd (handle_message_at r frame (lr_arrival x))) = [event_of prev ?new]"
    using handle_scans [OF Cons.prems(3), of frame "lr_arrival x" i] Cons.prems(4)
      served_in_step [OF Cons.prems(1,5) rec hdr] by auto
  obtain seen where "gs_streams ?s = [\<lparr>st_last = ?new, st_expired_fired = False, st_last_seen = seen\<rparr>]"
    using synced_streams(2) [OF Cons.prems(5) refl] by blast
  from sweeps_quiet [OF q this ok(4) one(1)]
  have two: "subscriber_at (fst (receiver_sweeps ?r1 (lr_sweeps x))) i = Some ?s"
    "events_of i (snd (receiver_sweeps ?r1 (lr_sweeps x))) = []" by blast+
  let ?r2 = "fst (receiver_sweeps ?r1 (lr_sweeps x))"
  have "publisher_inv p" using Cons.prems(1) by (simp add: link_publisher_def)
  then have "synced (published ?q (lr_at x)) (Some ?new) ?s" by (rule synced_keeps [OF Cons.prems(5)])
  then have "events_of i (link_run (published ?q (lr_at x)) ?r2 xs) =
      expected (published ?q (lr_at x)) (Some (gpub_st_num ?q)) xs"
    using Cons.IH [OF link_publisher_steps(2) [OF q] ok(5) sweeps_index [OF handle_index [OF Cons.prems(3)]] two(1)]
    by simp
  moreover have "link_run p r (x # xs) = snd (handle_message_at r frame (lr_arrival x))
      @ snd (receiver_sweeps ?r1 (lr_sweeps x)) @ link_run (published ?q (lr_at x)) ?r2 xs"
    by (simp add: pub split_beta)
  moreover have "expected p (map_option gss_st_num prev) (x # xs) =
      event_of prev ?new # expected (published ?q (lr_at x)) (Some (gpub_st_num ?q)) xs"
    unfolding synced_event [OF Cons.prems(5)] by (cases prev) (simp_all add: Let_def)
  ultimately show ?case using one(2) two(2) by (simp del: link_run.simps(2) expected.simps(2))
qed simp

text \<open>
  C3. A publication reaches the application whole. Over any publications with or without changes of the data,
  with counters anywhere up to their wrap, the listener of a fresh subscriber whose filters match hears each
  frame exactly once and in order, with the published data and marked valid: a new state for the first frame
  and after every change, a retransmission otherwise. No expiry is raised as long as no sweep comes later than
  the interval after which the publisher sends again.
\<close>

theorem link_delivers_in_order:
  assumes "link_publisher p" and "rounds_ok p xs" and "subscriber_at (receiver_run ops) i = Some s"
    and "synced p None s"
  shows "events_of i (link_run p (receiver_run ops) xs) = expected p None xs"
  using link_heard [OF assms(1,2) receiver_run_index assms(3,4)] by simp

definition sample_rounds :: "link_round list" where
  "sample_rounds =
     [\<lparr>lr_change = False, lr_data = sample_values, lr_at = 0, lr_arrival = 1000, lr_sweeps = [2000000]\<rparr>,
      \<lparr>lr_change = False, lr_data = sample_values, lr_at = 4000000, lr_arrival = 4002000, lr_sweeps = []\<rparr>,
      \<lparr>lr_change = True, lr_data = [Boolean False], lr_at = 5000000, lr_arrival = 5001000, lr_sweeps = [9000000]\<rparr>]"

definition sample_builder :: subscriber_builder where
  "sample_builder = builder_listener (builder_gocb_ref builder_new ''LD/gcb'')"

lemma sample_link_publisher: "link_publisher sample_publisher"
proof -
  have "publisher_inv sample_publisher" by (rule publisher_new_inv [OF sample_publisher_new])
  moreover have "phase_interval ph retrans_default < from_millis (2 ^ 32)" for ph
    by (cases ph) (simp_all add: retrans_default_def)
  ultimately show ?thesis
    by (simp add: link_publisher_def sample_publisher_def goose_publisher_new_def Let_def references_ok_def
        goose_string_ok_def str_valid_def str_bytes_def GOOSE_STRING_MAX_LEN_def sample_comm_def with_src_mac_def
        comm_parameters_new_def vlan_ok_def vlan_tag_default_def)
qed

lemma sample_rounds_ok: "rounds_ok sample_publisher sample_rounds"
proof -
  have "gpub_phase sample_publisher = T1" "gpub_retrans_intervals sample_publisher = retrans_default"
    by (simp_all add: sample_publisher_def goose_publisher_new_def Let_def)
  then show ?thesis
    by (simp add: sample_rounds_def before_publish_def sample_values_def fits_def length_size_def next_interval_def
        retrans_default_def increase_st_num_def stamp_state_change_def published_def Let_def goose_bool_def
        split: option.split)
qed

theorem link_delivers_in_order_witness:
  "events_of 0 (link_run sample_publisher (receiver_run [AddSubscriber sample_builder]) sample_rounds) =
     expected sample_publisher None sample_rounds \<and> length (expected sample_publisher None sample_rounds) = 3"
proof -
  have s: "subscriber_at (receiver_run [AddSubscriber sample_builder]) 0 = Some (build sample_builder)"
    by (simp add: receiver_run_def receiver_new_def add_subscriber_def Let_def get_subscriber_def split: option.split)
  have "synced sample_publisher None (build sample_builder)"
    using build_inv [of sample_builder]
    by (simp add: synced_def matches_frame_def matches_gocb_ref_def build_def sample_builder_def builder_listener_def
        builder_gocb_ref_def builder_new_def sample_publisher_def goose_publisher_new_def Let_def)
  from link_delivers_in_order [OF sample_link_publisher sample_rounds_ok s this]
  show ?thesis by (simp add: sample_rounds_def Let_def del: link_run.simps)
qed

end
