(* ===== verification/Cotp_Tpdu.thy ===== *)
theory Cotp_Tpdu
  imports Prelude
begin

text \<open>
  The packets of the transport layer: the TPKT header of crates/iec61850-mms/src/iso/tpkt.rs, the class 0
  TPDUs of crates/iec61850-mms/src/iso/cotp.rs and the errors of both (\<open>CotpError\<close> of
  crates/iec61850-mms/src/error.rs, \<open>TransportError\<close> of crates/iec61850-hal/src/transport.rs). A
  \<open>TpduReader\<close> is the slice it has not read yet. A \<open>[u8; 4]\<close> is the type \<open>array4\<close>. The fields of
  \<open>TSelector\<close> are public, so a selector can claim more octets than it has; \<open>as_slice\<close> then panics, which
  is \<open>None\<close> here and in the encoders that call it.
\<close>

section \<open>Errors\<close>

datatype io_error_kind =
    NotFound | PermissionDenied | ConnectionRefused | ConnectionReset | HostUnreachable | NetworkUnreachable
  | ConnectionAborted | NotConnected | AddrInUse | AddrNotAvailable | NetworkDown | BrokenPipe | WouldBlock
  | InvalidInput | InvalidData | TimedOut | WriteZero | Interrupted | Unsupported | UnexpectedEofKind
  | OutOfMemory | OtherKind

datatype transport_error =
    TransportIo io_error_kind "string option"
  | TransportClosed io_error_kind
  | TransportTimeout

datatype cotp_error =
    InvalidTpktVersion u8 u8
  | TpktLengthTooSmall u16
  | TpktLengthOverflow u16 nat
  | LiOverflow u8 nat
  | UnsupportedProtocolClass u8
  | OptionLenOverflow nat nat
  | TSelectorTooLong nat
  | InvalidTpduSizeOption nat
  | InvalidDtLi u8
  | EmptyDtPayload
  | UnknownTpduType u8
  | DisconnectRequestError u8
  | ErrorTpdu
  | InvalidState string string
  | Io transport_error
  | UnexpectedEof
  | TsduTooLarge nat nat

fun cotp_error_from :: "transport_error \<Rightarrow> cotp_error" where
  "cotp_error_from (TransportClosed k) = UnexpectedEof"
| "cotp_error_from e = Io e"

section \<open>The TPKT header\<close>

definition TPKT_VERSION :: u8 where
  "TPKT_VERSION = 0x03"

definition TPKT_RESERVED :: u8 where
  "TPKT_RESERVED = 0x00"

definition TPKT_HEADER_LEN :: nat where
  "TPKT_HEADER_LEN = 4"

datatype tpkt_header = TpktHeader (packet_len: u16)

datatype array4 = Array4 u8 u8 u8 u8

fun bytes4 :: "array4 \<Rightarrow> bytes" where
  "bytes4 (Array4 a b c d) = [a, b, c, d]"

fun tpkt_decode :: "array4 \<Rightarrow> cotp_error + tpkt_header" where
  "tpkt_decode (Array4 b0 b1 b2 b3) =
     (if b0 \<noteq> TPKT_VERSION \<or> b1 \<noteq> TPKT_RESERVED then Inl (InvalidTpktVersion b0 b1)
      else let len = from_be [b2, b3] in
        if len \<le> 4 then Inl (TpktLengthTooSmall len) else Inr (TpktHeader len))"

definition tpkt_encode :: "tpkt_header \<Rightarrow> bytes" where
  "tpkt_encode h = [TPKT_VERSION, TPKT_RESERVED] @ u16_to_be (packet_len h)"

text \<open>The cast to \<open>u16\<close> wraps; the debug assertion on the total is a parameter of the build and holds for every TPDU.\<close>

definition tpkt_header_new :: "nat \<Rightarrow> tpkt_header" where
  "tpkt_header_new total_len = TpktHeader (of_nat total_len)"

definition cotp_len :: "tpkt_header \<Rightarrow> nat" where
  "cotp_len h = unat (packet_len h) - TPKT_HEADER_LEN"

section \<open>Constants of the transport protocol\<close>

definition COTP_MAX_BUFFER_SIZE :: nat where
  "COTP_MAX_BUFFER_SIZE = 8192 + TPKT_HEADER_LEN"

definition COTP_DATA_HEADER_SIZE :: nat where
  "COTP_DATA_HEADER_SIZE = 3"

definition COTP_MAX_TPDU_SIZE_ENCODED :: u8 where
  "COTP_MAX_TPDU_SIZE_ENCODED = 0x0D"

definition COTP_MIN_TPDU_SIZE_ENCODED :: u8 where
  "COTP_MIN_TPDU_SIZE_ENCODED = 0x07"

definition DEFAULT_MAX_PDU_SIZE :: u32 where
  "DEFAULT_MAX_PDU_SIZE = 65000"

definition DEFAULT_MAX_TSDU_SIZE :: nat where
  "DEFAULT_MAX_TSDU_SIZE = unat DEFAULT_MAX_PDU_SIZE + 8192"

definition TPDU_CR :: u8 where "TPDU_CR = 0xE0"
definition TPDU_CC :: u8 where "TPDU_CC = 0xD0"
definition TPDU_DT :: u8 where "TPDU_DT = 0xF0"
definition TPDU_DR :: u8 where "TPDU_DR = 0x80"
definition TPDU_DC :: u8 where "TPDU_DC = 0xC0"
definition TPDU_ER :: u8 where "TPDU_ER = 0x70"

definition OPT_TPDU_SIZE :: u8 where "OPT_TPDU_SIZE = 0xC0"
definition OPT_CALLING_TSAP :: u8 where "OPT_CALLING_TSAP = 0xC1"
definition OPT_CALLED_TSAP :: u8 where "OPT_CALLED_TSAP = 0xC2"
definition OPT_ADDITIONAL_OPT :: u8 where "OPT_ADDITIONAL_OPT = 0xC6"

lemmas tpdu_type_defs = TPDU_CR_def TPDU_CC_def TPDU_DT_def TPDU_DR_def TPDU_DC_def TPDU_ER_def

lemmas option_code_defs = OPT_TPDU_SIZE_def OPT_CALLING_TSAP_def OPT_CALLED_TSAP_def OPT_ADDITIONAL_OPT_def

section \<open>Selectors, sizes and options\<close>

record tselector =
  ts_size :: u8
  ts_value :: array4

definition tselector_default :: tselector where
  "tselector_default = \<lparr>ts_size = 0, ts_value = Array4 0 0 0 0\<rparr>"

text \<open>The array of four octets whose first ones are the given, the others 0.\<close>

definition array4_of :: "bytes \<Rightarrow> array4" where
  "array4_of bs =
     (let at = (\<lambda>i. if i < length bs then bs ! i else 0) in Array4 (at 0) (at 1) (at 2) (at 3))"

definition from_slice :: "bytes \<Rightarrow> cotp_error + tselector" where
  "from_slice d =
     (if length d > 4 then Inl (TSelectorTooLong (length d))
      else Inr \<lparr>ts_size = of_nat (length d), ts_value = array4_of d\<rparr>)"

definition as_slice :: "tselector \<Rightarrow> bytes option" where
  "as_slice t = (if unat (ts_size t) \<le> 4 then Some (take (unat (ts_size t)) (bytes4 (ts_value t))) else None)"

datatype tpdu_size = TpduSize (encoded: u8)

definition from_encoded :: "u8 \<Rightarrow> tpdu_size option" where
  "from_encoded enc =
     (if COTP_MIN_TPDU_SIZE_ENCODED \<le> enc \<and> enc \<le> COTP_MAX_TPDU_SIZE_ENCODED then Some (TpduSize enc) else None)"

definition tpdu_bytes :: "tpdu_size \<Rightarrow> u16" where
  "tpdu_bytes s = push_bit (unat (encoded s)) 1"

text \<open>The search of \<open>from_bytes\<close>: the encoded sizes from the largest down, until one does not exceed \<open>n\<close>.\<close>

definition tpdu_size_from_bytes :: "u16 \<Rightarrow> tpdu_size" where
  "tpdu_size_from_bytes n =
     (if n \<ge> 8192 then TpduSize COTP_MAX_TPDU_SIZE_ENCODED
      else case find (\<lambda>enc. push_bit (unat enc) (1 :: u16) \<le> n) (rev [7, 8, 9, 10, 11, 12, 13 :: u8]) of
        Some enc \<Rightarrow> TpduSize enc
      | None \<Rightarrow> TpduSize COTP_MIN_TPDU_SIZE_ENCODED)"

definition tpdu_size_min :: "tpdu_size \<Rightarrow> tpdu_size \<Rightarrow> tpdu_size" where
  "tpdu_size_min a b = (if tpdu_bytes a \<le> tpdu_bytes b then a else b)"

definition tpdu_size_default :: tpdu_size where
  "tpdu_size_default = TpduSize COTP_MAX_TPDU_SIZE_ENCODED"

record cotp_options =
  tsel_src :: tselector
  tsel_dst :: tselector
  tpdu_size :: tpdu_size

definition cotp_options_default :: cotp_options where
  "cotp_options_default =
     \<lparr>tsel_src = tselector_default, tsel_dst = tselector_default, tpdu_size = tpdu_size_default\<rparr>"

section \<open>The reader\<close>

definition read_byte :: "bytes \<Rightarrow> cotp_error + u8 \<times> bytes" where
  "read_byte r = (case r of [] \<Rightarrow> Inl UnexpectedEof | b # r' \<Rightarrow> Inr (b, r'))"

definition read_u16_be :: "bytes \<Rightarrow> cotp_error + u16 \<times> bytes" where
  "read_u16_be r =
     (case read_byte r of
        Inl e \<Rightarrow> Inl e
      | Inr (hi, r) \<Rightarrow>
          (case read_byte r of Inl e \<Rightarrow> Inl e | Inr (lo, r) \<Rightarrow> Inr (from_be [hi, lo], r)))"

definition read_bytes :: "bytes \<Rightarrow> nat \<Rightarrow> cotp_error + bytes \<times> bytes" where
  "read_bytes r n = (if n > length r then Inl UnexpectedEof else Inr (take n r, drop n r))"

section \<open>Option encoding and decoding\<close>

definition encode_tsap :: "u8 \<Rightarrow> tselector \<Rightarrow> bytes option" where
  "encode_tsap code t =
     (if ts_size t > 0 then map_option (\<lambda>s. [code, ts_size t] @ s) (as_slice t) else Some [])"

definition encode_options :: "cotp_options \<Rightarrow> bytes option" where
  "encode_options opts =
     (case encode_tsap OPT_CALLED_TSAP (tsel_dst opts) of
        None \<Rightarrow> None
      | Some called \<Rightarrow>
          (case encode_tsap OPT_CALLING_TSAP (tsel_src opts) of
             None \<Rightarrow> None
           | Some calling \<Rightarrow>
               Some ([OPT_TPDU_SIZE, 0x01, encoded (tpdu_size opts)] @ called @ calling)))"

definition clamped_size :: "u8 \<Rightarrow> tpdu_size" where
  "clamped_size enc =
     (case from_encoded enc of
        Some s \<Rightarrow> s
      | None \<Rightarrow> if enc > COTP_MAX_TPDU_SIZE_ENCODED then tpdu_size_default else TpduSize COTP_MIN_TPDU_SIZE_ENCODED)"

definition parse_option :: "u8 \<Rightarrow> bytes \<Rightarrow> cotp_options \<Rightarrow> cotp_error + cotp_options" where
  "parse_option opt_type opt_data opts =
     (let opt_len = length opt_data in
      if opt_type = OPT_TPDU_SIZE then
        (if opt_len \<noteq> 1 then Inl (InvalidTpduSizeOption opt_len)
         else Inr (opts\<lparr>tpdu_size := clamped_size (opt_data ! 0)\<rparr>))
      else if opt_type = OPT_CALLING_TSAP then
        (if opt_len \<ge> 5 then Inl (TSelectorTooLong opt_len)
         else case from_slice opt_data of Inl e \<Rightarrow> Inl e | Inr t \<Rightarrow> Inr (opts\<lparr>tsel_src := t\<rparr>))
      else if opt_type = OPT_CALLED_TSAP then
        (if opt_len \<ge> 5 then Inl (TSelectorTooLong opt_len)
         else case from_slice opt_data of Inl e \<Rightarrow> Inl e | Inr t \<Rightarrow> Inr (opts\<lparr>tsel_dst := t\<rparr>))
      else Inr opts)"

function parse_options_loop :: "bytes \<Rightarrow> cotp_options \<Rightarrow> cotp_error + cotp_options" where
  "parse_options_loop r opts =
     (if r = [] then Inr opts
      else case read_byte r of
        Inl e \<Rightarrow> Inl e
      | Inr (opt_type, r1) \<Rightarrow>
          (case read_byte r1 of
             Inl e \<Rightarrow> Inl e
           | Inr (len, r2) \<Rightarrow>
               if unat len > length r2 then Inl (OptionLenOverflow (unat len) (length r2))
               else case read_bytes r2 (unat len) of
                 Inl e \<Rightarrow> Inl e
               | Inr (opt_data, r3) \<Rightarrow>
                   (case parse_option opt_type opt_data opts of
                      Inl e \<Rightarrow> Inl e
                    | Inr opts' \<Rightarrow> parse_options_loop r3 opts')))"
  by pat_completeness auto

termination parse_options_loop
  by (relation "measure (\<lambda>(r, opts). length r)")
    (auto simp: read_byte_def read_bytes_def split: list.splits if_splits)

definition parse_options :: "bytes \<Rightarrow> cotp_error + cotp_options" where
  "parse_options buf =
     parse_options_loop buf (cotp_options_default\<lparr>tpdu_size := TpduSize COTP_MIN_TPDU_SIZE_ENCODED\<rparr>)"

section \<open>TPDU encoders\<close>

definition encode_cr :: "cotp_options \<Rightarrow> u16 \<Rightarrow> bytes option" where
  "encode_cr options local_ref =
     (case encode_options options of
        None \<Rightarrow> None
      | Some var_part \<Rightarrow>
          Some ([of_nat (6 + length var_part), TPDU_CR] @ u16_to_be 0 @ u16_to_be local_ref @ [0x00] @ var_part))"

definition encode_cc :: "cotp_options \<Rightarrow> u16 \<Rightarrow> u16 \<Rightarrow> bytes option" where
  "encode_cc options local_ref dst_ref =
     (case encode_options options of
        None \<Rightarrow> None
      | Some var_part \<Rightarrow>
          Some ([of_nat (6 + length var_part), TPDU_CC] @ u16_to_be dst_ref @ u16_to_be local_ref @ [0x00] @ var_part))"

definition encode_dt :: "bytes \<Rightarrow> bool \<Rightarrow> bytes" where
  "encode_dt payload is_last = [0x02, TPDU_DT, if is_last then 0x80 else 0x00] @ payload"

definition encode_dr :: "u16 \<Rightarrow> u16 \<Rightarrow> bytes" where
  "encode_dr local_ref dst_ref = [0x06, TPDU_DR] @ u16_to_be dst_ref @ u16_to_be local_ref @ [0x00]"

definition encode_dc :: "u16 \<Rightarrow> u16 \<Rightarrow> bytes" where
  "encode_dc local_ref dst_ref = [0x05, TPDU_DC] @ u16_to_be dst_ref @ u16_to_be local_ref"

section \<open>TPDU decoders\<close>

text \<open>
  The CR and the CC have one layout: \<open>parse_cr\<close> and \<open>parse_cc\<close> differ in the type octet they expect and in
  what they return of the options. \<open>parse_head\<close> is the length indicator and the type octet that these and
  \<open>parse_dr\<close> and \<open>parse_dc\<close> begin with.
\<close>

definition parse_head :: "u8 \<Rightarrow> bytes \<Rightarrow> cotp_error + u8 \<times> bytes" where
  "parse_head expected buf =
     (case read_byte buf of
        Inl e \<Rightarrow> Inl e
      | Inr (li, r) \<Rightarrow>
          if unat li > length r then Inl (LiOverflow li (length r))
          else case read_byte r of
            Inl e \<Rightarrow> Inl e
          | Inr (tpdu_type, r) \<Rightarrow>
              if tpdu_type \<noteq> expected then Inl (UnknownTpduType tpdu_type) else Inr (li, r))"

definition parse_connect :: "u8 \<Rightarrow> bytes \<Rightarrow> cotp_error + u16 \<times> cotp_options" where
  "parse_connect expected buf =
     (case parse_head expected buf of
        Inl e \<Rightarrow> Inl e
      | Inr (li, r) \<Rightarrow>
     (case read_u16_be r of
        Inl e \<Rightarrow> Inl e
      | Inr (dst_ref, r) \<Rightarrow>
     (case read_u16_be r of
        Inl e \<Rightarrow> Inl e
      | Inr (src_ref, r) \<Rightarrow>
     (case read_byte r of
        Inl e \<Rightarrow> Inl e
      | Inr (class, r) \<Rightarrow>
          if class AND 0xF0 \<noteq> 0x00 then Inl (UnsupportedProtocolClass class)
          else case read_bytes r (unat li - 6) of
            Inl e \<Rightarrow> Inl e
          | Inr (var_data, r) \<Rightarrow>
              (case parse_options var_data of Inl e \<Rightarrow> Inl e | Inr opts \<Rightarrow> Inr (src_ref, opts))))))"

definition parse_cr :: "bytes \<Rightarrow> cotp_error + u16 \<times> cotp_options" where
  "parse_cr buf = parse_connect TPDU_CR buf"

definition parse_cc :: "bytes \<Rightarrow> cotp_error + u16 \<times> tpdu_size" where
  "parse_cc buf =
     (case parse_connect TPDU_CC buf of Inl e \<Rightarrow> Inl e | Inr (src_ref, opts) \<Rightarrow> Inr (src_ref, tpdu_size opts))"

definition parse_dt :: "bytes \<Rightarrow> cotp_error + bytes \<times> bool" where
  "parse_dt buf =
     (case read_byte buf of
        Inl e \<Rightarrow> Inl e
      | Inr (li, r) \<Rightarrow>
          if li \<noteq> 2 then Inl (InvalidDtLi li)
          else case read_byte r of
            Inl e \<Rightarrow> Inl e
          | Inr (tpdu_type, r) \<Rightarrow>
              if tpdu_type \<noteq> TPDU_DT then Inl (UnknownTpduType tpdu_type)
              else case read_byte r of
                Inl e \<Rightarrow> Inl e
              | Inr (nr, payload) \<Rightarrow>
                  if payload = [] then Inl EmptyDtPayload else Inr (payload, nr AND 0x80 \<noteq> 0))"

definition parse_dr :: "bytes \<Rightarrow> cotp_error + u8" where
  "parse_dr buf =
     (case parse_head TPDU_DR buf of
        Inl e \<Rightarrow> Inl e
      | Inr (li, r) \<Rightarrow>
     (case read_u16_be r of
        Inl e \<Rightarrow> Inl e
      | Inr (dst_ref, r) \<Rightarrow>
     (case read_u16_be r of
        Inl e \<Rightarrow> Inl e
      | Inr (src_ref, r) \<Rightarrow>
     (case read_byte r of Inl e \<Rightarrow> Inl e | Inr (reason, r) \<Rightarrow> Inr reason))))"

definition parse_dc :: "bytes \<Rightarrow> cotp_error + unit" where
  "parse_dc buf = (case parse_head TPDU_DC buf of Inl e \<Rightarrow> Inl e | Inr (li, r) \<Rightarrow> Inr ())"

datatype cotp_pdu =
    ConnectRequest u16 cotp_options
  | ConnectConfirm u16 tpdu_size
  | DataTpdu bytes bool
  | DisconnectRequest u8
  | DisconnectConfirm
  | ErrorPdu

text \<open>The options summary of a \<open>ConnectRequest\<close> has the three fields of the options.\<close>

definition parse_cotp_pdu :: "bytes \<Rightarrow> cotp_error + cotp_pdu" where
  "parse_cotp_pdu buf =
     (if length buf < 2 then Inl UnexpectedEof
      else let tpdu_type = buf ! 1 in
        if tpdu_type = TPDU_CR then
          (case parse_cr buf of Inl e \<Rightarrow> Inl e | Inr (src_ref, opts) \<Rightarrow> Inr (ConnectRequest src_ref opts))
        else if tpdu_type = TPDU_CC then
          (case parse_cc buf of Inl e \<Rightarrow> Inl e | Inr (remote_ref, sz) \<Rightarrow> Inr (ConnectConfirm remote_ref sz))
        else if tpdu_type = TPDU_DT then
          (case parse_dt buf of Inl e \<Rightarrow> Inl e | Inr (payload, is_last) \<Rightarrow> Inr (DataTpdu payload is_last))
        else if tpdu_type = TPDU_DR then
          (case parse_dr buf of Inl e \<Rightarrow> Inl e | Inr reason \<Rightarrow> Inr (DisconnectRequest reason))
        else if tpdu_type = TPDU_DC then
          (case parse_dc buf of Inl e \<Rightarrow> Inl e | Inr u \<Rightarrow> Inr DisconnectConfirm)
        else if tpdu_type = TPDU_ER then Inr ErrorPdu
        else Inl (UnknownTpduType tpdu_type))"

section \<open>Well-formed options\<close>

text \<open>
  The encoded value of a \<open>TpduSize\<close> is private: every constructor keeps it in range. A selector that
  \<open>from_slice\<close> built has zeros behind its significant octets.
\<close>

definition tpdu_size_ok :: "tpdu_size \<Rightarrow> bool" where
  "tpdu_size_ok s \<longleftrightarrow> COTP_MIN_TPDU_SIZE_ENCODED \<le> encoded s \<and> encoded s \<le> COTP_MAX_TPDU_SIZE_ENCODED"

definition tselector_ok :: "tselector \<Rightarrow> bool" where
  "tselector_ok t \<longleftrightarrow>
     unat (ts_size t) \<le> 4 \<and> ts_value t = array4_of (take (unat (ts_size t)) (bytes4 (ts_value t)))"

definition options_ok :: "cotp_options \<Rightarrow> bool" where
  "options_ok opts \<longleftrightarrow>
     tselector_ok (tsel_src opts) \<and> tselector_ok (tsel_dst opts) \<and> tpdu_size_ok (tpdu_size opts)"

lemmas size_bound_defs = COTP_MIN_TPDU_SIZE_ENCODED_def COTP_MAX_TPDU_SIZE_ENCODED_def

lemma length_bytes4 [simp]: "length (bytes4 a) = 4"
  by (cases a) simp

lemma encoded_cases:
  assumes "tpdu_size_ok s"
  shows "encoded s \<in> {7, 8, 9, 10, 11, 12, 13}"
proof -
  have "unat (encoded s) \<in> {7 ..< 14}"
    using assms by (simp add: tpdu_size_ok_def size_bound_defs word_le_nat_alt)
  then have "unat (encoded s) = 7 \<or> unat (encoded s) = 8 \<or> unat (encoded s) = 9 \<or> unat (encoded s) = 10 \<or>
      unat (encoded s) = 11 \<or> unat (encoded s) = 12 \<or> unat (encoded s) = 13"
    by (simp, arith)
  then show ?thesis by (auto simp: word_unat_eq_iff)
qed

lemma unat_tpdu_bytes: "tpdu_size_ok s \<Longrightarrow> unat (tpdu_bytes s) = 2 ^ unat (encoded s)"
  using encoded_cases [of s] by (auto simp: tpdu_bytes_def push_bit_eq_mult)

lemma tpdu_bytes_bounds:
  assumes "tpdu_size_ok s"
  shows "128 \<le> unat (tpdu_bytes s)" "unat (tpdu_bytes s) \<le> 8192"
  using encoded_cases [OF assms] by (auto simp: unat_tpdu_bytes [OF assms])

lemma sizes_ok [simp]:
  "tpdu_size_ok tpdu_size_default" "tpdu_size_ok (TpduSize COTP_MIN_TPDU_SIZE_ENCODED)"
  "tpdu_size_ok (clamped_size enc)" "from_encoded enc = Some s \<Longrightarrow> tpdu_size_ok s"
  "tpdu_size_ok a \<Longrightarrow> tpdu_size_ok b \<Longrightarrow> tpdu_size_ok (tpdu_size_min a b)"
  by (auto simp: tpdu_size_ok_def tpdu_size_default_def clamped_size_def from_encoded_def tpdu_size_min_def
      size_bound_defs split: if_splits)

lemma tpdu_size_from_bytes_ok [simp]: "tpdu_size_ok (tpdu_size_from_bytes n)"
  by (auto simp: tpdu_size_from_bytes_def tpdu_size_ok_def size_bound_defs split: option.splits if_splits)

lemma clamped_size_id: "tpdu_size_ok s \<Longrightarrow> clamped_size (encoded s) = s"
  by (simp add: clamped_size_def from_encoded_def tpdu_size_ok_def)

lemma tpdu_size_min_self: "tpdu_size_min a (tpdu_size_min b a) = tpdu_size_min b a \<or> tpdu_bytes a = tpdu_bytes b"
  by (auto simp: tpdu_size_min_def)

lemma tpdu_bytes_inject:
  assumes "tpdu_size_ok a" "tpdu_size_ok b"
  shows "tpdu_bytes a = tpdu_bytes b \<longleftrightarrow> a = b"
proof
  assume "tpdu_bytes a = tpdu_bytes b"
  then have "(2::nat) ^ unat (encoded a) = 2 ^ unat (encoded b)"
    using unat_tpdu_bytes [OF assms(1)] unat_tpdu_bytes [OF assms(2)] by simp
  then have "encoded a = encoded b" by (simp add: word_unat_eq_iff)
  then show "a = b" by (rule tpdu_size.expand)
qed simp

lemma from_slice_ok: "from_slice d = Inr t \<Longrightarrow> tselector_ok t"
  by (cases d rule: list.exhaust; cases "tl d"; cases "tl (tl d)"; cases "tl (tl (tl d))")
    (auto simp: from_slice_def tselector_ok_def array4_of_def Let_def split: if_splits)

lemma tselector_default_ok [simp]: "tselector_ok tselector_default"
  by (simp add: tselector_ok_def tselector_default_def array4_of_def)

lemma from_slice_as_slice:
  assumes "tselector_ok t" "as_slice t = Some s"
  shows "from_slice s = Inr t" "length s = unat (ts_size t)" "length s \<le> 4"
proof -
  have s: "s = take (unat (ts_size t)) (bytes4 (ts_value t))" and n: "unat (ts_size t) \<le> 4"
    using assms by (auto simp: as_slice_def split: if_splits)
  then show len: "length s = unat (ts_size t)" and le: "length s \<le> 4" by simp_all
  have "of_nat (length s) = ts_size t" using len by simp
  moreover have "ts_value t = array4_of s" using assms(1) s by (simp add: tselector_ok_def)
  ultimately show "from_slice s = Inr t" using le by (simp add: from_slice_def)
qed

section \<open>Round trips\<close>

lemma reader_simps [simp]:
  "read_byte (b # r) = Inr (b, r)" "read_byte [] = Inl UnexpectedEof"
  "read_bytes (xs @ r) (length xs) = Inr (xs, r)" "read_bytes xs (length xs) = Inr (xs, [])"
  by (simp_all add: read_byte_def read_bytes_def)

lemma u16_to_be_pair: "\<exists>a b. u16_to_be w = [a, b] \<and> from_be [a, b] = w"
  using from_be_u16_to_be [of w] unfolding u16_to_be_def be_of_nat_2 by blast

lemma read_u16_be_append [simp]: "read_u16_be (u16_to_be w @ r) = Inr (w, r)"
  using u16_to_be_pair [of w] by (auto simp: read_u16_be_def)

lemma read_u16_be_self [simp]: "read_u16_be (u16_to_be w) = Inr (w, [])"
  using read_u16_be_append [of w "[]"] by (simp del: read_u16_be_append)

declare parse_options_loop.simps [simp del]

lemma parse_options_loop_Nil [simp]: "parse_options_loop [] opts = Inr opts"
  by (simp add: parse_options_loop.simps)

lemma parse_options_loop_step:
  assumes "unat len = length d" "parse_option code d opts = Inr opts'"
  shows "parse_options_loop (code # len # d @ r) opts = parse_options_loop r opts'"
  by (subst parse_options_loop.simps) (simp add: assms(1) assms(2))

lemma parse_tsap:
  assumes "tselector_ok t" "encode_tsap code t = Some bs"
    and "code = OPT_CALLING_TSAP \<and> upd = (\<lambda>opts. opts\<lparr>tsel_src := t\<rparr>) \<and> tsel_src opts = tselector_default \<or>
      code = OPT_CALLED_TSAP \<and> upd = (\<lambda>opts. opts\<lparr>tsel_dst := t\<rparr>) \<and> tsel_dst opts = tselector_default"
  shows "parse_options_loop (bs @ r) opts = parse_options_loop r (upd opts)"
proof (cases "ts_size t > 0")
  case True
  then obtain s where bs: "bs = code # ts_size t # s" and s: "as_slice t = Some s"
    using assms(2) by (auto simp: encode_tsap_def)
  note s' = from_slice_as_slice [OF assms(1) s]
  have "parse_option code s opts = Inr (upd opts)"
    using assms(3) s' by (auto simp: parse_option_def Let_def option_code_defs)
  then show ?thesis using parse_options_loop_step [of "ts_size t" s code opts "upd opts" r] s'(2) bs by simp
next
  case False
  then have size0: "ts_size t = 0" by (simp add: word_neq_0_conv [symmetric] del: word_neq_0_conv)
  then have "t = tselector_default"
    using assms(1) by (cases t) (simp add: tselector_ok_def tselector_default_def array4_of_def)
  then have "upd opts = opts" using assms(3) by (cases opts) auto
  then show ?thesis using assms(2) size0 by (simp add: encode_tsap_def)
qed

lemma encode_tsap_Some:
  assumes "tselector_ok t"
  shows "\<exists>bs. encode_tsap code t = Some bs \<and> length bs \<le> 6"
proof (cases "ts_size t > 0")
  case True
  have "as_slice t = Some (take (unat (ts_size t)) (bytes4 (ts_value t)))"
    using assms by (simp add: as_slice_def tselector_ok_def)
  then show ?thesis using True assms by (simp add: encode_tsap_def tselector_ok_def)
qed (simp add: encode_tsap_def)

lemma encode_options_Some:
  assumes "options_ok opts"
  shows "\<exists>v. encode_options opts = Some v \<and> length v \<le> 15 \<and> parse_options v = Inr opts"
proof -
  obtain called where called: "encode_tsap OPT_CALLED_TSAP (tsel_dst opts) = Some called" "length called \<le> 6"
    using encode_tsap_Some assms unfolding options_ok_def by blast
  obtain calling where calling: "encode_tsap OPT_CALLING_TSAP (tsel_src opts) = Some calling" "length calling \<le> 6"
    using encode_tsap_Some assms unfolding options_ok_def by blast
  let ?v = "[OPT_TPDU_SIZE, 0x01, encoded (tpdu_size opts)] @ called @ calling"
  let ?o1 = "cotp_options_default\<lparr>tpdu_size := tpdu_size opts\<rparr>"
  let ?o2 = "?o1\<lparr>tsel_dst := tsel_dst opts\<rparr>"
  have "parse_options ?v = parse_options_loop (called @ calling) ?o1"
    unfolding parse_options_def
    using parse_options_loop_step [of 1 "[encoded (tpdu_size opts)]" OPT_TPDU_SIZE
        "cotp_options_default\<lparr>tpdu_size := TpduSize COTP_MIN_TPDU_SIZE_ENCODED\<rparr>" ?o1 "called @ calling"]
      assms by (simp add: parse_option_def clamped_size_id options_ok_def)
  also have "\<dots> = parse_options_loop calling ?o2"
    using assms called(1)
    by (intro parse_tsap) (auto simp: options_ok_def cotp_options_default_def)
  also have "\<dots> = Inr (?o2\<lparr>tsel_src := tsel_src opts\<rparr>)"
    using parse_tsap [of "tsel_src opts" OPT_CALLING_TSAP calling "\<lambda>o2. o2\<lparr>tsel_src := tsel_src opts\<rparr>" ?o2 "[]"] assms calling(1)
    by (simp add: options_ok_def cotp_options_default_def)
  also have "?o2\<lparr>tsel_src := tsel_src opts\<rparr> = opts" by (cases opts) (simp add: cotp_options_default_def)
  finally show ?thesis using called calling by (simp add: encode_options_def)
qed

text \<open>What both parsers of a connection TPDU read from the octets the encoders write.\<close>

lemma parse_connect_encoded:
  assumes "length v \<le> 15" "parse_options v = Inr opts"
  shows "parse_connect code ([of_nat (6 + length v), code] @ u16_to_be d @ u16_to_be s @ [0x00] @ v) = Inr (s, opts)"
proof -
  have li: "unat (of_nat (6 + length v) :: u8) = 6 + length v"
    using assms(1) by (simp add: unat_of_nat_u8 del: of_nat_add)
  show ?thesis unfolding parse_connect_def parse_head_def using li assms by (simp del: of_nat_add)
qed

lemma cr_roundtrip:
  assumes "options_ok opts"
  shows "\<exists>p. encode_cr opts s = Some p \<and> 7 \<le> length p \<and> length p \<le> 22 \<and> parse_cr p = Inr (s, opts)"
proof -
  obtain v where v: "encode_options opts = Some v" "length v \<le> 15" "parse_options v = Inr opts"
    using encode_options_Some [OF assms] by blast
  then show ?thesis
    using parse_connect_encoded [of v opts TPDU_CR 0 s] by (simp add: encode_cr_def parse_cr_def)
qed

lemma cc_roundtrip:
  assumes "options_ok opts"
  shows "\<exists>p. encode_cc opts s d = Some p \<and> 7 \<le> length p \<and> length p \<le> 22 \<and> parse_cc p = Inr (s, tpdu_size opts)"
proof -
  obtain v where v: "encode_options opts = Some v" "length v \<le> 15" "parse_options v = Inr opts"
    using encode_options_Some [OF assms] by blast
  then show ?thesis
    using parse_connect_encoded [of v opts TPDU_CC d s] by (simp add: encode_cc_def parse_cc_def)
qed

lemma dt_roundtrip: "payload \<noteq> [] \<Longrightarrow> parse_dt (encode_dt payload is_last) = Inr (payload, is_last)"
  by (simp add: parse_dt_def encode_dt_def)

lemma dr_roundtrip: "parse_dr (encode_dr l d) = Inr 0"
  by (simp add: parse_dr_def encode_dr_def parse_head_def)

lemma dc_roundtrip: "parse_dc (encode_dc l d) = Inr ()"
  by (simp add: parse_dc_def encode_dc_def parse_head_def)

end
