(* ===== verification/Cotp_Connection.thy ===== *)
theory Cotp_Connection
  imports Cotp_Tpdu
begin

text \<open>
  The connection of crates/iec61850-mms/src/iso/cotp.rs over a byte stream. The stream is not part of the
  crate: it is given by what its calls return. \<open>t_in\<close> lists what the coming reads find: octets that have
  arrived (a read takes at most as many as it asks for, an empty piece is the end of the stream), a moment
  without octets, or a failure. \<open>t_writes\<close> lists the outcomes of the coming writes, which succeed when the
  list is used up, and \<open>t_out\<close> is what was written.

  A call that finds no octets is \<open>Pending\<close>. Awaiting it further and dropping it to call again later are the
  same here, since the call leaves everything it has read in the connection; this is the cancel safety the
  code claims, and the state a \<open>Pending\<close> call returns is the one a dropped future leaves behind. Writes are
  awaited to their end. \<open>Panic\<close> is the out-of-range slice of \<open>as_slice\<close>.

  The buffers: \<open>ReadingHeader\<close> and \<open>ReadingBody\<close> carry the octets read so far, the first \<open>have\<close> octets of
  \<open>buf\<close> and of \<open>read_buf\<close>; the zeros behind them are never looked at.
\<close>

section \<open>The byte stream\<close>

datatype arrival = Octets bytes | Quiet | ReadFails transport_error

datatype write_end = Written | WriteFails nat transport_error

record transport =
  t_in :: "arrival list"
  t_out :: bytes
  t_writes :: "write_end list"

datatype read_result = ReadPending | ReadOk bytes | ReadErr transport_error

text \<open>A read into a buffer of \<open>want\<close> octets.\<close>

fun stream_read :: "nat \<Rightarrow> arrival list \<Rightarrow> read_result \<times> arrival list" where
  "stream_read want [] = (ReadPending, [])"
| "stream_read want (Quiet # arr) = (ReadPending, arr)"
| "stream_read want (ReadFails e # arr) = (ReadErr e, arr)"
| "stream_read want (Octets bs # arr) =
     (if length bs \<le> want then (ReadOk bs, arr) else (ReadOk (take want bs), Octets (drop want bs) # arr))"

definition write_all :: "transport \<Rightarrow> bytes \<Rightarrow> transport \<times> (transport_error + unit)" where
  "write_all t buf =
     (case t_writes t of
        [] \<Rightarrow> (t\<lparr>t_out := t_out t @ buf\<rparr>, Inr ())
      | Written # ws \<Rightarrow> (t\<lparr>t_out := t_out t @ buf, t_writes := ws\<rparr>, Inr ())
      | WriteFails n e # ws \<Rightarrow> (t\<lparr>t_out := t_out t @ take n buf, t_writes := ws\<rparr>, Inl e))"

text \<open>What a stream still holds: a bound on the reads before it is used up.\<close>

fun arrival_weight :: "arrival \<Rightarrow> nat" where
  "arrival_weight (Octets bs) = Suc (length bs)"
| "arrival_weight a = 1"

definition stream_weight :: "arrival list \<Rightarrow> nat" where
  "stream_weight arr = sum_list (map arrival_weight arr)"

lemma stream_weight_simps [simp]:
  "stream_weight [] = 0" "stream_weight (a # arr) = arrival_weight a + stream_weight arr"
  by (simp_all add: stream_weight_def)

lemma stream_read_weight:
  "stream_read want arr = (r, arr') \<Longrightarrow> 0 < want \<Longrightarrow> arr \<noteq> [] \<Longrightarrow> stream_weight arr' < stream_weight arr"
  by (induction want arr rule: stream_read.induct) (auto split: if_splits)

lemma stream_read_ok_weight:
  "stream_read want arr = (ReadOk bs, arr') \<Longrightarrow> 0 < want \<Longrightarrow> stream_weight arr' < stream_weight arr"
  using stream_read_weight [of want arr] by (cases "arr = []") auto

section \<open>The connection\<close>

datatype cotp_state = Closed | ConnectSent | Connected | Closing

fun cotp_state_text :: "cotp_state \<Rightarrow> string" where
  "cotp_state_text Closed = ''Closed''"
| "cotp_state_text ConnectSent = ''ConnectSent''"
| "cotp_state_text Connected = ''Connected''"
| "cotp_state_text Closing = ''Closing''"

datatype read_state = Idle | ReadingHeader bytes | ReadingBody tpkt_header bytes

record cotp_connection =
  stream :: transport
  state :: cotp_state
  options :: cotp_options
  local_ref :: u16
  remote_ref :: u16
  payload_buf :: bytes
  read_state :: read_state
  max_tsdu_size :: "nat option"

datatype 'a poll = Pending | Ready "cotp_error + 'a" | Panic

definition cotp_connection_new :: "transport \<Rightarrow> cotp_options \<Rightarrow> cotp_connection" where
  "cotp_connection_new s opts =
     \<lparr>stream = s, state = Closed, options = opts, local_ref = 1, remote_ref = 0, payload_buf = [],
      read_state = Idle, max_tsdu_size = Some DEFAULT_MAX_TSDU_SIZE\<rparr>"

definition set_max_tsdu_size :: "cotp_connection \<Rightarrow> nat option \<Rightarrow> cotp_connection" where
  "set_max_tsdu_size c limit = c\<lparr>max_tsdu_size := limit\<rparr>"

section \<open>Low-level input and output\<close>

definition array4_at :: "bytes \<Rightarrow> array4" where
  "array4_at bs = Array4 (bs ! 0) (bs ! 1) (bs ! 2) (bs ! 3)"

function read_tpkt_loop ::
    "read_state \<Rightarrow> arrival list \<Rightarrow> read_state \<times> arrival list \<times> bytes poll" where
  "read_tpkt_loop Idle arr = read_tpkt_loop (ReadingHeader []) arr"
| "read_tpkt_loop (ReadingHeader buf) arr =
     (if length buf < 4 then
        (case stream_read (4 - length buf) arr of
           (ReadPending, arr') \<Rightarrow> (ReadingHeader buf, arr', Pending)
         | (ReadErr e, arr') \<Rightarrow> (ReadingHeader buf, arr', Ready (Inl (cotp_error_from e)))
         | (ReadOk bs, arr') \<Rightarrow>
             if bs = [] then (ReadingHeader buf, arr', Ready (Inl UnexpectedEof))
             else read_tpkt_loop (ReadingHeader (buf @ bs)) arr')
      else case tpkt_decode (array4_at buf) of
        Inl e \<Rightarrow> (ReadingHeader buf, arr, Ready (Inl e))
      | Inr hdr \<Rightarrow>
          if unat (packet_len hdr) > COTP_MAX_BUFFER_SIZE then
            (Idle, arr, Ready (Inl (TpktLengthOverflow (packet_len hdr) COTP_MAX_BUFFER_SIZE)))
          else read_tpkt_loop (ReadingBody hdr []) arr)"
| "read_tpkt_loop (ReadingBody hdr have) arr =
     (if length have < cotp_len hdr then
        (case stream_read (cotp_len hdr - length have) arr of
           (ReadPending, arr') \<Rightarrow> (ReadingBody hdr have, arr', Pending)
         | (ReadErr e, arr') \<Rightarrow> (ReadingBody hdr have, arr', Ready (Inl (cotp_error_from e)))
         | (ReadOk bs, arr') \<Rightarrow>
             if bs = [] then (ReadingBody hdr have, arr', Ready (Inl UnexpectedEof))
             else read_tpkt_loop (ReadingBody hdr (have @ bs)) arr')
      else (Idle, arr, Ready (Inr (take (cotp_len hdr) have))))"
  by pat_completeness auto

fun read_phase :: "read_state \<Rightarrow> nat" where
  "read_phase Idle = 2"
| "read_phase (ReadingHeader buf) = 1"
| "read_phase (ReadingBody hdr have) = 0"

termination read_tpkt_loop
  by (relation "measures [\<lambda>(rs, arr). stream_weight arr, \<lambda>(rs, arr). read_phase rs]")
    (auto dest!: sym [of "(_, _)"] stream_read_ok_weight)

definition read_tpkt :: "cotp_connection \<Rightarrow> cotp_connection \<times> bytes poll" where
  "read_tpkt c =
     (let rs0 = (if read_state c = Idle then ReadingHeader [] else read_state c);
          (rs, arr, r) = read_tpkt_loop rs0 (t_in (stream c))
      in (c\<lparr>read_state := rs, stream := (stream c)\<lparr>t_in := arr\<rparr>\<rparr>, r))"

definition write_tpkt :: "cotp_connection \<Rightarrow> bytes \<Rightarrow> cotp_connection \<times> (cotp_error + unit)" where
  "write_tpkt c cotp_pdu =
     (let total_len = TPKT_HEADER_LEN + length cotp_pdu;
          buf = tpkt_encode (tpkt_header_new total_len) @ cotp_pdu
      in case write_all (stream c) buf of
           (s, Inl e) \<Rightarrow> (c\<lparr>stream := s\<rparr>, Inl (cotp_error_from e))
         | (s, Inr u) \<Rightarrow> (c\<lparr>stream := s\<rparr>, Inr ()))"

section \<open>Establishing a connection\<close>

definition send_cr :: "cotp_connection \<Rightarrow> cotp_connection \<times> unit poll" where
  "send_cr c =
     (if state c \<noteq> Closed then (c, Ready (Inl (InvalidState (cotp_state_text (state c)) ''send_cr'')))
      else case encode_cr (options c) (local_ref c) of
        None \<Rightarrow> (c, Panic)
      | Some pdu \<Rightarrow>
          (case write_tpkt c pdu of
             (c, Inl e) \<Rightarrow> (c, Ready (Inl e))
           | (c, Inr u) \<Rightarrow> (c\<lparr>state := ConnectSent\<rparr>, Ready (Inr ()))))"

definition recv_cc :: "cotp_connection \<Rightarrow> cotp_connection \<times> unit poll" where
  "recv_cc c =
     (if state c \<noteq> ConnectSent then (c, Ready (Inl (InvalidState (cotp_state_text (state c)) ''recv_cc'')))
      else case read_tpkt c of
        (c, Pending) \<Rightarrow> (c, Pending)
      | (c, Panic) \<Rightarrow> (c, Panic)
      | (c, Ready (Inl e)) \<Rightarrow> (c, Ready (Inl e))
      | (c, Ready (Inr raw)) \<Rightarrow>
          (case parse_cc raw of
             Inl e \<Rightarrow> (c, Ready (Inl e))
           | Inr (remote, remote_tpdu_size) \<Rightarrow>
               (c\<lparr>remote_ref := remote,
                  options := (options c)\<lparr>tpdu_size := tpdu_size_min (tpdu_size (options c)) remote_tpdu_size\<rparr>,
                  state := Connected\<rparr>,
                Ready (Inr ()))))"

definition connect :: "transport \<Rightarrow> cotp_options \<Rightarrow> cotp_connection \<times> unit poll" where
  "connect s opts =
     (case send_cr (cotp_connection_new s opts) of
        (c, Ready (Inr u)) \<Rightarrow> recv_cc c
      | (c, r) \<Rightarrow> (c, r))"

definition recv_cr_and_send_cc :: "cotp_connection \<Rightarrow> cotp_connection \<times> unit poll" where
  "recv_cr_and_send_cc c =
     (case read_tpkt c of
        (c, Pending) \<Rightarrow> (c, Pending)
      | (c, Panic) \<Rightarrow> (c, Panic)
      | (c, Ready (Inl e)) \<Rightarrow> (c, Ready (Inl e))
      | (c, Ready (Inr raw)) \<Rightarrow>
          (case parse_cr raw of
             Inl e \<Rightarrow> (c, Ready (Inl e))
           | Inr (src_ref, remote_opts) \<Rightarrow>
               (let c = c\<lparr>remote_ref := src_ref,
                          options := (options c)\<lparr>tpdu_size := tpdu_size_min (tpdu_size (options c)) (tpdu_size remote_opts),
                                                tsel_dst := tsel_src remote_opts\<rparr>\<rparr>
                in case encode_cc (options c) (local_ref c) (remote_ref c) of
                     None \<Rightarrow> (c, Panic)
                   | Some cc_pdu \<Rightarrow>
                       (case write_tpkt c cc_pdu of
                          (c, Inl e) \<Rightarrow> (c, Ready (Inl e))
                        | (c, Inr u) \<Rightarrow> (c\<lparr>state := Connected\<rparr>, Ready (Inr ()))))))"

definition accept :: "transport \<Rightarrow> cotp_options \<Rightarrow> cotp_connection \<times> unit poll" where
  "accept s local_options = recv_cr_and_send_cc (cotp_connection_new s local_options)"

section \<open>Data transfer\<close>

text \<open>\<open>slice::chunks\<close>; a chunk size of 0 panics there and does not occur, since a TPDU size is at least 128.\<close>

function chunks :: "nat \<Rightarrow> 'a list \<Rightarrow> 'a list list" where
  "chunks n xs = (if xs = [] \<or> n = 0 then [] else take n xs # chunks n (drop n xs))"
  by pat_completeness auto

termination chunks
  by (relation "measure (\<lambda>(n, xs). length xs)") auto

primrec send_chunks :: "bytes list \<Rightarrow> cotp_connection \<Rightarrow> cotp_connection \<times> unit poll" where
  "send_chunks [] c = (c, Ready (Inr ()))"
| "send_chunks (chunk # rest) c =
     (case write_tpkt c (encode_dt chunk (rest = [])) of
        (c, Inl e) \<Rightarrow> (c, Ready (Inl e))
      | (c, Inr u) \<Rightarrow> send_chunks rest c)"

definition send_data :: "cotp_connection \<Rightarrow> bytes \<Rightarrow> cotp_connection \<times> unit poll" where
  "send_data c payload =
     (if state c \<noteq> Connected then (c, Ready (Inl (InvalidState (cotp_state_text (state c)) ''send_data'')))
      else let max_payload = unat (tpdu_bytes (tpdu_size (options c))) - COTP_DATA_HEADER_SIZE
        in send_chunks (chunks max_payload payload) c)"

definition over_limit :: "nat option \<Rightarrow> nat \<Rightarrow> bool" where
  "over_limit limit n = (case limit of None \<Rightarrow> False | Some l \<Rightarrow> n > l)"

lemma cotp_len_pos: "tpkt_decode a = Inr hdr \<Longrightarrow> 0 < cotp_len hdr"
  by (cases a) (auto simp: cotp_len_def TPKT_HEADER_LEN_def Let_def word_le_nat_alt split: if_splits)

lemma read_tpkt_loop_progress:
  "read_tpkt_loop rs arr = (rs', arr', r) \<Longrightarrow>
     stream_weight arr' \<le> stream_weight arr \<and> r \<noteq> Panic \<and>
     (r = Pending \<longrightarrow> arr' = [] \<or> stream_weight arr' < stream_weight arr) \<and>
     (\<forall>raw. r = Ready (Inr raw) \<longrightarrow> rs' = Idle \<and>
        (stream_weight arr' < stream_weight arr \<or> (\<exists>hdr have. rs = ReadingBody hdr have \<and> cotp_len hdr \<le> length have)))"
proof (induction rs arr arbitrary: rs' arr' r rule: read_tpkt_loop.induct)
  case (1 arr)
  from "1.IH" [of rs' arr' r] "1.prems" show ?case by auto
next
  case (2 buf arr)
  show ?case
  proof (cases "length buf < 4")
    case True
    obtain x arr1 where read: "stream_read (4 - length buf) arr = (x, arr1)" by fastforce
    have le: "stream_weight arr1 \<le> stream_weight arr" "arr1 = [] \<or> stream_weight arr1 < stream_weight arr"
      using stream_read_weight [OF read] read True by (cases "arr = []"; auto)+
    show ?thesis
    proof (cases x)
      case (ReadOk bs)
      have less: "stream_weight arr1 < stream_weight arr"
        using stream_read_ok_weight read ReadOk True by simp
      show ?thesis
      proof (cases "bs = []")
        case False
        show ?thesis
          using "2.IH"(1) [OF True, of x arr1 bs rs' arr' r] "2.prems" True read ReadOk False less by auto
      qed (use "2.prems" True read ReadOk le in auto)
    qed (use "2.prems" True read le in auto)
  next
    case False
    show ?thesis
    proof (cases "tpkt_decode (array4_at buf)")
      case (Inr hdr)
      show ?thesis
      proof (cases "unat (packet_len hdr) > COTP_MAX_BUFFER_SIZE")
        case True
        then show ?thesis using "2.prems" False Inr by auto
      next
        case fits: False
        show ?thesis
          using "2.IH"(2) [OF False Inr fits, of rs' arr' r] "2.prems" False Inr fits cotp_len_pos [OF Inr] by auto
      qed
    qed (use "2.prems" False in auto)
  qed
next
  case (3 hdr got arr)
  show ?case
  proof (cases "length got < cotp_len hdr")
    case True
    obtain x arr1 where read: "stream_read (cotp_len hdr - length got) arr = (x, arr1)" by fastforce
    have le: "stream_weight arr1 \<le> stream_weight arr" "arr1 = [] \<or> stream_weight arr1 < stream_weight arr"
      using stream_read_weight [OF read] read True by (cases "arr = []"; auto)+
    show ?thesis
    proof (cases x)
      case (ReadOk bs)
      have less: "stream_weight arr1 < stream_weight arr"
        using stream_read_ok_weight read ReadOk True by simp
      show ?thesis
      proof (cases "bs = []")
        case False
        show ?thesis
          using "3.IH" [OF True, of x arr1 bs rs' arr' r] "3.prems" True read ReadOk False less by auto
      qed (use "3.prems" True read ReadOk le in auto)
    qed (use "3.prems" True read le in auto)
  qed (use "3.prems" in auto)
qed

lemma read_tpkt_progress:
  assumes "read_tpkt c = (c', r)"
  shows "r \<noteq> Panic" "stream_weight (t_in (stream c')) \<le> stream_weight (t_in (stream c))"
    and "r = Pending \<Longrightarrow> t_in (stream c') = [] \<or> stream_weight (t_in (stream c')) < stream_weight (t_in (stream c))"
    and "r = Ready (Inr raw) \<Longrightarrow> read_state c' = Idle \<and>
      (stream_weight (t_in (stream c')) < stream_weight (t_in (stream c)) \<or> read_state c \<noteq> Idle)"
proof -
  obtain rs arr where loop: "read_tpkt_loop (if read_state c = Idle then ReadingHeader [] else read_state c)
      (t_in (stream c)) = (rs, arr, r)"
    and c': "c' = c\<lparr>read_state := rs, stream := (stream c)\<lparr>t_in := arr\<rparr>\<rparr>"
    using assms by (auto simp: read_tpkt_def Let_def split: prod.splits)
  show "r \<noteq> Panic" "stream_weight (t_in (stream c')) \<le> stream_weight (t_in (stream c))"
    "r = Pending \<Longrightarrow> t_in (stream c') = [] \<or> stream_weight (t_in (stream c')) < stream_weight (t_in (stream c))"
    "r = Ready (Inr raw) \<Longrightarrow> read_state c' = Idle \<and>
      (stream_weight (t_in (stream c')) < stream_weight (t_in (stream c)) \<or> read_state c \<noteq> Idle)"
    using read_tpkt_loop_progress [OF loop] unfolding c' by (auto split: if_splits)
qed

lemma packet_consumes:
  assumes "(c', Ready (Inr raw)) = read_tpkt c"
  shows "stream_weight (t_in (stream c')) < stream_weight (t_in (stream c)) \<or>
     stream_weight (t_in (stream c')) = stream_weight (t_in (stream c)) \<and> read_state c' = Idle \<and> read_state c \<noteq> Idle"
  using read_tpkt_progress [OF assms [symmetric]] by auto

function recv_data_loop :: "cotp_connection \<Rightarrow> cotp_connection \<times> bytes poll" where
  "recv_data_loop c =
     (case read_tpkt c of
        (c, Pending) \<Rightarrow> (c, Pending)
      | (c, Panic) \<Rightarrow> (c, Panic)
      | (c, Ready (Inl e)) \<Rightarrow> (c, Ready (Inl e))
      | (c, Ready (Inr raw)) \<Rightarrow>
          (case parse_dt raw of
             Inl e \<Rightarrow> (c, Ready (Inl e))
           | Inr (payload, is_last) \<Rightarrow>
               let buf = payload_buf c @ payload;
                   c = c\<lparr>payload_buf := buf\<rparr>
               in if over_limit (max_tsdu_size c) (length buf) then
                    (c\<lparr>payload_buf := [], state := Closed\<rparr>,
                     Ready (Inl (TsduTooLarge (length buf) (the (max_tsdu_size c)))))
                  else if is_last then (c\<lparr>payload_buf := []\<rparr>, Ready (Inr buf))
                  else recv_data_loop c))"
  by pat_completeness auto

termination recv_data_loop
  by (relation "measures [\<lambda>c. stream_weight (t_in (stream c)), \<lambda>c. if read_state c = Idle then 0 else 1]")
    (auto dest: packet_consumes)

definition recv_data :: "cotp_connection \<Rightarrow> cotp_connection \<times> bytes poll" where
  "recv_data c =
     (if state c \<noteq> Connected then (c, Ready (Inl (InvalidState (cotp_state_text (state c)) ''recv_data'')))
      else recv_data_loop c)"

section \<open>Disconnection\<close>

definition send_dr :: "cotp_connection \<Rightarrow> cotp_connection \<times> unit poll" where
  "send_dr c =
     (if state c \<noteq> Connected then (c, Ready (Inl (InvalidState (cotp_state_text (state c)) ''send_dr'')))
      else case write_tpkt c (encode_dr (local_ref c) (remote_ref c)) of
        (c, Inl e) \<Rightarrow> (c, Ready (Inl e))
      | (c, Inr u) \<Rightarrow> (c\<lparr>state := Closing\<rparr>, Ready (Inr ())))"

definition recv_dc :: "cotp_connection \<Rightarrow> cotp_connection \<times> unit poll" where
  "recv_dc c =
     (if state c \<noteq> Closing then (c, Ready (Inl (InvalidState (cotp_state_text (state c)) ''recv_dc'')))
      else case read_tpkt c of
        (c, Pending) \<Rightarrow> (c, Pending)
      | (c, Panic) \<Rightarrow> (c, Panic)
      | (c, Ready (Inl e)) \<Rightarrow> (c, Ready (Inl e))
      | (c, Ready (Inr raw)) \<Rightarrow>
          (case parse_dc raw of
             Inl e \<Rightarrow> (c, Ready (Inl e))
           | Inr u \<Rightarrow> (c\<lparr>state := Closed\<rparr>, Ready (Inr ()))))"

declare recv_data_loop.simps [simp del] chunks.simps [simp del]

lemma recv_data_loop_progress:
  "recv_data_loop c = (c', r) \<Longrightarrow>
     stream_weight (t_in (stream c')) \<le> stream_weight (t_in (stream c)) \<and> r \<noteq> Panic \<and>
     (r = Pending \<longrightarrow> t_in (stream c') = [] \<or> stream_weight (t_in (stream c')) < stream_weight (t_in (stream c))) \<and>
     (\<forall>p. r = Ready (Inr p) \<longrightarrow> read_state c' = Idle \<and>
        (stream_weight (t_in (stream c')) < stream_weight (t_in (stream c)) \<or> read_state c \<noteq> Idle))"
proof (induction c arbitrary: c' r rule: recv_data_loop.induct)
  case (1 c)
  obtain c1 x where read: "read_tpkt c = (c1, x)" by fastforce
  note step = read_tpkt_progress [OF read]
  show ?case
  proof (cases "\<exists>raw payload is_last. x = Ready (Inr raw) \<and> parse_dt raw = Inr (payload, is_last)")
    case False
    then show ?thesis
      using "1.prems" step read by (auto simp: recv_data_loop.simps [of c] split: poll.splits sum.splits prod.splits)
  next
    case True
    then obtain raw payload is_last where x: "x = Ready (Inr raw)" and dt: "parse_dt raw = Inr (payload, is_last)"
      by blast
    let ?c2 = "c1\<lparr>payload_buf := payload_buf c1 @ payload\<rparr>"
    show ?thesis
    proof (cases "over_limit (max_tsdu_size c1) (length (payload_buf c1 @ payload)) \<or> is_last")
      case True
      then show ?thesis
        using "1.prems" step(2,4) read x dt by (auto simp: recv_data_loop.simps [of c] Let_def split: if_splits)
    next
      case False
      then have "recv_data_loop ?c2 = (c', r)"
        using "1.prems" read x dt by (simp add: recv_data_loop.simps [of c] Let_def)
      moreover note "1.IH" [OF read [symmetric] x refl dt refl refl refl, of c' r]
      ultimately show ?thesis using False step(2,4) x by auto
    qed
  qed
qed

end
