(* ===== verification/Cotp_Transfer.thy ===== *)
theory Cotp_Transfer
  imports Cotp_Connection
begin

text \<open>
  What the transport connection promises its users: it negotiates one TPDU size, it hands over the TSDUs of the
  peer in order however the octets arrive and however often a receive is abandoned and called again, and what
  a peer can make it hold in memory is bounded.
\<close>

section \<open>Octets on the way\<close>

fun arrival_octets :: "arrival \<Rightarrow> bytes" where
  "arrival_octets (Octets bs) = bs"
| "arrival_octets a = []"

definition octets_of :: "arrival list \<Rightarrow> bytes" where
  "octets_of arr = concat (map arrival_octets arr)"

text \<open>A stream that neither fails nor ends, and one that has all its octets at once, in whatever pieces.\<close>

fun arrival_clean :: "arrival \<Rightarrow> bool" where
  "arrival_clean (Octets bs) \<longleftrightarrow> bs \<noteq> []"
| "arrival_clean Quiet \<longleftrightarrow> True"
| "arrival_clean (ReadFails e) \<longleftrightarrow> False"

definition clean :: "arrival list \<Rightarrow> bool" where
  "clean arr \<longleftrightarrow> list_all arrival_clean arr"

definition prompt :: "arrival list \<Rightarrow> bool" where
  "prompt arr \<longleftrightarrow> list_all (\<lambda>a. a \<noteq> Quiet) arr"

lemma arrival_simps [simp]:
  "octets_of [] = []" "octets_of (a # arr) = arrival_octets a @ octets_of arr"
  "clean []" "clean (a # arr) \<longleftrightarrow> arrival_clean a \<and> clean arr"
  "prompt []" "prompt (a # arr) \<longleftrightarrow> a \<noteq> Quiet \<and> prompt arr"
  by (simp_all add: octets_of_def clean_def prompt_def)

text \<open>A read of a clean stream finds nothing yet, or takes some octets off its front.\<close>

lemma stream_read_clean:
  assumes "stream_read want arr = (x, arr')" "0 < want" "clean arr"
  shows "clean arr'" "prompt arr \<Longrightarrow> prompt arr'"
    and "x = ReadPending \<and> octets_of arr' = octets_of arr \<and> (prompt arr \<longrightarrow> arr' = []) \<or>
      (\<exists>bs. x = ReadOk bs \<and> bs \<noteq> [] \<and> length bs \<le> want \<and> octets_of arr = bs @ octets_of arr')"
  using assms by (induction want arr rule: stream_read.induct) (auto split: if_splits)

lemma stream_read_length: "stream_read want arr = (ReadOk bs, arr') \<Longrightarrow> length bs \<le> want"
  by (induction want arr rule: stream_read.induct) (auto split: if_splits)

section \<open>One packet\<close>

definition packet :: "bytes \<Rightarrow> bytes" where
  "packet pdu = tpkt_encode (tpkt_header_new (TPKT_HEADER_LEN + length pdu)) @ pdu"

definition pdu_fits :: "bytes \<Rightarrow> bool" where
  "pdu_fits pdu \<longleftrightarrow> 1 \<le> length pdu \<and> length pdu \<le> 8192"

text \<open>What the reader has taken off the stream for the packet it is in, and the states the reader rests in.\<close>

fun buffered :: "read_state \<Rightarrow> bytes" where
  "buffered Idle = []"
| "buffered (ReadingHeader buf) = buf"
| "buffered (ReadingBody hdr got) = tpkt_encode hdr @ got"

fun read_state_ok :: "read_state \<Rightarrow> bool" where
  "read_state_ok Idle \<longleftrightarrow> True"
| "read_state_ok (ReadingHeader buf) \<longleftrightarrow> length buf \<le> 4"
| "read_state_ok (ReadingBody hdr got) \<longleftrightarrow>
     4 < unat (packet_len hdr) \<and> unat (packet_len hdr) \<le> COTP_MAX_BUFFER_SIZE \<and> length got \<le> cotp_len hdr"

lemma length_tpkt_encode [simp]: "length (tpkt_encode h) = 4"
  by (simp add: tpkt_encode_def)

lemma unat_packet_len_new: "n < 65536 \<Longrightarrow> unat (packet_len (tpkt_header_new n)) = n"
  by (simp add: tpkt_header_new_def unat_of_nat)

lemma tpkt_roundtrip:
  assumes "4 < unat (packet_len h)"
  shows "tpkt_decode (array4_at (tpkt_encode h)) = Inr h"
proof -
  obtain a b where "u16_to_be (packet_len h) = [a, b]" "from_be [a, b] = packet_len h"
    using u16_to_be_pair by blast
  then show ?thesis using assms
    by (simp add: tpkt_encode_def array4_at_def TPKT_VERSION_def TPKT_RESERVED_def word_le_nat_alt)
qed

lemma tpkt_decode_bounds: "tpkt_decode a = Inr hdr \<Longrightarrow> 4 < unat (packet_len hdr)"
  by (cases a) (auto simp: Let_def word_le_nat_alt split: if_splits)

lemma tpkt_encode_inject [simp]: "tpkt_encode h = tpkt_encode h' \<longleftrightarrow> h = h'"
proof
  assume "tpkt_encode h = tpkt_encode h'"
  then have "from_be (u16_to_be (packet_len h)) = (from_be (u16_to_be (packet_len h')) :: u16)"
    by (simp add: tpkt_encode_def)
  then show "h = h'" by (simp add: tpkt_header.expand)
qed simp

lemma new_header_len:
  assumes "pdu_fits pdu"
  shows "unat (packet_len (tpkt_header_new (TPKT_HEADER_LEN + length pdu))) = 4 + length pdu"
    "cotp_len (tpkt_header_new (TPKT_HEADER_LEN + length pdu)) = length pdu"
  using assms by (simp_all add: pdu_fits_def TPKT_HEADER_LEN_def unat_packet_len_new cotp_len_def)

lemma no_tsdu_error [simp]:
  "cotp_error_from e \<noteq> TsduTooLarge n l" "tpkt_decode a \<noteq> Inl (TsduTooLarge n l)"
  "parse_dt raw \<noteq> Inl (TsduTooLarge n l)"
    apply (cases e; simp)
   apply (cases a; simp add: Let_def)
  apply (auto simp: parse_dt_def read_byte_def split: list.splits if_splits)
  done

text \<open>Any bytes at all leave the reader in a state it rests in, and a packet it hands over fits its buffer.\<close>

lemma read_tpkt_loop_bounded:
  "read_tpkt_loop rs arr = (rs', arr', r) \<Longrightarrow> read_state_ok rs \<Longrightarrow>
     read_state_ok rs' \<and> (\<forall>raw. r = Ready (Inr raw) \<longrightarrow> rs' = Idle \<and> pdu_fits raw) \<and>
     (\<forall>n l. r \<noteq> Ready (Inl (TsduTooLarge n l)))"
proof (induction rs arr arbitrary: rs' arr' r rule: read_tpkt_loop.induct)
  case (1 arr)
  from "1.IH" [of rs' arr' r] "1.prems" show ?case by auto
next
  case (2 buf arr)
  show ?case
  proof (cases "length buf < 4")
    case True
    obtain x arr1 where read: "stream_read (4 - length buf) arr = (x, arr1)" by fastforce
    show ?thesis
    proof (cases "\<exists>bs. x = ReadOk bs \<and> bs \<noteq> []")
      case ok: True
      then obtain bs where bs: "x = ReadOk bs" "bs \<noteq> []" by blast
      have "length bs \<le> 4 - length buf" using stream_read_length read bs by blast
      with "2.IH"(1) [OF True, of x arr1 bs rs' arr' r] "2.prems" True read bs show ?thesis by auto
    qed (use "2.prems" True read in \<open>auto split: read_result.splits\<close>)
  next
    case False
    show ?thesis
    proof (cases "tpkt_decode (array4_at buf)")
      case (Inr hdr)
      then show ?thesis
        using "2.IH"(2) [OF False Inr, of rs' arr' r] "2.prems" False tpkt_decode_bounds [OF Inr]
        by (auto split: if_splits)
    qed (use "2.prems" False in auto)
  qed
next
  case (3 hdr got arr)
  show ?case
  proof (cases "length got < cotp_len hdr")
    case True
    obtain x arr1 where read: "stream_read (cotp_len hdr - length got) arr = (x, arr1)" by fastforce
    show ?thesis
    proof (cases "\<exists>bs. x = ReadOk bs \<and> bs \<noteq> []")
      case ok: True
      then obtain bs where bs: "x = ReadOk bs" "bs \<noteq> []" by blast
      have "length bs \<le> cotp_len hdr - length got" using stream_read_length read bs by blast
      with "3.IH" [OF True, of x arr1 bs rs' arr' r] "3.prems" True read bs show ?thesis by auto
    qed (use "3.prems" True read in \<open>auto split: read_result.splits\<close>)
  next
    case False
    then show ?thesis using "3.prems"
      by (auto simp: pdu_fits_def cotp_len_def COTP_MAX_BUFFER_SIZE_def TPKT_HEADER_LEN_def)
  qed
qed


text \<open>
  One packet at the front of a clean stream: the reader hands it over and leaves what follows, or it waits with
  no octet lost. A prompt stream never makes it wait.
\<close>

definition packet_read ::
    "bytes \<Rightarrow> bytes \<Rightarrow> arrival list \<Rightarrow> read_state \<times> arrival list \<times> bytes poll \<Rightarrow> bool" where
  "packet_read pdu rest arr result \<longleftrightarrow>
     (case result of (rs', arr', r) \<Rightarrow>
        clean arr' \<and> (prompt arr \<longrightarrow> prompt arr' \<and> r \<noteq> Pending) \<and>
        (r = Ready (Inr pdu) \<and> rs' = Idle \<and> octets_of arr' = rest \<or>
         r = Pending \<and> read_state_ok rs' \<and> buffered rs' @ octets_of arr' = packet pdu @ rest \<and>
         length (buffered rs') < length (packet pdu)))"

lemma packet_read_weaken:
  "packet_read pdu rest arr1 res \<Longrightarrow> (prompt arr \<Longrightarrow> prompt arr1) \<Longrightarrow> packet_read pdu rest arr res"
  by (auto simp: packet_read_def)

lemma packet_waits:
  assumes "stream_read want arr = (ReadPending, arr')" "0 < want" "clean arr" "read_state_ok rs"
    and "buffered rs @ octets_of arr = packet pdu @ rest" "length (buffered rs) < length (packet pdu)"
  shows "packet_read pdu rest arr (rs, arr', Pending)"
  using stream_read_clean [OF assms(1-3)] assms(4-6) by (auto simp: packet_read_def)

lemma front_eq: "xs @ us = ys @ vs \<Longrightarrow> length xs = length ys \<Longrightarrow> xs = ys \<and> us = vs"
  by simp

declare read_tpkt_loop.simps [simp del]

lemma read_packet:
  "clean arr \<Longrightarrow> read_state_ok rs \<Longrightarrow> buffered rs @ octets_of arr = packet pdu @ rest \<Longrightarrow> pdu_fits pdu \<Longrightarrow>
     packet_read pdu rest arr (read_tpkt_loop rs arr)"
proof (induction rs arr rule: read_tpkt_loop.induct)
  case (1 arr)
  then show ?case by (simp add: read_tpkt_loop.simps(1))
next
  case (2 buf arr)
  let ?hdr = "tpkt_header_new (TPKT_HEADER_LEN + length pdu)"
  show ?case
  proof (cases "length buf < 4")
    case True
    then have want: "0 < 4 - length buf" by simp
    obtain x arr1 where read: "stream_read (4 - length buf) arr = (x, arr1)" by fastforce
    from stream_read_clean(3) [OF read want "2.prems"(1)] show ?thesis
    proof
      assume p: "x = ReadPending \<and> octets_of arr1 = octets_of arr \<and> (prompt arr \<longrightarrow> arr1 = [])"
      then show ?thesis
        using packet_waits [OF read [unfolded conjunct1 [OF p]] want "2.prems"(1,2,3)] read True by (simp add: packet_def read_tpkt_loop.simps(2) [of buf])
    next
      assume "\<exists>bs. x = ReadOk bs \<and> bs \<noteq> [] \<and> length bs \<le> 4 - length buf \<and> octets_of arr = bs @ octets_of arr1"
      then obtain bs where bs: "x = ReadOk bs" "bs \<noteq> []" "length bs \<le> 4 - length buf"
          "octets_of arr = bs @ octets_of arr1" by blast
      have "packet_read pdu rest arr1 (read_tpkt_loop (ReadingHeader (buf @ bs)) arr1)"
      proof (rule "2.IH"(1) [OF True read [symmetric] bs(1,2) stream_read_clean(1) [OF read want "2.prems"(1)]])
        show "read_state_ok (ReadingHeader (buf @ bs))" using "2.prems"(2) bs(3) True by simp
        show "buffered (ReadingHeader (buf @ bs)) @ octets_of arr1 = packet pdu @ rest" using "2.prems"(3) bs(4) by simp
      qed (rule "2.prems"(4))
      then show ?thesis
        using packet_read_weaken [OF _ stream_read_clean(2) [OF read want "2.prems"(1)]] True read bs(1,2) by (simp add: read_tpkt_loop.simps(2) [of buf])
    qed
  next
    case False
    then have "length buf = 4" using "2.prems"(2) by simp
    then have buf: "buf = tpkt_encode ?hdr" and rest: "octets_of arr = pdu @ rest"
      using front_eq [of buf _ "tpkt_encode ?hdr"] "2.prems"(3) by (auto simp: packet_def)
    have dec: "tpkt_decode (array4_at buf) = Inr ?hdr"
      unfolding buf using new_header_len(1) [OF "2.prems"(4)] "2.prems"(4) by (intro tpkt_roundtrip) (auto simp: pdu_fits_def)
    have fits: "\<not> unat (packet_len ?hdr) > COTP_MAX_BUFFER_SIZE"
      using new_header_len(1) [OF "2.prems"(4)] "2.prems"(4)
      by (simp add: pdu_fits_def COTP_MAX_BUFFER_SIZE_def TPKT_HEADER_LEN_def)
    have "packet_read pdu rest arr (read_tpkt_loop (ReadingBody ?hdr []) arr)"
    proof (rule "2.IH"(2) [OF False dec fits])
      show "read_state_ok (ReadingBody ?hdr [])"
        using fits new_header_len(1) [OF "2.prems"(4)] "2.prems"(4) by (auto simp: pdu_fits_def)
    qed (use "2.prems" buf rest in \<open>simp_all add: packet_def\<close>)
    then show ?thesis using False dec fits by (simp add: read_tpkt_loop.simps(2) [of buf])
  qed
next
  case (3 hdr got arr)
  have split: "tpkt_encode hdr = tpkt_encode (tpkt_header_new (TPKT_HEADER_LEN + length pdu))"
    "got @ octets_of arr = pdu @ rest"
    using front_eq [of "tpkt_encode hdr"] "3.prems"(3) by (auto simp: packet_def)
  then have len: "cotp_len hdr = length pdu" using new_header_len(2) [OF "3.prems"(4)] by simp
  show ?case
  proof (cases "length got < cotp_len hdr")
    case True
    then have want: "0 < cotp_len hdr - length got" by simp
    obtain x arr1 where read: "stream_read (cotp_len hdr - length got) arr = (x, arr1)" by fastforce
    from stream_read_clean(3) [OF read want "3.prems"(1)] show ?thesis
    proof
      assume p: "x = ReadPending \<and> octets_of arr1 = octets_of arr \<and> (prompt arr \<longrightarrow> arr1 = [])"
      then show ?thesis
        using packet_waits [OF read [unfolded conjunct1 [OF p]] want "3.prems"(1,2,3)] read True len by (simp add: packet_def read_tpkt_loop.simps(3) [of hdr got])
    next
      assume "\<exists>bs. x = ReadOk bs \<and> bs \<noteq> [] \<and> length bs \<le> cotp_len hdr - length got \<and> octets_of arr = bs @ octets_of arr1"
      then obtain bs where bs: "x = ReadOk bs" "bs \<noteq> []" "length bs \<le> cotp_len hdr - length got"
          "octets_of arr = bs @ octets_of arr1" by blast
      have "packet_read pdu rest arr1 (read_tpkt_loop (ReadingBody hdr (got @ bs)) arr1)"
      proof (rule "3.IH" [OF True read [symmetric] bs(1,2) stream_read_clean(1) [OF read want "3.prems"(1)]])
        show "read_state_ok (ReadingBody hdr (got @ bs))" using "3.prems"(2) bs(3) True by simp
        show "buffered (ReadingBody hdr (got @ bs)) @ octets_of arr1 = packet pdu @ rest" using "3.prems"(3) bs(4) by simp
      qed (rule "3.prems"(4))
      then show ?thesis
        using packet_read_weaken [OF _ stream_read_clean(2) [OF read want "3.prems"(1)]] True read bs(1,2) by (simp add: read_tpkt_loop.simps(3) [of hdr got])
    qed
  next
    case False
    then have "length got = length pdu" using "3.prems"(2) len by simp
    then have "got = pdu" "octets_of arr = rest" using front_eq [OF split(2)] by simp_all
    then show ?thesis using False len "3.prems"(1) by (simp add: packet_read_def read_tpkt_loop.simps(3))
  qed
qed

lemma read_tpkt_packet:
  assumes "read_tpkt c = (c', r)" "clean (t_in (stream c))" "read_state_ok (read_state c)" "pdu_fits pdu"
    and "buffered (read_state c) @ octets_of (t_in (stream c)) = packet pdu @ rest"
  shows "packet_read pdu rest (t_in (stream c)) (read_state c', t_in (stream c'), r)"
    and "c' = c\<lparr>read_state := read_state c', stream := (stream c)\<lparr>t_in := t_in (stream c')\<rparr>\<rparr>"
proof -
  let ?rs = "if read_state c = Idle then ReadingHeader [] else read_state c"
  obtain rs arr where loop: "read_tpkt_loop ?rs (t_in (stream c)) = (rs, arr, r)"
    and c': "c' = c\<lparr>read_state := rs, stream := (stream c)\<lparr>t_in := arr\<rparr>\<rparr>"
    using assms(1) by (auto simp: read_tpkt_def Let_def split: prod.splits)
  show "packet_read pdu rest (t_in (stream c)) (read_state c', t_in (stream c'), r)"
    using read_packet [of "t_in (stream c)" ?rs pdu rest] assms(2-5) loop c' by (auto split: if_splits)
  show "c' = c\<lparr>read_state := read_state c', stream := (stream c)\<lparr>t_in := t_in (stream c')\<rparr>\<rparr>"
    using c' by simp
qed

section \<open>One TSDU\<close>

primrec dt_packets :: "bytes list \<Rightarrow> bytes" where
  "dt_packets [] = []"
| "dt_packets (seg # segs) = packet (encode_dt seg (segs = [])) @ dt_packets segs"

definition segments_ok :: "bytes list \<Rightarrow> bool" where
  "segments_ok segs \<longleftrightarrow> (\<forall>seg\<in>set segs. seg \<noteq> [] \<and> length seg + COTP_DATA_HEADER_SIZE \<le> 8192)"

lemma segment_fits: "segments_ok (seg # segs) \<Longrightarrow> pdu_fits (encode_dt seg l)"
  by (auto simp: segments_ok_def pdu_fits_def encode_dt_def COTP_DATA_HEADER_SIZE_def)

lemma segments_ok_Cons: "segments_ok (seg # segs) \<longleftrightarrow> seg \<noteq> [] \<and> length seg + 3 \<le> 8192 \<and> segments_ok segs"
  by (auto simp: segments_ok_def COTP_DATA_HEADER_SIZE_def)

lemma over_limit_mono: "over_limit l m \<Longrightarrow> m \<le> n \<Longrightarrow> over_limit l n"
  by (auto simp: over_limit_def split: option.splits)

text \<open>
  What the receiver knows in the middle of a TSDU: the segments \<open>segs\<close> are still to come, in the partial packet
  and on the stream, before \<open>rest\<close>; with what is reassembled they make up \<open>tsdu\<close>.
\<close>

definition awaiting :: "cotp_connection \<Rightarrow> bytes list \<Rightarrow> bytes \<Rightarrow> bytes \<Rightarrow> bool" where
  "awaiting c segs tsdu rest \<longleftrightarrow>
     clean (t_in (stream c)) \<and> read_state_ok (read_state c) \<and> segs \<noteq> [] \<and> segments_ok segs \<and>
     payload_buf c @ concat segs = tsdu \<and> \<not> over_limit (max_tsdu_size c) (length tsdu) \<and>
     buffered (read_state c) @ octets_of (t_in (stream c)) = dt_packets segs @ rest"

lemma recv_segments:
  "recv_data_loop c = (c', r) \<Longrightarrow> awaiting c segs tsdu rest \<Longrightarrow>
     state c' = state c \<and> max_tsdu_size c' = max_tsdu_size c \<and> clean (t_in (stream c')) \<and>
     (r = Ready (Inr tsdu) \<and> payload_buf c' = [] \<and> read_state c' = Idle \<and> octets_of (t_in (stream c')) = rest \<or>
      r = Pending \<and> (\<exists>segs'. awaiting c' segs' tsdu rest \<and> length (buffered (read_state c')) < length (dt_packets segs')))"
proof (induction c arbitrary: c' r segs rule: recv_data_loop.induct)
  case (1 c)
  from "1.prems"(2) obtain seg more where segs: "segs = seg # more" by (auto simp: awaiting_def neq_Nil_conv)
  let ?pdu = "encode_dt seg (more = [])"
  obtain c1 x where read: "read_tpkt c = (c1, x)" by fastforce
  have fits: "pdu_fits ?pdu" using "1.prems"(2) segs segment_fits by (auto simp: awaiting_def)
  have got: "packet_read ?pdu (dt_packets more @ rest) (t_in (stream c)) (read_state c1, t_in (stream c1), x)"
    and c1: "c1 = c\<lparr>read_state := read_state c1, stream := (stream c)\<lparr>t_in := t_in (stream c1)\<rparr>\<rparr>"
    using read_tpkt_packet [OF read _ _ fits] "1.prems"(2) segs by (simp_all add: awaiting_def)
  have kept: "state c1 = state c" "max_tsdu_size c1 = max_tsdu_size c" "payload_buf c1 = payload_buf c"
    by (subst c1, simp)+
  from got consider (pending) "x = Pending" | (packet) "x = Ready (Inr ?pdu)" by (auto simp: packet_read_def)
  then show ?case
  proof cases
    case pending
    then have "awaiting c1 segs tsdu rest" "length (buffered (read_state c1)) < length (dt_packets segs)"
      using got "1.prems"(2) segs kept by (auto simp: awaiting_def packet_read_def)
    moreover have "c' = c1" "r = Pending" using "1.prems"(1) read pending by (simp_all add: recv_data_loop.simps [of c])
    ultimately show ?thesis using kept by (auto simp: awaiting_def)
  next
    case packet
    have seg: "seg \<noteq> []" "segments_ok more" using "1.prems"(2) segs by (auto simp: awaiting_def segments_ok_Cons)
    have dt: "parse_dt ?pdu = Inr (seg, more = [])" using seg(1) by (rule dt_roundtrip)
    let ?c2 = "c1\<lparr>payload_buf := payload_buf c1 @ seg\<rparr>"
    have tsdu: "tsdu = payload_buf c @ seg @ concat more" and lim: "\<not> over_limit (max_tsdu_size c) (length tsdu)"
      using "1.prems"(2) segs by (auto simp: awaiting_def)
    have under: "\<not> over_limit (max_tsdu_size c1) (length (payload_buf c1 @ seg))"
      using lim over_limit_mono [of "max_tsdu_size c" "length (payload_buf c @ seg)" "length tsdu"] kept tsdu by auto
    have step: "recv_data_loop c = (if more = [] then (c1\<lparr>payload_buf := []\<rparr>, Ready (Inr (payload_buf c1 @ seg)))
        else recv_data_loop ?c2)"
      using read packet dt under by (simp add: recv_data_loop.simps [of c] Let_def)
    show ?thesis
    proof (cases "more = []")
      case True
      then show ?thesis using step "1.prems"(1) got packet kept tsdu by (auto simp: packet_read_def)
    next
      case False
      have "awaiting ?c2 more tsdu rest"
        using got packet seg False tsdu lim kept by (auto simp: awaiting_def packet_read_def)
      with "1.IH" [OF read [symmetric] packet refl dt refl refl refl, of c' r more] under False step "1.prems"(1) kept
      show ?thesis by simp
    qed
  qed
qed

section \<open>The sender\<close>

lemma write_tpkt_ok:
  "t_writes (stream c) = [] \<Longrightarrow>
     write_tpkt c pdu = (c\<lparr>stream := (stream c)\<lparr>t_out := t_out (stream c) @ packet pdu\<rparr>\<rparr>, Inr ())"
  by (simp add: write_tpkt_def write_all_def packet_def Let_def)

lemma send_chunks_ok:
  "t_writes (stream c) = [] \<Longrightarrow>
     send_chunks segs c = (c\<lparr>stream := (stream c)\<lparr>t_out := t_out (stream c) @ dt_packets segs\<rparr>\<rparr>, Ready (Inr ()))"
  by (induction segs arbitrary: c) (simp_all add: write_tpkt_ok)

lemma chunks_concat: "0 < n \<Longrightarrow> concat (chunks n xs) = xs"
proof (induction n xs rule: chunks.induct)
  case (1 n xs)
  show ?case
  proof (cases "xs = []")
    case False
    have "concat (chunks n (drop n xs)) = drop n xs" using "1.IH" "1.prems" False by simp
    then show ?thesis using False "1.prems" by (simp add: chunks.simps [of n xs])
  qed (simp add: chunks.simps)
qed

lemma chunks_sizes: "0 < n \<Longrightarrow> seg \<in> set (chunks n xs) \<Longrightarrow> seg \<noteq> [] \<and> length seg \<le> n"
proof (induction n xs rule: chunks.induct)
  case (1 n xs)
  then show ?case by (cases "xs = []") (auto simp: chunks.simps [of n xs] chunks.simps [of n "[]"])
qed

lemma chunks_empty: "0 < n \<Longrightarrow> chunks n xs = [] \<longleftrightarrow> xs = []"
  by (subst chunks.simps) simp

definition segments :: "cotp_options \<Rightarrow> bytes \<Rightarrow> bytes list" where
  "segments opts tsdu = chunks (unat (tpdu_bytes (tpdu_size opts)) - COTP_DATA_HEADER_SIZE) tsdu"

lemma segments_facts:
  assumes "tpdu_size_ok (tpdu_size opts)"
  shows "concat (segments opts tsdu) = tsdu" "segments_ok (segments opts tsdu)"
    "segments opts tsdu = [] \<longleftrightarrow> tsdu = []"
proof -
  note b = tpdu_bytes_bounds [OF assms]
  have pos: "0 < unat (tpdu_bytes (tpdu_size opts)) - COTP_DATA_HEADER_SIZE"
    using b(1) by (simp add: COTP_DATA_HEADER_SIZE_def)
  show "concat (segments opts tsdu) = tsdu" using pos by (simp add: segments_def chunks_concat)
  show "segments opts tsdu = [] \<longleftrightarrow> tsdu = []" using pos by (simp add: segments_def chunks_empty)
  show "segments_ok (segments opts tsdu)"
    unfolding segments_ok_def
  proof
    fix seg assume "seg \<in> set (segments opts tsdu)"
    then show "seg \<noteq> [] \<and> length seg + COTP_DATA_HEADER_SIZE \<le> 8192"
      using chunks_sizes [OF pos, of seg tsdu] b by (auto simp: segments_def COTP_DATA_HEADER_SIZE_def)
  qed
qed

text \<open>A sender gives its TSDUs one after another to \<open>send_data\<close>.\<close>

definition send_all :: "cotp_connection \<Rightarrow> bytes list \<Rightarrow> cotp_connection" where
  "send_all = foldl (\<lambda>c tsdu. fst (send_data c tsdu))"

definition wire :: "cotp_options \<Rightarrow> bytes list \<Rightarrow> bytes" where
  "wire opts tsdus = concat (map (\<lambda>tsdu. dt_packets (segments opts tsdu)) tsdus)"

lemma send_all_out:
  "state c = Connected \<Longrightarrow> t_writes (stream c) = [] \<Longrightarrow>
     t_out (stream (send_all c tsdus)) = t_out (stream c) @ wire (options c) tsdus"
proof (induction tsdus arbitrary: c)
  case Nil
  then show ?case by (simp add: send_all_def wire_def)
next
  case (Cons tsdu tsdus)
  let ?c1 = "c\<lparr>stream := (stream c)\<lparr>t_out := t_out (stream c) @ dt_packets (segments (options c) tsdu)\<rparr>\<rparr>"
  have "send_data c tsdu = (?c1, Ready (Inr ()))"
    using Cons.prems by (simp add: send_data_def segments_def send_chunks_ok Let_def)
  then have "send_all c (tsdu # tsdus) = send_all ?c1 tsdus" by (simp add: send_all_def)
  then show ?case using Cons.IH [of ?c1] Cons.prems by (simp add: wire_def)
qed

section \<open>The receiver\<close>

text \<open>
  A receiver calls \<open>recv_data\<close> again and again, after an abandoned call as after a TSDU, until a call fails or
  the stream has nothing more.
\<close>

function drain :: "cotp_connection \<Rightarrow> (cotp_error + bytes) list" where
  "drain c =
     (case recv_data c of
        (c', Ready (Inr tsdu)) \<Rightarrow> Inr tsdu # drain c'
      | (c', Ready (Inl e)) \<Rightarrow> [Inl e]
      | (c', Panic) \<Rightarrow> []
      | (c', Pending) \<Rightarrow> if t_in (stream c') = [] then [] else drain c')"
  by pat_completeness auto

lemma recv_data_consumes:
  assumes "(c', r) = recv_data c" "r = Ready (Inr tsdu) \<or> r = Pending \<and> t_in (stream c') \<noteq> []"
  shows "stream_weight (t_in (stream c')) < stream_weight (t_in (stream c)) \<or>
     stream_weight (t_in (stream c')) = stream_weight (t_in (stream c)) \<and> read_state c' = Idle \<and> read_state c \<noteq> Idle"
  using assms recv_data_loop_progress [of c c' r] by (auto simp: recv_data_def split: if_splits)

termination drain
  by (relation "measures [\<lambda>c. stream_weight (t_in (stream c)), \<lambda>c. if read_state c = Idle then 0 else 1]")
    (auto dest: recv_data_consumes)

declare drain.simps [simp del]

text \<open>Between two TSDUs and inside one: what a receiver still gets.\<close>

definition expects :: "cotp_options \<Rightarrow> cotp_connection \<Rightarrow> bytes list \<Rightarrow> bool" where
  "expects opts c tsdus \<longleftrightarrow>
     state c = Connected \<and>
     (tsdus = [] \<and> read_state c \<in> {Idle, ReadingHeader []} \<and> clean (t_in (stream c)) \<and> octets_of (t_in (stream c)) = [] \<or>
      (\<exists>tsdu more segs. tsdus = tsdu # more \<and> awaiting c segs tsdu (wire opts more) \<and>
         (\<forall>t\<in>set more. t \<noteq> [] \<and> \<not> over_limit (max_tsdu_size c) (length t))))"

lemma expects_start:
  assumes "tpdu_size_ok (tpdu_size opts)" "state c = Connected" "read_state c = Idle" "payload_buf c = []"
    and "clean (t_in (stream c))" "octets_of (t_in (stream c)) = wire opts tsdus"
    and "\<forall>t\<in>set tsdus. t \<noteq> [] \<and> \<not> over_limit (max_tsdu_size c) (length t)"
  shows "expects opts c tsdus"
proof (cases tsdus)
  case Nil
  then show ?thesis using assms by (simp add: expects_def wire_def)
next
  case (Cons tsdu more)
  then have "awaiting c (segments opts tsdu) tsdu (wire opts more)"
    using assms segments_facts [OF assms(1), of tsdu] by (simp add: awaiting_def wire_def)
  then show ?thesis using assms Cons by (auto simp: expects_def)
qed

lemma quiet_stream: "clean arr \<Longrightarrow> octets_of arr = [] \<Longrightarrow> stream_read want arr = (ReadPending, tl arr)"
  by (induction want arr rule: stream_read.induct) auto

lemma recv_data_nothing:
  assumes "state c = Connected" "read_state c \<in> {Idle, ReadingHeader []}" "clean (t_in (stream c))"
    and "octets_of (t_in (stream c)) = []"
  shows "recv_data c = (c\<lparr>read_state := ReadingHeader [], stream := (stream c)\<lparr>t_in := tl (t_in (stream c))\<rparr>\<rparr>, Pending)"
  using assms quiet_stream [OF assms(3,4), of 4]
  by (auto simp: recv_data_def recv_data_loop.simps [of c] read_tpkt_def read_tpkt_loop.simps Let_def)

lemma drain_expected: "tpdu_size_ok (tpdu_size opts) \<Longrightarrow> expects opts c tsdus \<Longrightarrow> drain c = map Inr tsdus"
proof (induction c arbitrary: tsdus rule: drain.induct)
  case (1 c)
  show ?case
  proof (cases tsdus)
    case Nil
    let ?c' = "c\<lparr>read_state := ReadingHeader [], stream := (stream c)\<lparr>t_in := tl (t_in (stream c))\<rparr>\<rparr>"
    have idle: "state c = Connected" "read_state c \<in> {Idle, ReadingHeader []}" "clean (t_in (stream c))"
      "octets_of (t_in (stream c)) = []" using "1.prems"(2) Nil by (auto simp: expects_def)
    note recv = recv_data_nothing [OF idle]
    have "expects opts ?c' []" using idle by (cases "t_in (stream c)") (auto simp: expects_def)
    then show ?thesis
      using "1.IH"(1) [OF recv [symmetric] refl, of "[]"] "1.prems"(1) recv Nil by (simp add: drain.simps [of c])
  next
    case (Cons tsdu more)
    then obtain segs where wait: "awaiting c segs tsdu (wire opts more)" and conn: "state c = Connected"
      and ok: "\<forall>t\<in>set more. t \<noteq> [] \<and> \<not> over_limit (max_tsdu_size c) (length t)"
      using "1.prems"(2) by (auto simp: expects_def)
    obtain c' r where recv: "recv_data c = (c', r)" by fastforce
    then have loop: "recv_data_loop c = (c', r)" using conn by (simp add: recv_data_def)
    note facts = recv_segments [OF loop wait]
    from facts consider (tsdu) "r = Ready (Inr tsdu)" "payload_buf c' = []" "read_state c' = Idle"
        "octets_of (t_in (stream c')) = wire opts more"
      | (pending) segs' where "r = Pending" "awaiting c' segs' tsdu (wire opts more)"
        "length (buffered (read_state c')) < length (dt_packets segs')" by blast
    then show ?thesis
    proof cases
      case tsdu
      then have "expects opts c' more" using facts conn ok "1.prems"(1) by (intro expects_start) simp_all
      then show ?thesis
        using "1.IH"(2) [OF recv [symmetric] tsdu(1) refl, of more] "1.prems"(1) recv tsdu(1) Cons
        by (simp add: drain.simps [of c])
    next
      case pending
      then have "t_in (stream c') \<noteq> []" by (auto simp: awaiting_def dest: arg_cong [where f = length])
      moreover have "expects opts c' tsdus" using pending facts conn ok Cons by (auto simp: expects_def)
      ultimately show ?thesis
        using "1.IH"(1) [OF recv [symmetric] pending(1), of tsdus] "1.prems"(1) recv pending(1)
        by (simp add: drain.simps [of c])
    qed
  qed
qed

section \<open>The handshake\<close>

lemma read_tpkt_prompt:
  assumes "read_state c = Idle" "clean (t_in (stream c))" "prompt (t_in (stream c))" "pdu_fits pdu"
    and "octets_of (t_in (stream c)) = packet pdu"
  shows "\<exists>arr. read_tpkt c = (c\<lparr>stream := (stream c)\<lparr>t_in := arr\<rparr>\<rparr>, Ready (Inr pdu))"
proof -
  obtain c' r where read: "read_tpkt c = (c', r)" by fastforce
  have "packet_read pdu [] (t_in (stream c)) (read_state c', t_in (stream c'), r)"
    and c': "c' = c\<lparr>read_state := read_state c', stream := (stream c)\<lparr>t_in := t_in (stream c')\<rparr>\<rparr>"
    using read_tpkt_packet [OF read] assms by simp_all
  then have "r = Ready (Inr pdu)" "read_state c' = Idle" using assms(3) by (auto simp: packet_read_def)
  moreover have "c\<lparr>read_state := Idle\<rparr> = c" using assms(1) by (cases c) simp
  ultimately have "c' = c\<lparr>stream := (stream c)\<lparr>t_in := t_in (stream c')\<rparr>\<rparr>" using c' by metis
  then show ?thesis using read \<open>r = _\<close> by metis
qed

lemma connect_fits: "7 \<le> length p \<Longrightarrow> length p \<le> 22 \<Longrightarrow> pdu_fits p"
  by (simp add: pdu_fits_def)

lemma accept_answers:
  assumes ok: "options_ok so" "options_ok co" and cr: "encode_cr co ref = Some p" "parse_cr p = Inr (ref, co)" "pdu_fits p"
    and arr: "clean arr" "prompt arr" "octets_of arr = packet p"
  shows "\<exists>arr' cc. encode_cc (so\<lparr>tpdu_size := tpdu_size_min (tpdu_size so) (tpdu_size co), tsel_dst := tsel_src co\<rparr>) 1 ref = Some cc \<and>
     accept \<lparr>t_in = arr, t_out = [], t_writes = []\<rparr> so =
       (\<lparr>stream = \<lparr>t_in = arr', t_out = packet cc, t_writes = []\<rparr>, state = Connected,
         options = so\<lparr>tpdu_size := tpdu_size_min (tpdu_size so) (tpdu_size co), tsel_dst := tsel_src co\<rparr>,
         local_ref = 1, remote_ref = ref, payload_buf = [], read_state = Idle,
         max_tsdu_size = Some DEFAULT_MAX_TSDU_SIZE\<rparr>, Ready (Inr ()))"
proof -
  let ?o = "so\<lparr>tpdu_size := tpdu_size_min (tpdu_size so) (tpdu_size co), tsel_dst := tsel_src co\<rparr>"
  let ?c = "cotp_connection_new \<lparr>t_in = arr, t_out = [], t_writes = []\<rparr> so"
  obtain arr' where read: "read_tpkt ?c = (?c\<lparr>stream := (stream ?c)\<lparr>t_in := arr'\<rparr>\<rparr>, Ready (Inr p))"
    using read_tpkt_prompt [of ?c p] arr cr(3) by (auto simp: cotp_connection_new_def)
  have "options_ok ?o" using ok by (simp add: options_ok_def)
  then obtain cc where cc: "encode_cc ?o 1 ref = Some cc" using cc_roundtrip by blast
  then show ?thesis
    using read cr(2)
    by (simp add: accept_def recv_cr_and_send_cc_def cotp_connection_new_def write_tpkt_ok Let_def)
qed

definition request_sent :: "arrival list \<Rightarrow> cotp_options \<Rightarrow> bytes \<Rightarrow> cotp_connection" where
  "request_sent arr co p =
     \<lparr>stream = \<lparr>t_in = arr, t_out = packet p, t_writes = []\<rparr>, state = ConnectSent, options = co, local_ref = 1,
      remote_ref = 0, payload_buf = [], read_state = Idle, max_tsdu_size = Some DEFAULT_MAX_TSDU_SIZE\<rparr>"

lemma send_cr_sent:
  "encode_cr co 1 = Some p \<Longrightarrow>
     send_cr (cotp_connection_new \<lparr>t_in = arr, t_out = [], t_writes = []\<rparr> co) = (request_sent arr co p, Ready (Inr ()))"
  by (simp add: send_cr_def cotp_connection_new_def write_tpkt_ok request_sent_def)

lemma connect_completes:
  assumes cr: "encode_cr co 1 = Some p" and cc: "parse_cc q = Inr (1, sz)" "pdu_fits q"
    and arr: "clean arr" "prompt arr" "octets_of arr = packet q"
  shows "\<exists>arr'. connect \<lparr>t_in = arr, t_out = [], t_writes = []\<rparr> co =
     (\<lparr>stream = \<lparr>t_in = arr', t_out = packet p, t_writes = []\<rparr>, state = Connected,
       options = co\<lparr>tpdu_size := tpdu_size_min (tpdu_size co) sz\<rparr>, local_ref = 1, remote_ref = 1, payload_buf = [],
       read_state = Idle, max_tsdu_size = Some DEFAULT_MAX_TSDU_SIZE\<rparr>, Ready (Inr ()))"
proof -
  let ?c = "request_sent arr co p"
  obtain arr' where "read_tpkt ?c = (?c\<lparr>stream := (stream ?c)\<lparr>t_in := arr'\<rparr>\<rparr>, Ready (Inr q))"
    using read_tpkt_prompt [of ?c q] arr cc(2) by (auto simp: request_sent_def)
  then show ?thesis using cc(1) cr by (simp add: connect_def send_cr_sent recv_cc_def) (simp add: request_sent_def)
qed

lemma connect_writes:
  assumes "encode_cr co 1 = Some p" "connect \<lparr>t_in = arr, t_out = [], t_writes = []\<rparr> co = (c, r)"
  shows "t_out (stream c) = packet p"
proof -
  have keeps: "t_out (stream (fst (read_tpkt d))) = t_out (stream d)" for d
    by (auto simp: read_tpkt_def Let_def split: prod.splits)
  have "recv_cc d = (c, r) \<Longrightarrow> t_out (stream c) = t_out (stream d)" for d
    using keeps [of d] by (auto simp: recv_cc_def split: prod.splits poll.splits sum.splits if_splits)
  from this [of "request_sent arr co p"] show ?thesis
    using assms by (simp add: connect_def send_cr_sent) (simp add: request_sent_def)
qed

lemma size_min_commutes:
  assumes "tpdu_size_ok a" "tpdu_size_ok b"
  shows "tpdu_size_min a (tpdu_size_min b a) = tpdu_size_min b a"
    "tpdu_bytes (tpdu_size_min b a) = min (tpdu_bytes a) (tpdu_bytes b)"
  using tpdu_bytes_inject [OF assms] by (auto simp: tpdu_size_min_def min_def)

text \<open>
  C16. The two ends of a connection agree. A client connects while a server accepts, each receiving exactly what
  the other wrote, in pieces of any size: both succeed and are connected, both use the smaller of the two proposed
  TPDU sizes, each knows the reference the other chose, and the server addresses the selector the client gave
  as its own.
\<close>

theorem handshake_agrees:
  assumes "options_ok co" "options_ok so"
    and "connect \<lparr>t_in = answer, t_out = [], t_writes = []\<rparr> co = (c, rc)"
    and "accept \<lparr>t_in = request, t_out = [], t_writes = []\<rparr> so = (s, rs)"
    and "clean request" "prompt request" "octets_of request = t_out (stream c)"
    and "clean answer" "prompt answer" "octets_of answer = t_out (stream s)"
  shows "rc = Ready (Inr ()) \<and> rs = Ready (Inr ()) \<and> state c = Connected \<and> state s = Connected \<and>
     tpdu_size (options c) = tpdu_size (options s) \<and>
     tpdu_bytes (tpdu_size (options c)) = min (tpdu_bytes (tpdu_size co)) (tpdu_bytes (tpdu_size so)) \<and>
     remote_ref c = local_ref s \<and> remote_ref s = local_ref c \<and> tsel_dst (options s) = tsel_src co"
proof -
  let ?o = "so\<lparr>tpdu_size := tpdu_size_min (tpdu_size so) (tpdu_size co), tsel_dst := tsel_src co\<rparr>"
  obtain p where p: "encode_cr co 1 = Some p" "parse_cr p = Inr (1, co)" "pdu_fits p"
    using cr_roundtrip [OF assms(1)] connect_fits by blast
  have request: "octets_of request = packet p" using connect_writes [OF p(1) assms(3)] assms(7) by simp
  obtain arr' q where q: "encode_cc ?o 1 1 = Some q"
    and accepted: "s = \<lparr>stream = \<lparr>t_in = arr', t_out = packet q, t_writes = []\<rparr>, state = Connected, options = ?o,
         local_ref = 1, remote_ref = 1, payload_buf = [], read_state = Idle,
         max_tsdu_size = Some DEFAULT_MAX_TSDU_SIZE\<rparr>" "rs = Ready (Inr ())"
    using accept_answers [OF assms(2,1) p assms(5,6) request] assms(4) by auto
  have "options_ok ?o" using assms(1,2) by (simp add: options_ok_def)
  then have q': "parse_cc q = Inr (1, tpdu_size ?o)" "pdu_fits q" using cc_roundtrip [of ?o 1 1] q connect_fits by auto
  have "octets_of answer = packet q" using assms(10) accepted by simp
  from connect_completes [OF p(1) q' assms(8,9) this] assms(3) accepted
    size_min_commutes [of "tpdu_size co" "tpdu_size so"] assms(1,2)
  show ?thesis by (auto simp: options_ok_def)
qed

section \<open>What the transport connection promises\<close>

text \<open>
  C4. TSDUs survive any fragmentation and any abandoned receive. A connected sender gives nonempty TSDUs to
  \<open>send_data\<close>; the octets it wrote reach a connected receiver in pieces of any size with any number of moments
  without data, at each of which the receive is abandoned and called again. The receiver gets exactly these TSDUs,
  whole, in order and once each, whatever TPDU size the sender negotiated, as long as each is within the receiver's
  limit.
\<close>

theorem tsdus_survive_fragmentation:
  assumes "state s = Connected" "tpdu_size_ok (tpdu_size (options s))" "t_out (stream s) = []" "t_writes (stream s) = []"
    and "state r = Connected" "read_state r = Idle" "payload_buf r = []"
    and "clean (t_in (stream r))" "octets_of (t_in (stream r)) = t_out (stream (send_all s tsdus))"
    and "\<forall>tsdu\<in>set tsdus. tsdu \<noteq> [] \<and> \<not> over_limit (max_tsdu_size r) (length tsdu)"
  shows "drain r = map Inr tsdus"
  using expects_start [of "options s" r tsdus] drain_expected [of "options s" r tsdus] send_all_out [of s tsdus] assms
  by simp

definition connection_ok :: "cotp_connection \<Rightarrow> bool" where
  "connection_ok c \<longleftrightarrow> read_state_ok (read_state c) \<and> \<not> over_limit (max_tsdu_size c) (length (payload_buf c))"

lemma read_tpkt_bounded:
  assumes "read_tpkt c = (c', r)" "read_state_ok (read_state c)"
  shows "read_state_ok (read_state c')" "r = Ready (Inr raw) \<Longrightarrow> pdu_fits raw" "r \<noteq> Ready (Inl (TsduTooLarge n l))"
    "state c' = state c" "payload_buf c' = payload_buf c" "max_tsdu_size c' = max_tsdu_size c"
proof -
  let ?rs = "if read_state c = Idle then ReadingHeader [] else read_state c"
  obtain rs arr where loop: "read_tpkt_loop ?rs (t_in (stream c)) = (rs, arr, r)"
    and c': "c' = c\<lparr>read_state := rs, stream := (stream c)\<lparr>t_in := arr\<rparr>\<rparr>"
    using assms(1) by (auto simp: read_tpkt_def Let_def split: prod.splits)
  have "read_state_ok ?rs" using assms(2) by simp
  from read_tpkt_loop_bounded [OF loop this] c'
  show "read_state_ok (read_state c')" "r = Ready (Inr raw) \<Longrightarrow> pdu_fits raw" "r \<noteq> Ready (Inl (TsduTooLarge n l))"
    "state c' = state c" "payload_buf c' = payload_buf c" "max_tsdu_size c' = max_tsdu_size c" by auto
qed

lemma parse_dt_payload: "parse_dt raw = Inr (payload, l) \<Longrightarrow> payload \<noteq> [] \<and> length raw = length payload + 3"
  by (auto simp: parse_dt_def read_byte_def split: list.splits if_splits)

lemma recv_data_loop_bounded:
  "recv_data_loop c = (c', r) \<Longrightarrow> connection_ok c \<Longrightarrow>
     connection_ok c' \<and> max_tsdu_size c' = max_tsdu_size c \<and>
     (\<forall>tsdu. r = Ready (Inr tsdu) \<longrightarrow> tsdu \<noteq> [] \<and> \<not> over_limit (max_tsdu_size c) (length tsdu) \<and> payload_buf c' = []) \<and>
     (\<forall>n l. r = Ready (Inl (TsduTooLarge n l)) \<longrightarrow>
        max_tsdu_size c = Some l \<and> l < n \<and> n \<le> l + 8189 \<and> state c' = Closed \<and> payload_buf c' = [])"
proof (induction c arbitrary: c' r rule: recv_data_loop.induct)
  case (1 c)
  obtain c1 x where read: "read_tpkt c = (c1, x)" by fastforce
  note step = read_tpkt_bounded [OF read]
  have ok1: "connection_ok c1" using "1.prems"(2) step by (simp add: connection_ok_def)
  show ?case
  proof (cases "\<exists>raw payload is_last. x = Ready (Inr raw) \<and> parse_dt raw = Inr (payload, is_last)")
    case False
    then show ?thesis
      using "1.prems" step(3,6) ok1 read read_tpkt_progress(1) [OF read]
      by (auto simp: recv_data_loop.simps [of c] connection_ok_def split: poll.splits sum.splits prod.splits)
  next
    case True
    then obtain raw payload is_last where x: "x = Ready (Inr raw)" and dt: "parse_dt raw = Inr (payload, is_last)"
      by blast
    have len: "payload \<noteq> []" "length payload \<le> 8189"
      using parse_dt_payload [OF dt] step(2) [of raw] x "1.prems"(2) by (auto simp: pdu_fits_def connection_ok_def)
    let ?c2 = "c1\<lparr>payload_buf := payload_buf c1 @ payload\<rparr>"
    show ?thesis
    proof (cases "over_limit (max_tsdu_size c1) (length (payload_buf c1 @ payload)) \<or> is_last")
      case True
      then show ?thesis
        using "1.prems" step(1,6) ok1 read x dt len
        by (auto simp: recv_data_loop.simps [of c] connection_ok_def over_limit_def Let_def split: if_splits option.splits)
    next
      case False
      then have "recv_data_loop ?c2 = (c', r)" "connection_ok ?c2"
        using "1.prems" read x dt ok1 by (simp_all add: recv_data_loop.simps [of c] connection_ok_def Let_def)
      moreover note "1.IH" [OF read [symmetric] x refl dt refl refl refl, of c' r]
      ultimately show ?thesis using False step(6) "1.prems"(2) by (auto simp: connection_ok_def)
    qed
  qed
qed

text \<open>
  C17. Memory is bounded against any peer. Whatever octets, failures and ends a stream delivers, a receive keeps
  the connection in bounds: at most the limit is reassembled and at most one packet of 8196 octets is partly read.
  A TSDU it hands over is not empty and within the limit. One that exceeds the limit is noticed within the segment
  that exceeds it, drops what was reassembled and closes the connection.
\<close>

theorem hostile_stream_bounded:
  assumes "connection_ok c" "recv_data c = (c', r)"
  shows "connection_ok c' \<and> r \<noteq> Panic \<and> max_tsdu_size c' = max_tsdu_size c \<and>
     (\<forall>tsdu. r = Ready (Inr tsdu) \<longrightarrow> tsdu \<noteq> [] \<and> \<not> over_limit (max_tsdu_size c) (length tsdu) \<and> payload_buf c' = []) \<and>
     (\<forall>n l. r = Ready (Inl (TsduTooLarge n l)) \<longrightarrow>
        max_tsdu_size c = Some l \<and> l < n \<and> n \<le> l + 8189 \<and> state c' = Closed \<and> payload_buf c' = [])"
proof (cases "state c = Connected")
  case True
  then have "recv_data_loop c = (c', r)" using assms(2) by (simp add: recv_data_def)
  from recv_data_loop_bounded [OF this assms(1)] recv_data_loop_progress [OF this] show ?thesis by simp
qed (use assms in \<open>auto simp: recv_data_def\<close>)


section \<open>Concrete instances\<close>

definition sample_connection :: "arrival list \<Rightarrow> cotp_connection" where
  "sample_connection arr =
     \<lparr>stream = \<lparr>t_in = arr, t_out = [], t_writes = []\<rparr>, state = Connected,
      options = cotp_options_default\<lparr>tpdu_size := TpduSize 7\<rparr>, local_ref = 1, remote_ref = 1, payload_buf = [],
      read_state = Idle, max_tsdu_size = Some 200\<rparr>"

definition sample_wire :: bytes where
  "sample_wire = t_out (stream (send_all (sample_connection []) [replicate 130 7, [4]]))"

lemma sample_wire_length: "5 < length sample_wire"
proof -
  have eq: "sample_wire = wire (options (sample_connection [])) [replicate 130 7, [4]]"
    unfolding sample_wire_def by (subst send_all_out) (simp_all add: sample_connection_def)
  have len: "length sample_wire \<ge> length (dt_packets (segments (options (sample_connection [])) (replicate 130 7)))"
    unfolding eq by (simp add: wire_def)
  have "segments (options (sample_connection [])) (replicate 130 7) \<noteq> []"
    by (simp add: segments_facts(3) sample_connection_def tpdu_size_ok_def size_bound_defs)
  then obtain seg segs where "segments (options (sample_connection [])) (replicate 130 7) = seg # segs"
    by (auto simp: neq_Nil_conv)
  with len show ?thesis by (simp add: packet_def encode_dt_def)
qed

theorem tsdus_survive_fragmentation_witness:
  "drain (sample_connection [Octets (take 5 sample_wire), Quiet, Octets (drop 5 sample_wire)]) =
     [Inr (replicate 130 7), Inr [4]]"
proof -
  let ?r = "sample_connection [Octets (take 5 sample_wire), Quiet, Octets (drop 5 sample_wire)]"
  have ne: "sample_wire \<noteq> []" using sample_wire_length by auto
  have "drain ?r = map Inr [replicate 130 7, [4]]"
  proof (rule tsdus_survive_fragmentation [of "sample_connection []"])
    show "tpdu_size_ok (tpdu_size (options (sample_connection [])))"
      by (simp add: sample_connection_def tpdu_size_ok_def size_bound_defs)
    show "clean (t_in (stream ?r))" using sample_wire_length ne by (simp add: sample_connection_def)
    show "octets_of (t_in (stream ?r)) = t_out (stream (send_all (sample_connection []) [replicate 130 7, [4]]))"
      by (simp add: sample_connection_def sample_wire_def)
  qed (simp_all add: sample_connection_def over_limit_def)
  then show ?thesis by simp
qed

definition sample_answer :: "arrival list" where
  "sample_answer = [Octets [3, 0, 0], Octets [14, 9, 0xD0, 0, 1, 0, 1, 0, 0xC0, 1, 10]]"

definition sample_request :: "arrival list" where
  "sample_request = [Octets [3, 0, 0, 14, 9], Octets [0xE0, 0, 0, 0, 1, 0, 0xC0, 1, 13]]"

definition sample_server :: cotp_options where
  "sample_server = cotp_options_default\<lparr>tpdu_size := TpduSize 10\<rparr>"

lemma sample_options: "options_ok cotp_options_default" "options_ok sample_server"
  by (simp_all add: options_ok_def cotp_options_default_def sample_server_def tpdu_size_ok_def size_bound_defs
      tpdu_size_default_def)

lemma sample_sizes: "tpdu_bytes (tpdu_size cotp_options_default) = 8192" "tpdu_bytes (tpdu_size sample_server) = 1024"
  by (simp_all add: sample_server_def cotp_options_default_def tpdu_size_default_def size_bound_defs tpdu_bytes_def
      push_bit_eq_mult)

lemma sample_cr: "encode_cr cotp_options_default 1 = Some [9, 0xE0, 0, 0, 0, 1, 0, 0xC0, 1, 13]"
  by (simp add: encode_cr_def encode_options_def encode_tsap_def cotp_options_default_def tselector_default_def
      tpdu_size_default_def size_bound_defs option_code_defs tpdu_type_defs u16_to_be_def be_of_nat_2)

lemma sample_min:
  "sample_server\<lparr>tpdu_size := tpdu_size_min (tpdu_size sample_server) (tpdu_size cotp_options_default),
     tsel_dst := tsel_src cotp_options_default\<rparr> = sample_server"
  by (simp add: sample_server_def cotp_options_default_def tpdu_size_min_def tpdu_bytes_def tpdu_size_default_def
      size_bound_defs push_bit_eq_mult)

lemma sample_cc: "encode_cc sample_server 1 1 = Some [9, 0xD0, 0, 1, 0, 1, 0, 0xC0, 1, 10]"
  by (simp add: encode_cc_def encode_options_def encode_tsap_def cotp_options_default_def tselector_default_def
      sample_server_def option_code_defs tpdu_type_defs u16_to_be_def be_of_nat_2)

lemma sample_packets:
  "octets_of sample_request = packet [9, 0xE0, 0, 0, 0, 1, 0, 0xC0, 1, 13]"
  "octets_of sample_answer = packet [9, 0xD0, 0, 1, 0, 1, 0, 0xC0, 1, 10]"
  by (simp_all add: sample_request_def sample_answer_def packet_def tpkt_encode_def tpkt_header_new_def
      TPKT_HEADER_LEN_def TPKT_VERSION_def TPKT_RESERVED_def u16_to_be_def be_of_nat_2)

theorem handshake_agrees_witness:
  "tpdu_bytes (tpdu_size (options (fst (connect \<lparr>t_in = sample_answer, t_out = [], t_writes = []\<rparr> cotp_options_default)))) = 1024"
proof -
  let ?c = "connect \<lparr>t_in = sample_answer, t_out = [], t_writes = []\<rparr> cotp_options_default"
  let ?s = "accept \<lparr>t_in = sample_request, t_out = [], t_writes = []\<rparr> sample_server"
  have pieces: "clean sample_request" "prompt sample_request" "clean sample_answer" "prompt sample_answer"
    by (simp_all add: sample_request_def sample_answer_def)
  have request: "octets_of sample_request = t_out (stream (fst ?c))"
    using connect_writes [OF sample_cr, of sample_answer "fst ?c" "snd ?c"] sample_packets(1) by simp
  have "pdu_fits [9, 0xE0, 0, 0, 0, 1, 0, 0xC0, 1, 13 :: u8]" by (simp add: pdu_fits_def)
  moreover have "parse_cr [9, 0xE0, 0, 0, 0, 1, 0, 0xC0, 1, 13] = Inr (1, cotp_options_default)"
    using cr_roundtrip [OF sample_options(1), of 1] sample_cr by auto
  ultimately have "t_out (stream (fst ?s)) = packet [9, 0xD0, 0, 1, 0, 1, 0, 0xC0, 1, 10]"
    using accept_answers [OF sample_options(2,1) sample_cr _ _ pieces(1,2) sample_packets(1)] sample_cc
    unfolding sample_min by auto
  then have answer: "octets_of sample_answer = t_out (stream (fst ?s))" using sample_packets(2) by simp
  have "tpdu_bytes (tpdu_size (options (fst ?c))) =
      min (tpdu_bytes (tpdu_size cotp_options_default)) (tpdu_bytes (tpdu_size sample_server))"
    using handshake_agrees [OF sample_options prod.collapse [symmetric] prod.collapse [symmetric]
        pieces(1,2) request pieces(3,4) answer] by blast
  then show ?thesis by (simp only: sample_sizes) simp
qed

lemma sample_connection_ok: "connection_ok (sample_connection arr)"
  by (simp add: connection_ok_def sample_connection_def over_limit_def)

theorem hostile_stream_bounded_witness:
  "connection_ok (fst (recv_data (sample_connection [Octets [3, 0, 0, 9, 2, 0xF0], Octets [0, 1, 2, 3], Octets []])))"
  using hostile_stream_bounded [OF sample_connection_ok prod.collapse [symmetric]] by blast

end
