(* ===== verification/Setting_Groups.thy ===== *)
theory Setting_Groups
  imports Convert
begin

text \<open>
  The setting group control block of crates/iec61850-server/src/setting_groups.rs.

  A data attribute is the cell that holds its value, an address of the store \<open>cells\<close>: attributes share a value
  exactly when they have the same address, which is the \<open>Arc::ptr_eq\<close> of the code. Writing a setting stores it
  in the cell; the update path a server installs does so too, for a value of the attribute's type, and reports the
  change. Filling the settings from the model tree (\<open>from_model\<close>, \<open>collect_settings\<close>) is not modelled: the leaves
  are given.

  The operations of the control block release their locks around the application's handler and around the writes
  of a load, so each is given by its critical sections, in the order the code has them, and by their composition.
  The answer of a handler and the clock readings are arguments. An \<open>Instant\<close> is a number of nanoseconds that a
  \<open>u64\<close> of seconds and a nanosecond can hold; a deadline beyond it is \<open>None\<close>, as \<open>checked_add\<close> gives it.
\<close>

type_synonym association = u64
type_synonym cell = nat
type_synonym store = "cell \<Rightarrow> mms_value"

section \<open>The runtime of one logical device\<close>

datatype buffer = Active | Edit

record load =
  ld_buffer :: buffer
  ld_ticket :: u64
  ld_writes :: "(cell \<times> mms_value) list"

record setting_leaf =
  sl_active :: "cell option"
  sl_edit :: "cell option"
  sl_groups :: "mms_value list"

definition holds :: "setting_leaf \<Rightarrow> cell \<Rightarrow> bool" where
  "holds leaf da \<longleftrightarrow> sl_active leaf = Some da \<or> sl_edit leaf = Some da"

record sg_state =
  act_sg :: u8
  edit_sg :: u8
  last_act_tm_ms :: u64
  editing_conn :: "association option"
  reservation_deadline :: "nat option"
  session :: u64

record edit_session =
  es_conn_id :: association
  es_number :: u64

definition is_current :: "sg_state \<Rightarrow> edit_session \<Rightarrow> nat \<Rightarrow> bool" where
  "is_current s es now \<longleftrightarrow>
     edit_sg s > 0 \<and> editing_conn s = Some (es_conn_id es) \<and> session s = es_number es \<and>
     (case reservation_deadline s of None \<Rightarrow> True | Some d \<Rightarrow> now < d)"

record sg_runtime =
  num_of_sg :: u8
  has_resv_tms :: bool
  default_resv_tms_s :: u16
  sg_state :: sg_state
  settings :: "setting_leaf list"
  active_loads :: u64
  edit_loads :: u64

record sgcb_snapshot =
  sn_num_of_sg :: u8
  sn_act_sg :: u8
  sn_edit_sg :: u8
  sn_cnf_edit :: bool
  sn_last_act_tm_ms :: u64
  sn_resv_tms_s :: "u16 option"

definition with_writer :: "u64 \<Rightarrow> u8 \<Rightarrow> u8 \<Rightarrow> bool \<Rightarrow> u16 \<Rightarrow> sg_runtime" where
  "with_writer now_ms n a has_resv resv =
     \<lparr>num_of_sg = n, has_resv_tms = has_resv, default_resv_tms_s = resv,
      sg_state = \<lparr>act_sg = a, edit_sg = 0, last_act_tm_ms = now_ms, editing_conn = None, reservation_deadline = None,
        session = 0\<rparr>,
      settings = [], active_loads = 0, edit_loads = 0\<rparr>"

definition snapshot :: "sg_runtime \<Rightarrow> sgcb_snapshot" where
  "snapshot rt =
     (let s = sg_state rt in
      \<lparr>sn_num_of_sg = num_of_sg rt, sn_act_sg = act_sg s, sn_edit_sg = edit_sg s, sn_cnf_edit = False,
       sn_last_act_tm_ms = last_act_tm_ms s,
       sn_resv_tms_s = (if has_resv_tms rt then Some (default_resv_tms_s rt) else None)\<rparr>)"

section \<open>Loads\<close>

fun load_count :: "sg_runtime \<Rightarrow> buffer \<Rightarrow> u64" where
  "load_count rt Active = active_loads rt"
| "load_count rt Edit = edit_loads rt"

fun count_load :: "sg_runtime \<Rightarrow> buffer \<Rightarrow> sg_runtime" where
  "count_load rt Active = rt\<lparr>active_loads := active_loads rt + 1\<rparr>"
| "count_load rt Edit = rt\<lparr>edit_loads := edit_loads rt + 1\<rparr>"

fun leaf_cell :: "buffer \<Rightarrow> setting_leaf \<Rightarrow> cell option" where
  "leaf_cell Active leaf = sl_active leaf"
| "leaf_cell Edit leaf = sl_edit leaf"

definition leaf_write :: "buffer \<Rightarrow> u8 \<Rightarrow> setting_leaf \<Rightarrow> (cell \<times> mms_value) option" where
  "leaf_write b grp leaf =
     (case leaf_cell b leaf of
        None \<Rightarrow> None
      | Some da \<Rightarrow>
          if unat grp - 1 < length (sl_groups leaf) then Some (da, sl_groups leaf ! (unat grp - 1)) else None)"

definition group_writes :: "setting_leaf list \<Rightarrow> buffer \<Rightarrow> u8 \<Rightarrow> (cell \<times> mms_value) list" where
  "group_writes leaves b grp = List.map_filter (leaf_write b grp) leaves"

text \<open>The counters are atomic and wrap.\<close>

definition prepare_load :: "sg_runtime \<Rightarrow> buffer \<Rightarrow> u8 \<Rightarrow> sg_runtime \<times> load" where
  "prepare_load rt b grp =
     (count_load rt b,
      \<lparr>ld_buffer = b, ld_ticket = load_count rt b + 1, ld_writes = group_writes (settings rt) b grp\<rparr>)"

definition write_setting :: "store \<Rightarrow> cell \<times> mms_value \<Rightarrow> store" where
  "write_setting cells w = cells(fst w := snd w)"

definition is_latest :: "sg_runtime \<Rightarrow> load \<Rightarrow> bool" where
  "is_latest rt l \<longleftrightarrow> load_count rt (ld_buffer l) = ld_ticket l"

definition run_load :: "sg_runtime \<Rightarrow> load \<Rightarrow> store \<Rightarrow> store" where
  "run_load rt l cells = (if is_latest rt l then foldl write_setting cells (ld_writes l) else cells)"

section \<open>Sessions\<close>

definition end_session :: "sg_runtime \<Rightarrow> sg_runtime" where
  "end_session rt =
     rt\<lparr>sg_state := (sg_state rt)\<lparr>edit_sg := 0, editing_conn := None, reservation_deadline := None\<rparr>\<rparr>"

definition tick_reservation_at :: "sg_runtime \<Rightarrow> nat \<Rightarrow> sg_runtime \<times> association option" where
  "tick_reservation_at rt now =
     (let s = sg_state rt in
      if editing_conn s \<noteq> None \<and> (case reservation_deadline s of None \<Rightarrow> False | Some d \<Rightarrow> now \<ge> d)
      then (end_session rt, editing_conn s) else (rt, None))"

definition expire_stale_session_if_any :: "sg_runtime \<Rightarrow> nat \<Rightarrow> sg_runtime" where
  "expire_stale_session_if_any rt now = fst (tick_reservation_at rt now)"

definition release_edit_session_for_conn :: "sg_runtime \<Rightarrow> association \<Rightarrow> sg_runtime" where
  "release_edit_session_for_conn rt conn =
     (if editing_conn (sg_state rt) = Some conn then end_session rt else rt)"

definition edit_session_of :: "sg_runtime \<Rightarrow> nat \<Rightarrow> association \<Rightarrow> sg_runtime \<times> edit_session option" where
  "edit_session_of rt now conn =
     (let rt = expire_stale_session_if_any rt now; s = sg_state rt
      in (rt, if edit_sg s > 0 \<and> editing_conn s = Some conn
              then Some \<lparr>es_conn_id = conn, es_number = session s\<rparr> else None))"

definition is_edit_session_owner :: "sg_runtime \<Rightarrow> nat \<Rightarrow> association \<Rightarrow> bool" where
  "is_edit_session_owner rt now conn = (snd (edit_session_of rt now conn) \<noteq> None)"

definition hold_edit_session :: "sg_runtime \<Rightarrow> edit_session \<Rightarrow> nat \<Rightarrow> bool" where
  "hold_edit_session rt es now = is_current (sg_state rt) es now"

section \<open>SelectActiveSG\<close>

definition out_of_range :: "sg_runtime \<Rightarrow> u8 \<Rightarrow> bool" where
  "out_of_range rt grp \<longleftrightarrow> grp < 1 \<or> grp > num_of_sg rt"

text \<open>The section of \<open>activate\<close> under both locks; the load it takes is run once they are released.\<close>

definition activate_section :: "sg_runtime \<Rightarrow> u64 \<Rightarrow> u8 \<Rightarrow> sg_runtime \<times> load" where
  "activate_section rt now_ms grp =
     prepare_load (rt\<lparr>sg_state := (sg_state rt)\<lparr>act_sg := grp, last_act_tm_ms := now_ms\<rparr>\<rparr>) Active grp"

definition activate :: "sg_runtime \<Rightarrow> store \<Rightarrow> u64 \<Rightarrow> u8 \<Rightarrow> sg_runtime \<times> store" where
  "activate rt cells now_ms grp =
     (case activate_section rt now_ms grp of (rt, l) \<Rightarrow> (rt, run_load rt l cells))"

definition try_select_active_sg ::
    "sg_runtime \<Rightarrow> store \<Rightarrow> u64 \<Rightarrow> bool \<Rightarrow> u8 \<Rightarrow> (sg_runtime \<times> store) \<times> (data_access_error + unit)" where
  "try_select_active_sg rt cells now_ms allowed new_act_sg =
     (if out_of_range rt new_act_sg then ((rt, cells), Inl ObjectValueInvalid)
      else if \<not> allowed then ((rt, cells), Inl ObjectAccessDenied)
      else (activate rt cells now_ms new_act_sg, Inr ()))"

definition force_active_sg ::
    "sg_runtime \<Rightarrow> store \<Rightarrow> u64 \<Rightarrow> u8 \<Rightarrow> (sg_runtime \<times> store) \<times> (data_access_error + unit)" where
  "force_active_sg rt cells now_ms new_act_sg =
     (if out_of_range rt new_act_sg then ((rt, cells), Inl ObjectValueInvalid)
      else (activate rt cells now_ms new_act_sg, Inr ()))"

section \<open>SelectEditSG\<close>

definition held_by_another :: "sg_runtime \<Rightarrow> association \<Rightarrow> bool" where
  "held_by_another rt conn =
     (case editing_conn (sg_state rt) of None \<Rightarrow> False | Some owner \<Rightarrow> owner \<noteq> conn)"

text \<open>
  Up to the handler: \<open>Inr True\<close> asks it, \<open>Inr False\<close> is a cancellation, which is complete. \<open>edit_open\<close> is the
  section behind the handler.
\<close>

definition edit_begin :: "sg_runtime \<Rightarrow> nat \<Rightarrow> u8 \<Rightarrow> association \<Rightarrow> sg_runtime \<times> (data_access_error + bool)" where
  "edit_begin rt now new_edit_sg conn =
     (if new_edit_sg > num_of_sg rt then (rt, Inl ObjectValueInvalid)
      else let rt = expire_stale_session_if_any rt now in
        if held_by_another rt conn then (rt, Inl TemporarilyUnavailable)
        else if new_edit_sg > 0 then (rt, Inr True)
        else (end_session rt, Inr False))"

definition instant_add :: "nat \<Rightarrow> nat \<Rightarrow> nat option" where
  "instant_add now d = (if now + d < 2 ^ 64 * 10 ^ 9 then Some (now + d) else None)"

definition edit_open :: "sg_runtime \<Rightarrow> nat \<Rightarrow> u8 \<Rightarrow> association \<Rightarrow> sg_runtime \<times> (data_access_error + load)" where
  "edit_open rt now new_edit_sg conn =
     (if held_by_another rt conn then (rt, Inl TemporarilyUnavailable)
      else let s = sg_state rt;
               rt = rt\<lparr>sg_state := s\<lparr>edit_sg := new_edit_sg, editing_conn := Some conn, session := session s + 1,
                      reservation_deadline := instant_add now (unat (default_resv_tms_s rt) * 10 ^ 9)\<rparr>\<rparr>
        in case prepare_load rt Edit new_edit_sg of (rt, l) \<Rightarrow> (rt, Inr l))"

definition try_edit_sg ::
    "sg_runtime \<Rightarrow> store \<Rightarrow> nat \<Rightarrow> bool \<Rightarrow> nat \<Rightarrow> u8 \<Rightarrow> association \<Rightarrow> (sg_runtime \<times> store) \<times> (data_access_error + unit)" where
  "try_edit_sg rt cells now allowed now' new_edit_sg conn =
     (case edit_begin rt now new_edit_sg conn of
        (rt, Inl e) \<Rightarrow> ((rt, cells), Inl e)
      | (rt, Inr False) \<Rightarrow> ((rt, cells), Inr ())
      | (rt, Inr True) \<Rightarrow>
          if \<not> allowed then ((rt, cells), Inl ObjectAccessDenied)
          else case edit_open rt now' new_edit_sg conn of
            (rt, Inl e) \<Rightarrow> ((rt, cells), Inl e)
          | (rt, Inr l) \<Rightarrow> ((rt, run_load rt l cells), Inr ()))"

section \<open>ConfirmEditSGValues\<close>

definition confirm_begin :: "sg_runtime \<Rightarrow> nat \<Rightarrow> bool \<Rightarrow> association \<Rightarrow> sg_runtime \<times> (data_access_error + u8 \<times> u64)" where
  "confirm_begin rt now cnf_edit_value conn =
     (if \<not> cnf_edit_value then (rt, Inl ObjectValueInvalid)
      else let rt = expire_stale_session_if_any rt now; s = sg_state rt in
        if edit_sg s = 0 then (rt, Inl ObjectAccessDenied)
        else if editing_conn s \<noteq> Some conn then (rt, Inl ObjectAccessDenied)
        else (rt, Inr (edit_sg s, session s)))"

definition store_leaf :: "store \<Rightarrow> nat \<Rightarrow> setting_leaf \<Rightarrow> setting_leaf" where
  "store_leaf cells index leaf =
     (case sl_edit leaf of
        None \<Rightarrow> leaf
      | Some da \<Rightarrow>
          if index < length (sl_groups leaf) then leaf\<lparr>sl_groups := (sl_groups leaf)[index := cells da]\<rparr> else leaf)"

definition confirm_commit ::
    "sg_runtime \<Rightarrow> store \<Rightarrow> u8 \<Rightarrow> u64 \<Rightarrow> association \<Rightarrow> sg_runtime \<times> (data_access_error + load option)" where
  "confirm_commit rt cells grp number conn =
     (let s = sg_state rt in
      if edit_sg s \<noteq> grp \<or> editing_conn s \<noteq> Some conn \<or> session s \<noteq> number then (rt, Inl ObjectAccessDenied)
      else let rt = end_session rt;
               rt = rt\<lparr>settings := map (store_leaf cells (unat grp - 1)) (settings rt)\<rparr>
        in if grp = act_sg s then (case prepare_load rt Active (act_sg s) of (rt, l) \<Rightarrow> (rt, Inr (Some l)))
           else (rt, Inr None))"

definition try_confirm_edit_sg ::
    "sg_runtime \<Rightarrow> store \<Rightarrow> nat \<Rightarrow> bool \<Rightarrow> bool \<Rightarrow> association \<Rightarrow> (sg_runtime \<times> store) \<times> (data_access_error + unit)" where
  "try_confirm_edit_sg rt cells now allowed cnf_edit_value conn =
     (case confirm_begin rt now cnf_edit_value conn of
        (rt, Inl e) \<Rightarrow> ((rt, cells), Inl e)
      | (rt, Inr (grp, number)) \<Rightarrow>
          if \<not> allowed then ((rt, cells), Inl ObjectAccessDenied)
          else case confirm_commit rt cells grp number conn of
            (rt, Inl e) \<Rightarrow> ((rt, cells), Inl e)
          | (rt, Inr None) \<Rightarrow> ((rt, cells), Inr ())
          | (rt, Inr (Some l)) \<Rightarrow> ((rt, run_load rt l cells), Inr ()))"

section \<open>Values of a group\<close>

definition group_value :: "sg_runtime \<Rightarrow> u8 \<Rightarrow> cell \<Rightarrow> mms_value option" where
  "group_value rt grp da =
     (if grp = 0 then None
      else case find (\<lambda>leaf. holds leaf da) (settings rt) of
        None \<Rightarrow> None
      | Some leaf \<Rightarrow>
          if unat grp - 1 < length (sl_groups leaf) then Some (sl_groups leaf ! (unat grp - 1)) else None)"

primrec update_first :: "('a \<Rightarrow> bool) \<Rightarrow> ('a \<Rightarrow> 'a) \<Rightarrow> 'a list \<Rightarrow> 'a list" where
  "update_first P f [] = []"
| "update_first P f (x # xs) = (if P x then f x # xs else x # update_first P f xs)"

definition set_group_section ::
    "sg_runtime \<Rightarrow> u8 \<Rightarrow> cell \<Rightarrow> mms_value \<Rightarrow> sg_runtime \<times> (data_access_error + load option)" where
  "set_group_section rt grp da v =
     (if out_of_range rt grp then (rt, Inl ObjectValueInvalid)
      else case find (\<lambda>leaf. holds leaf da) (settings rt) of
        None \<Rightarrow> (rt, Inl ObjectNonExistent)
      | Some leaf \<Rightarrow>
          let index = unat grp - 1 in
          if index \<ge> length (sl_groups leaf) then (rt, Inl ObjectNonExistent)
          else if \<not> same_variant (sl_groups leaf ! index) v then (rt, Inl TypeInconsistent)
          else let rt = rt\<lparr>settings :=
                   update_first (\<lambda>leaf. holds leaf da) (\<lambda>leaf. leaf\<lparr>sl_groups := (sl_groups leaf)[index := v]\<rparr>) (settings rt)\<rparr>
            in if grp = sn_act_sg (snapshot rt)
               then (case prepare_load rt Active grp of (rt, l) \<Rightarrow> (rt, Inr (Some l)))
               else (rt, Inr None))"

definition set_group_value ::
    "sg_runtime \<Rightarrow> store \<Rightarrow> u8 \<Rightarrow> cell \<Rightarrow> mms_value \<Rightarrow> (sg_runtime \<times> store) \<times> (data_access_error + unit)" where
  "set_group_value rt cells grp da v =
     (case set_group_section rt grp da v of
        (rt, Inl e) \<Rightarrow> ((rt, cells), Inl e)
      | (rt, Inr None) \<Rightarrow> ((rt, cells), Inr ())
      | (rt, Inr (Some l)) \<Rightarrow> ((rt, run_load rt l cells), Inr ()))"

section \<open>The registry\<close>

text \<open>
  The runtimes by domain, in the order the hash map iterates them. The domains are distinct.
\<close>

record sg_registry =
  rg_inner :: "(string \<times> sg_runtime) list"
  rg_time_quality :: u8

definition lookup :: "sg_registry \<Rightarrow> string \<Rightarrow> sg_runtime option" where
  "lookup reg domain = map_of (rg_inner reg) domain"

definition set_runtime :: "sg_registry \<Rightarrow> string \<Rightarrow> sg_runtime \<Rightarrow> sg_registry" where
  "set_runtime reg domain rt =
     reg\<lparr>rg_inner := map (\<lambda>(d, rt'). (d, if d = domain then rt else rt')) (rg_inner reg)\<rparr>"

definition tick_reservations_at :: "sg_registry \<Rightarrow> nat \<Rightarrow> sg_registry \<times> (string \<times> association) list" where
  "tick_reservations_at reg now =
     (reg\<lparr>rg_inner := map (\<lambda>(d, rt). (d, fst (tick_reservation_at rt now))) (rg_inner reg)\<rparr>,
      List.map_filter (\<lambda>(d, rt). map_option (Pair d) (snd (tick_reservation_at rt now))) (rg_inner reg))"

definition release_all_for_conn :: "sg_registry \<Rightarrow> association \<Rightarrow> sg_registry" where
  "release_all_for_conn reg conn =
     reg\<lparr>rg_inner := map (\<lambda>(d, rt). (d, release_edit_session_for_conn rt conn)) (rg_inner reg)\<rparr>"

section \<open>Reading and writing the control block\<close>

datatype sgcb_field = Whole | NumOfSg | ActSg | EditSg | CnfEdit | LActTm | ResvTms

definition from_leaf_name :: "string \<Rightarrow> sgcb_field option" where
  "from_leaf_name s =
     map_of [(''NumOfSG'', NumOfSg), (''ActSG'', ActSg), (''EditSG'', EditSg), (''CnfEdit'', CnfEdit),
       (''LActTm'', LActTm), (''ResvTms'', ResvTms)] s"

text \<open>\<open>str::split\<close> with a character: the pieces between its occurrences.\<close>

fun split_at :: "char \<Rightarrow> string \<Rightarrow> string list" where
  "split_at c [] = [[]]"
| "split_at c (x # xs) =
     (if x = c then [] # split_at c xs else case split_at c xs of [] \<Rightarrow> [[x]] | p # ps \<Rightarrow> (x # p) # ps)"

definition extract_sgcb_target :: "object_name \<Rightarrow> (string \<times> string \<times> sgcb_field) option" where
  "extract_sgcb_target name =
     (case name of
        DomainSpecific domain item_id \<Rightarrow>
          (let parts = split_at CHR ''$'' item_id in
           if length parts < 3 \<or> length parts > 4 then None
           else if parts ! 0 \<noteq> ''LLN0'' \<or> parts ! 1 \<noteq> ''SP'' \<or> parts ! 2 \<noteq> ''SGCB'' then None
           else if length parts = 3 then Some (domain, parts ! 0, Whole)
           else map_option (\<lambda>field. (domain, parts ! 0, field)) (from_leaf_name (parts ! 3)))
      | _ \<Rightarrow> None)"

definition sg_ms_to_utc_time :: "u64 \<Rightarrow> u8 \<Rightarrow> array8" where
  "sg_ms_to_utc_time ms quality =
     (let secs = ucast (ms div 1000) :: u32;
          frac24 = ucast ((ms mod 1000) * push_bit 24 1 div 1000) :: u32
      in case u32_to_be secs of
           [a, b, c, d] \<Rightarrow>
             Array8 a b c d (ucast (drop_bit 16 frac24 AND 0xff)) (ucast (drop_bit 8 frac24 AND 0xff)) (ucast (frac24 AND 0xff)) quality)"

definition snapshot_to_struct :: "sgcb_snapshot \<Rightarrow> u8 \<Rightarrow> mms_data" where
  "snapshot_to_struct snap q =
     DataStructure
       ([DataUnsigned (ucast (sn_num_of_sg snap)), DataUnsigned (ucast (sn_act_sg snap)),
         DataUnsigned (ucast (sn_edit_sg snap)), DataBoolean (sn_cnf_edit snap),
         DataUtcTime (sg_ms_to_utc_time (sn_last_act_tm_ms snap) q)] @
        (case sn_resv_tms_s snap of None \<Rightarrow> [] | Some resv \<Rightarrow> [DataUnsigned (ucast resv)]))"

definition handle_sgcb_read :: "sg_registry \<Rightarrow> string \<Rightarrow> sgcb_field \<Rightarrow> access_result" where
  "handle_sgcb_read reg domain field =
     (case lookup reg domain of
        None \<Rightarrow> Failure ObjectNonExistent
      | Some rt \<Rightarrow>
          (let snap = snapshot rt; q = rg_time_quality reg in
           case field of
             Whole \<Rightarrow> Success (snapshot_to_struct snap q)
           | NumOfSg \<Rightarrow> Success (DataUnsigned (ucast (sn_num_of_sg snap)))
           | ActSg \<Rightarrow> Success (DataUnsigned (ucast (sn_act_sg snap)))
           | EditSg \<Rightarrow> Success (DataUnsigned (ucast (sn_edit_sg snap)))
           | CnfEdit \<Rightarrow> Success (DataBoolean (sn_cnf_edit snap))
           | LActTm \<Rightarrow> Success (DataUtcTime (sg_ms_to_utc_time (sn_last_act_tm_ms snap) q))
           | ResvTms \<Rightarrow>
               (case sn_resv_tms_s snap of
                  Some v \<Rightarrow> Success (DataUnsigned (ucast v))
                | None \<Rightarrow> Failure ObjectNonExistent)))"

definition unsigned_to_u8 :: "mms_data \<Rightarrow> u8 option" where
  "unsigned_to_u8 d =
     (case d of
        DataUnsigned v \<Rightarrow> if v \<le> 255 then Some (ucast v) else None
      | DataInteger v \<Rightarrow> if 0 \<le> sint v \<and> sint v \<le> 255 then Some (ucast v) else None
      | _ \<Rightarrow> None)"

fun write_answer :: "data_access_error + unit \<Rightarrow> write_outcome" where
  "write_answer (Inl e) = WriteFailure e"
| "write_answer (Inr u) = WriteSuccess"

text \<open>
  What a write depends on besides the registry and the cells: the wall clock, the two readings of the monotonic
  clock and the answer of the handler.
\<close>

record surroundings =
  now_ms :: u64
  entry_now :: nat
  locked_now :: nat
  allowed :: bool

definition handle_sgcb_write ::
    "sg_registry \<Rightarrow> store \<Rightarrow> surroundings \<Rightarrow> string \<Rightarrow> sgcb_field \<Rightarrow> mms_data \<Rightarrow> association \<Rightarrow>
     (sg_registry \<times> store) \<times> write_outcome" where
  "handle_sgcb_write reg cells env domain field d conn =
     (case lookup reg domain of
        None \<Rightarrow> ((reg, cells), WriteFailure ObjectNonExistent)
      | Some rt \<Rightarrow>
          (let finish = (\<lambda>((rt, cells), r). ((set_runtime reg domain rt, cells), write_answer r)) in
           case field of
             ActSg \<Rightarrow>
               (case unsigned_to_u8 d of
                  None \<Rightarrow> ((reg, cells), WriteFailure TypeInconsistent)
                | Some v \<Rightarrow> finish (try_select_active_sg rt cells (now_ms env) (allowed env) v))
           | EditSg \<Rightarrow>
               (case unsigned_to_u8 d of
                  None \<Rightarrow> ((reg, cells), WriteFailure TypeInconsistent)
                | Some v \<Rightarrow> finish (try_edit_sg rt cells (entry_now env) (allowed env) (locked_now env) v conn))
           | CnfEdit \<Rightarrow>
               (case d of
                  DataBoolean b \<Rightarrow> finish (try_confirm_edit_sg rt cells (entry_now env) (allowed env) b conn)
                | _ \<Rightarrow> ((reg, cells), WriteFailure TypeInconsistent))
           | _ \<Rightarrow> ((reg, cells), WriteFailure ObjectAccessDenied)))"

end
