(* ===== verification/Setting_Interleaving.thy ===== *)
theory Setting_Interleaving
  imports Setting_Groups
begin

text \<open>
  The setting group operations of crates/iec61850-server/src/setting_groups.rs as several associations and the
  application run them at the same time. An operation is between two of its critical sections while its agent is
  at one of the \<open>activity\<close> points; the sections of different agents interleave in any order. An association has one
  request at a time in progress. Each event brings its own reading of the clock, in no order, so that a request whose
  first section expires a session and whose second looks at the owner is one step: what another agent does between
  the two is a run with a \<open>TickEvent\<close> first. A commit reads the edit attributes while it keeps the lock of the
  settings, which opening a session needs, and stands for one step too.

  The application does not write the attributes of the settings past the control block. An FC=SE write of a client
  is admitted and stored as crates/iec61850-server/src/service/write.rs does it: to the session the association
  holds when it arrives, and only while that session is still the open one.
\<close>

section \<open>Agents and events\<close>

datatype agent = Client association | Application nat

datatype request =
    SelectActive u8
  | EditRequest u8
  | Confirm bool
  | WriteSettings "(cell \<times> mms_value) list"
  | ForceActive u8
  | SetValue u8 cell mms_value

text \<open>
  \<open>Selecting\<close>, \<open>Opening\<close>, \<open>Committing\<close> and \<open>SeWriting\<close>: the handler is running. \<open>Loading\<close>: the load is taken and
  waits for the lock of the loads. \<open>Storing\<close>: it holds the lock and has these writes left.
\<close>

datatype activity =
    NotRunning
  | Selecting u8
  | Opening u8
  | Committing u8 u64
  | SeWriting edit_session "(cell \<times> mms_value) list"
  | Loading load
  | Storing load "(cell \<times> mms_value) list"

record sg_config =
  cf_rt :: sg_runtime
  cf_cells :: store
  cf_running :: "agent \<Rightarrow> activity"
  cf_lock :: "agent option"

datatype sg_event =
    Begin agent request nat u64
  | Proceed agent bool nat u64
  | TickEvent nat
  | Disconnect association

definition cells_of :: "buffer \<Rightarrow> setting_leaf list \<Rightarrow> cell list" where
  "cells_of b leaves = List.map_filter (leaf_cell b) leaves"

definition at_point :: "sg_config \<Rightarrow> agent \<Rightarrow> sg_runtime \<Rightarrow> activity \<Rightarrow> sg_config" where
  "at_point c ag rt act = c\<lparr>cf_rt := rt, cf_running := (cf_running c)(ag := act)\<rparr>"

fun after_section :: "data_access_error + load option \<Rightarrow> activity" where
  "after_section (Inl e) = NotRunning"
| "after_section (Inr None) = NotRunning"
| "after_section (Inr (Some l)) = Loading l"

section \<open>Beginning a request\<close>

fun begin_request :: "sg_config \<Rightarrow> agent \<Rightarrow> request \<Rightarrow> nat \<Rightarrow> u64 \<Rightarrow> sg_config" where
  "begin_request c (Client conn) (SelectActive g) now ms =
     (if out_of_range (cf_rt c) g then c else at_point c (Client conn) (cf_rt c) (Selecting g))"
| "begin_request c (Client conn) (EditRequest g) now ms =
     (case edit_begin (cf_rt c) now g conn of
        (rt, Inr True) \<Rightarrow> at_point c (Client conn) rt (Opening g)
      | (rt, _) \<Rightarrow> at_point c (Client conn) rt NotRunning)"
| "begin_request c (Client conn) (Confirm b) now ms =
     (case confirm_begin (cf_rt c) now b conn of
        (rt, Inr (g, number)) \<Rightarrow> at_point c (Client conn) rt (Committing g number)
      | (rt, Inl e) \<Rightarrow> at_point c (Client conn) rt NotRunning)"
| "begin_request c (Client conn) (WriteSettings ws) now ms =
     (if list_all (\<lambda>w. fst w \<in> set (cells_of Edit (settings (cf_rt c)))) ws
      then case edit_session_of (cf_rt c) now conn of
        (rt, Some es) \<Rightarrow> at_point c (Client conn) rt (SeWriting es ws)
      | (rt, None) \<Rightarrow> at_point c (Client conn) rt NotRunning
      else c)"
| "begin_request c (Application n) (ForceActive g) now ms =
     (if out_of_range (cf_rt c) g then c
      else case activate_section (cf_rt c) ms g of (rt, l) \<Rightarrow> at_point c (Application n) rt (Loading l))"
| "begin_request c (Application n) (SetValue g da v) now ms =
     (case set_group_section (cf_rt c) g da v of (rt, r) \<Rightarrow> at_point c (Application n) rt (after_section r))"
| "begin_request c _ _ now ms = c"

section \<open>Going on with it\<close>

fun proceed :: "sg_config \<Rightarrow> agent \<Rightarrow> activity \<Rightarrow> bool \<Rightarrow> nat \<Rightarrow> u64 \<Rightarrow> sg_config" where
  "proceed c ag NotRunning ok now ms = c"
| "proceed c ag (Selecting g) ok now ms =
     (if \<not> ok then at_point c ag (cf_rt c) NotRunning
      else case activate_section (cf_rt c) ms g of (rt, l) \<Rightarrow> at_point c ag rt (Loading l))"
| "proceed c ag (Opening g) ok now ms =
     (if \<not> ok then at_point c ag (cf_rt c) NotRunning
      else case ag of
        Client conn \<Rightarrow>
          (case edit_open (cf_rt c) now g conn of
             (rt, Inl e) \<Rightarrow> at_point c ag rt NotRunning
           | (rt, Inr l) \<Rightarrow> at_point c ag rt (Loading l))
      | Application n \<Rightarrow> c)"
| "proceed c ag (Committing g number) ok now ms =
     (if \<not> ok then at_point c ag (cf_rt c) NotRunning
      else case ag of
        Client conn \<Rightarrow>
          (case confirm_commit (cf_rt c) (cf_cells c) g number conn of
             (rt, r) \<Rightarrow> at_point c ag rt (after_section r))
      | Application n \<Rightarrow> c)"
| "proceed c ag (SeWriting es ws) ok now ms =
     (let c' = at_point c ag (cf_rt c) NotRunning in
      if ok \<and> hold_edit_session (cf_rt c) es now then c'\<lparr>cf_cells := foldl write_setting (cf_cells c) ws\<rparr> else c')"
| "proceed c ag (Loading l) ok now ms =
     (if cf_lock c \<noteq> None then c
      else if is_latest (cf_rt c) l then (at_point c ag (cf_rt c) (Storing l (ld_writes l)))\<lparr>cf_lock := Some ag\<rparr>
      else at_point c ag (cf_rt c) NotRunning)"
| "proceed c ag (Storing l []) ok now ms = (at_point c ag (cf_rt c) NotRunning)\<lparr>cf_lock := None\<rparr>"
| "proceed c ag (Storing l (w # ws)) ok now ms =
     (at_point c ag (cf_rt c) (Storing l ws))\<lparr>cf_cells := write_setting (cf_cells c) w\<rparr>"

fun sg_step :: "sg_config \<Rightarrow> sg_event \<Rightarrow> sg_config" where
  "sg_step c (Begin ag req now ms) = (if cf_running c ag = NotRunning then begin_request c ag req now ms else c)"
| "sg_step c (Proceed ag ok now ms) = proceed c ag (cf_running c ag) ok now ms"
| "sg_step c (TickEvent now) = c\<lparr>cf_rt := fst (tick_reservation_at (cf_rt c) now)\<rparr>"
| "sg_step c (Disconnect conn) = c\<lparr>cf_rt := release_edit_session_for_conn (cf_rt c) conn\<rparr>"

text \<open>
  What the edit buffer of the open session should hold, whatever loads are under way: the values of the group it was
  opened on, with the writes the session has stored since.
\<close>

fun session_image :: "sg_config \<Rightarrow> sg_event \<Rightarrow> store \<Rightarrow> store" where
  "session_image c (Proceed (Client conn) ok now ms) img =
     (case cf_running c (Client conn) of
        Opening g \<Rightarrow>
          if ok \<and> \<not> held_by_another (cf_rt c) conn
          then foldl write_setting img (group_writes (settings (cf_rt c)) Edit g) else img
      | SeWriting es ws \<Rightarrow>
          if ok \<and> hold_edit_session (cf_rt c) es now then foldl write_setting img ws else img
      | _ \<Rightarrow> img)"
| "session_image c e img = img"

primrec sg_run :: "sg_event list \<Rightarrow> sg_config \<Rightarrow> store \<Rightarrow> sg_config \<times> store" where
  "sg_run [] c img = (c, img)"
| "sg_run (e # es) c img = sg_run es (sg_step c e) (session_image c e img)"


section \<open>The loads of one buffer\<close>

text \<open>The part of an activity that concerns the loads of a buffer.\<close>

fun view :: "buffer \<Rightarrow> activity \<Rightarrow> activity" where
  "view b (Loading l) = (if ld_buffer l = b then Loading l else NotRunning)"
| "view b (Storing l ws) = (if ld_buffer l = b then Storing l ws else NotRunning)"
| "view b act = NotRunning"

fun busy :: "activity \<Rightarrow> load option" where
  "busy (Loading l) = Some l"
| "busy (Storing l ws) = Some l"
| "busy act = None"

text \<open>The latest load of the buffer is still to write this cell.\<close>

definition pending :: "u64 \<Rightarrow> (agent \<Rightarrow> activity) \<Rightarrow> cell \<Rightarrow> bool" where
  "pending n vw a \<longleftrightarrow>
     (\<exists>ag l. ld_ticket l = n \<and> (vw ag = Loading l \<or> (\<exists>ws. vw ag = Storing l ws \<and> a \<in> fst ` set ws)))"

text \<open>
  The invariant of one buffer with \<open>n\<close> loads taken: no load has a ticket from the future; a load that is being stored
  though it is not the latest has the latest waiting behind it; while the buffer has a value to show (\<open>live\<close>, the
  values \<open>T\<close>), the latest load carries it and belongs to an agent of \<open>own\<close>, and each cell has its value or is still
  to be written by the latest load.
\<close>

definition buf_inv ::
    "u64 \<Rightarrow> (agent \<Rightarrow> activity) \<Rightarrow> store \<Rightarrow> cell set \<Rightarrow> bool \<Rightarrow> (cell \<times> mms_value) list \<Rightarrow> (agent \<Rightarrow> bool) \<Rightarrow> bool" where
  "buf_inv n vw cells dom_b live T own \<longleftrightarrow>
     (\<forall>ag l. busy (vw ag) = Some l \<longrightarrow>
        unat (ld_ticket l) \<le> unat n \<and> fst ` set (ld_writes l) \<subseteq> dom_b \<and>
        (ld_ticket l = n \<longrightarrow> live \<longrightarrow> ld_writes l = T \<and> own ag)) \<and>
     (\<forall>ag l ws. vw ag = Storing l ws \<longrightarrow>
        set ws \<subseteq> set (ld_writes l) \<and> (ld_ticket l \<noteq> n \<longrightarrow> (\<exists>ag' l'. vw ag' = Loading l' \<and> ld_ticket l' = n))) \<and>
     (live \<longrightarrow> (\<forall>a v. (a, v) \<in> set T \<longrightarrow> cells a = v \<or> pending n vw a))"

lemma buf_invI:
  assumes "\<And>ag l. busy (vw ag) = Some l \<Longrightarrow> unat (ld_ticket l) \<le> unat n"
    and "\<And>ag l. busy (vw ag) = Some l \<Longrightarrow> fst ` set (ld_writes l) \<subseteq> D"
    and "\<And>ag l. busy (vw ag) = Some l \<Longrightarrow> ld_ticket l = n \<Longrightarrow> live \<Longrightarrow> ld_writes l = T \<and> own ag"
    and "\<And>ag l ws. vw ag = Storing l ws \<Longrightarrow> set ws \<subseteq> set (ld_writes l)"
    and "\<And>ag l ws. vw ag = Storing l ws \<Longrightarrow> ld_ticket l \<noteq> n \<Longrightarrow> \<exists>ag' l'. vw ag' = Loading l' \<and> ld_ticket l' = n"
    and "\<And>a v. live \<Longrightarrow> (a, v) \<in> set T \<Longrightarrow> cells a = v \<or> pending n vw a"
  shows "buf_inv n vw cells D live T own"
  unfolding buf_inv_def
  by (intro conjI allI impI; (erule assms(1) | erule assms(2) | erule (2) assms(3) [THEN conjunct1]
      | erule (2) assms(3) [THEN conjunct2] | erule assms(4) | erule (1) assms(5) | erule (1) assms(6)))

lemma buf_invD:
  assumes "buf_inv n vw cells D live T own"
  shows "busy (vw ag) = Some l \<Longrightarrow> unat (ld_ticket l) \<le> unat n"
    and "busy (vw ag) = Some l \<Longrightarrow> fst ` set (ld_writes l) \<subseteq> D"
    and "busy (vw ag) = Some l \<Longrightarrow> ld_ticket l = n \<Longrightarrow> live \<Longrightarrow> ld_writes l = T \<and> own ag"
    and "vw ag = Storing l ws \<Longrightarrow> set ws \<subseteq> set (ld_writes l)"
    and "vw ag = Storing l ws \<Longrightarrow> ld_ticket l \<noteq> n \<Longrightarrow> \<exists>ag' l'. vw ag' = Loading l' \<and> ld_ticket l' = n"
    and "live \<Longrightarrow> (a, v) \<in> set T \<Longrightarrow> cells a = v \<or> pending n vw a"
  using assms unfolding buf_inv_def by simp_all

lemma buf_inv_cells:
  assumes "buf_inv n vw cells D live T own" "\<And>a. a \<in> fst ` set T \<Longrightarrow> cells' a = cells a"
  shows "buf_inv n vw cells' D live T own"
proof (rule buf_invI)
  fix a v assume live: live and av: "(a, v) \<in> set T"
  then have "a \<in> fst ` set T" by (metis fst_conv imageI)
  then show "cells' a = v \<or> pending n vw a" using buf_invD(6) [OF assms(1) live av] assms(2) by simp
qed (erule buf_invD [OF assms(1)]; assumption)+

lemma buf_inv_dead: "buf_inv n vw cells D live T own \<Longrightarrow> buf_inv n vw cells D False T' own'"
  by (simp add: buf_inv_def)

lemma buf_inv_take:
  assumes inv: "buf_inv n vw cells D live T own" and small: "unat n < 2 ^ 64 - 1"
    and new: "ld_ticket l = n + 1" "ld_writes l = T'" "own' ag" "fst ` set T' \<subseteq> D"
  shows "buf_inv (n + 1) (vw(ag := Loading l)) cells D live' T' own'"
proof -
  let ?vw = "vw(ag := Loading l)"
  have n1: "unat (n + 1) = unat n + 1" using small by (simp add: unat_word_ariths)
  have cases: "busy (?vw ag') = Some l' \<Longrightarrow> ag' = ag \<and> l' = l \<or> busy (vw ag') = Some l'" for ag' l'
    by (auto split: if_splits)
  have old: "ld_ticket l' \<noteq> n + 1" if "busy (vw ag') = Some l'" for ag' l'
    using buf_invD(1) [OF inv that] n1 by auto
  have latest: "?vw ag = Loading l \<and> ld_ticket l = n + 1" using new(1) by simp
  show ?thesis
  proof (rule buf_invI)
    fix ag' l' assume b: "busy (?vw ag') = Some l'"
    show "unat (ld_ticket l') \<le> unat (n + 1)" using cases [OF b] buf_invD(1) [OF inv] n1 new(1) by fastforce
    show "fst ` set (ld_writes l') \<subseteq> D" using cases [OF b] buf_invD(2) [OF inv] new by blast
    show "ld_ticket l' = n + 1 \<Longrightarrow> live' \<Longrightarrow> ld_writes l' = T' \<and> own' ag'" using cases [OF b] old new by blast
  next
    fix ag' l' ws assume "?vw ag' = Storing l' ws"
    then show "set ws \<subseteq> set (ld_writes l')" using buf_invD(4) [OF inv] by (auto split: if_splits)
  next
    show "\<exists>ag' l'. ?vw ag' = Loading l' \<and> ld_ticket l' = n + 1" using latest by blast
  next
    fix a v show "cells a = v \<or> pending (n + 1) ?vw a" unfolding pending_def using latest by blast
  qed
qed

lemma buf_inv_lock:
  assumes inv: "buf_inv n vw cells D live T own" and here: "vw ag = Loading l" "ld_ticket l = n"
    and none: "\<And>ag' l' ws. vw ag' \<noteq> Storing l' ws"
  shows "buf_inv n (vw(ag := Storing l (ld_writes l))) cells D live T own"
proof -
  let ?vw = "vw(ag := Storing l (ld_writes l))"
  have b: "busy (?vw ag') = busy (vw ag')" for ag' using here(1) by simp
  have T: "live \<Longrightarrow> ld_writes l = T" using buf_invD(3) [OF inv, of ag l] here by simp
  have only: "?vw ag' = Storing l' ws \<Longrightarrow> l' = l \<and> ws = ld_writes l" for ag' l' ws
    using none [of ag' l' ws] by (auto split: if_splits)
  show ?thesis
  proof (rule buf_invI)
    fix ag' l' assume "busy (?vw ag') = Some l'"
    then have old: "busy (vw ag') = Some l'" by (simp only: b)
    show "unat (ld_ticket l') \<le> unat n" "fst ` set (ld_writes l') \<subseteq> D" by (rule buf_invD(1,2) [OF inv old])+
    show "ld_ticket l' = n \<Longrightarrow> live \<Longrightarrow> ld_writes l' = T \<and> own ag'" by (rule buf_invD(3) [OF inv old])
  next
    fix ag' l' ws assume "?vw ag' = Storing l' ws"
    then have "l' = l" "ws = ld_writes l" using only by blast+
    then show "set ws \<subseteq> set (ld_writes l')" "ld_ticket l' \<noteq> n \<Longrightarrow> \<exists>ag' l'. ?vw ag' = Loading l' \<and> ld_ticket l' = n"
      using here(2) by simp_all
  next
    fix a v assume "live" "(a, v) \<in> set T"
    then have "(a, v) \<in> set (ld_writes l)" using T by simp
    then have "a \<in> fst ` set (ld_writes l)" by (metis fst_conv imageI)
    then show "cells a = v \<or> pending n ?vw a" unfolding pending_def using here(2)
      by (intro disjI2 exI [of _ ag] exI [of _ l]) simp
  qed
qed

lemma buf_inv_leave:
  assumes inv: "buf_inv n vw cells D live T own"
    and here: "vw ag = Loading l \<and> ld_ticket l \<noteq> n \<or> vw ag = Storing l [] \<or> busy (vw ag) = None"
  shows "buf_inv n (vw(ag := NotRunning)) cells D live T own"
proof -
  let ?vw = "vw(ag := NotRunning)"
  have stays: "ag' \<noteq> ag" if "vw ag' = Loading l'" "ld_ticket l' = n" for ag' l'
    using that here by (elim disjE) auto
  have storing: "ag' \<noteq> ag" if "vw ag' = Storing l' ws" "ws \<noteq> []" for ag' l' ws
    using that here by (elim disjE) auto
  show ?thesis
  proof (rule buf_invI)
    fix ag' l' assume "busy (?vw ag') = Some l'"
    then have old: "busy (vw ag') = Some l'" by (cases "ag' = ag") simp_all
    show "unat (ld_ticket l') \<le> unat n" "fst ` set (ld_writes l') \<subseteq> D" by (rule buf_invD(1,2) [OF inv old])+
    show "ld_ticket l' = n \<Longrightarrow> live \<Longrightarrow> ld_writes l' = T \<and> own ag'" by (rule buf_invD(3) [OF inv old])
  next
    fix ag' l' ws assume s: "?vw ag' = Storing l' ws"
    then have s': "vw ag' = Storing l' ws" by (cases "ag' = ag") simp_all
    then show "set ws \<subseteq> set (ld_writes l')" by (rule buf_invD(4) [OF inv])
    assume "ld_ticket l' \<noteq> n"
    from buf_invD(5) [OF inv s' this] obtain ag1 l1 where l1: "vw ag1 = Loading l1" "ld_ticket l1 = n" by blast
    then show "\<exists>ag' l'. ?vw ag' = Loading l' \<and> ld_ticket l' = n"
      using stays [OF l1] by (intro exI [of _ ag1] exI [of _ l1]) simp
  next
    fix a v assume live: live and av: "(a, v) \<in> set T"
    have "pending n ?vw a" if "pending n vw a"
    proof -
      from that obtain ag' l' where t: "ld_ticket l' = n"
        and at: "vw ag' = Loading l' \<or> (\<exists>ws. vw ag' = Storing l' ws \<and> a \<in> fst ` set ws)"
        unfolding pending_def by blast
      have "ag' \<noteq> ag" using at stays [OF _ t] storing [of ag' l'] by fastforce
      with at t show ?thesis unfolding pending_def by (intro exI [of _ ag'] exI [of _ l']) simp
    qed
    with buf_invD(6) [OF inv live av] show "cells a = v \<or> pending n ?vw a" by blast
  qed
qed

lemma buf_inv_store:
  assumes inv: "buf_inv n vw cells D live T own" and here: "vw ag = Storing l (w # ws)"
    and T: "distinct (map fst T)"
  shows "buf_inv n (vw(ag := Storing l ws)) (write_setting cells w) D live T own"
proof -
  let ?vw = "vw(ag := Storing l ws)"
  have b: "busy (?vw ag') = busy (vw ag')" for ag' using here by simp
  have load: "?vw ag' = vw ag'" if "vw ag' = Loading l'" for ag' l' using that here by auto
  have behind: "\<exists>ag' l'. ?vw ag' = Loading l' \<and> ld_ticket l' = n"
    if "vw ag1 = Storing l1 ws1" "ld_ticket l1 \<noteq> n" for ag1 l1 ws1
  proof -
    from buf_invD(5) [OF inv that] obtain ag' l' where "vw ag' = Loading l'" "ld_ticket l' = n" by blast
    with load [of ag' l'] show ?thesis by (intro exI [of _ ag'] exI [of _ l']) simp
  qed
  have sub: "set (w # ws) \<subseteq> set (ld_writes l)" using buf_invD(4) [OF inv here] .
  show ?thesis
  proof (rule buf_invI)
    fix ag' l' assume "busy (?vw ag') = Some l'"
    then have old: "busy (vw ag') = Some l'" by (simp only: b)
    show "unat (ld_ticket l') \<le> unat n" "fst ` set (ld_writes l') \<subseteq> D" by (rule buf_invD(1,2) [OF inv old])+
    show "ld_ticket l' = n \<Longrightarrow> live \<Longrightarrow> ld_writes l' = T \<and> own ag'" by (rule buf_invD(3) [OF inv old])
  next
    fix ag' l' ws' assume s: "?vw ag' = Storing l' ws'"
    have "\<exists>ws''. vw ag' = Storing l' ws'' \<and> set ws' \<subseteq> set ws''" using s here by (auto split: if_splits)
    then obtain ws'' where s': "vw ag' = Storing l' ws''" "set ws' \<subseteq> set ws''" by blast
    then show "set ws' \<subseteq> set (ld_writes l')" using buf_invD(4) [OF inv s'(1)] by blast
    assume "ld_ticket l' \<noteq> n"
    from behind [OF s'(1) this] show "\<exists>ag' l'. ?vw ag' = Loading l' \<and> ld_ticket l' = n" .
  next
    fix a v assume live: "live" and av: "(a, v) \<in> set T"
    show "write_setting cells w a = v \<or> pending n ?vw a"
    proof (cases "ld_ticket l = n")
      case False
      from behind [OF here False] show ?thesis unfolding pending_def by blast
    next
      case True
      then have "ld_writes l = T" using buf_invD(3) [OF inv, of ag l] here live by simp
      then have w: "w \<in> set T" using sub by simp
      show ?thesis
      proof (cases "a = fst w")
        case True
        then have "snd w = v" using T w av eq_key_imp_eq_value [of T "fst w" "snd w" v] by simp
        then show ?thesis using True by (simp add: write_setting_def)
      next
        case False
        then have "cells a = v \<Longrightarrow> write_setting cells w a = v" by (simp add: write_setting_def)
        moreover have "pending n ?vw a" if p: "pending n vw a"
        proof -
          from p obtain ag' l' where t: "ld_ticket l' = n"
            and "vw ag' = Loading l' \<or> (\<exists>ws'. vw ag' = Storing l' ws' \<and> a \<in> fst ` set ws')"
            unfolding pending_def by blast
          then have "?vw ag' = Loading l' \<or> (\<exists>ws'. ?vw ag' = Storing l' ws' \<and> a \<in> fst ` set ws')"
            using here False by (cases "ag' = ag") auto
          with t show ?thesis unfolding pending_def by blast
        qed
        ultimately show ?thesis using buf_invD(6) [OF inv live av] by blast
      qed
    qed
  qed
qed

section \<open>The invariant of a configuration\<close>

definition leaves_ok :: "u8 \<Rightarrow> setting_leaf list \<Rightarrow> bool" where
  "leaves_ok num leaves \<longleftrightarrow>
     (\<forall>leaf\<in>set leaves. length (sl_groups leaf) = unat num) \<and>
     distinct (cells_of Active leaves @ cells_of Edit leaves)"

fun activity_ok :: "sg_runtime \<Rightarrow> agent \<Rightarrow> activity \<Rightarrow> bool" where
  "activity_ok rt ag (Selecting g) \<longleftrightarrow> \<not> out_of_range rt g"
| "activity_ok rt ag (Opening g) \<longleftrightarrow> \<not> out_of_range rt g \<and> (\<exists>conn. ag = Client conn)"
| "activity_ok rt ag (Committing g number) \<longleftrightarrow> (\<exists>conn. ag = Client conn)"
| "activity_ok rt ag (SeWriting es ws) \<longleftrightarrow>
     ag = Client (es_conn_id es) \<and> fst ` set ws \<subseteq> set (cells_of Edit (settings rt))"
| "activity_ok rt ag act \<longleftrightarrow> True"

definition image_writes :: "setting_leaf list \<Rightarrow> store \<Rightarrow> (cell \<times> mms_value) list" where
  "image_writes leaves img = map (\<lambda>a. (a, img a)) (cells_of Edit leaves)"

definition session_ok :: "sg_runtime \<Rightarrow> bool" where
  "session_ok rt \<longleftrightarrow>
     \<not> out_of_range rt (act_sg (sg_state rt)) \<and> edit_sg (sg_state rt) \<le> num_of_sg rt \<and>
     (edit_sg (sg_state rt) = 0 \<longleftrightarrow> editing_conn (sg_state rt) = None)"

definition active_inv :: "sg_runtime \<Rightarrow> (agent \<Rightarrow> activity) \<Rightarrow> store \<Rightarrow> bool" where
  "active_inv rt running cells \<longleftrightarrow>
     buf_inv (active_loads rt) (view Active \<circ> running) cells (set (cells_of Active (settings rt))) True
       (group_writes (settings rt) Active (act_sg (sg_state rt))) (\<lambda>ag. True)"

definition edit_inv :: "sg_runtime \<Rightarrow> (agent \<Rightarrow> activity) \<Rightarrow> store \<Rightarrow> store \<Rightarrow> bool" where
  "edit_inv rt running cells img \<longleftrightarrow>
     buf_inv (edit_loads rt) (view Edit \<circ> running) cells (set (cells_of Edit (settings rt)))
       (editing_conn (sg_state rt) \<noteq> None) (image_writes (settings rt) img)
       (\<lambda>ag. map_option Client (editing_conn (sg_state rt)) = Some ag)"

definition sg_inv :: "nat \<Rightarrow> sg_config \<Rightarrow> store \<Rightarrow> bool" where
  "sg_inv n c img \<longleftrightarrow>
     leaves_ok (num_of_sg (cf_rt c)) (settings (cf_rt c)) \<and> session_ok (cf_rt c) \<and>
     unat (active_loads (cf_rt c)) \<le> n \<and> unat (edit_loads (cf_rt c)) \<le> n \<and>
     (\<forall>ag. activity_ok (cf_rt c) ag (cf_running c ag)) \<and>
     (\<forall>ag. cf_lock c = Some ag \<longleftrightarrow> (\<exists>l ws. cf_running c ag = Storing l ws)) \<and>
     active_inv (cf_rt c) (cf_running c) (cf_cells c) \<and> edit_inv (cf_rt c) (cf_running c) (cf_cells c) img"

text \<open>A change of the runtime that keeps the settings in place and takes no load.\<close>

definition compatible :: "sg_runtime \<Rightarrow> sg_runtime \<Rightarrow> bool" where
  "compatible rt rt' \<longleftrightarrow>
     num_of_sg rt' = num_of_sg rt \<and> active_loads rt' = active_loads rt \<and> edit_loads rt' = edit_loads rt \<and>
     leaves_ok (num_of_sg rt) (settings rt') \<and> (\<forall>b. cells_of b (settings rt') = cells_of b (settings rt)) \<and>
     session_ok rt' \<and>
     (editing_conn (sg_state rt') = None \<or> editing_conn (sg_state rt') = editing_conn (sg_state rt))"

subsection \<open>Values of a group and their cells\<close>

lemma map_filter_fst:
  "(\<And>x. x \<in> set xs \<Longrightarrow> map_option fst (f x) = g x) \<Longrightarrow> map fst (List.map_filter f xs) = List.map_filter g xs"
proof (induction xs)
  case (Cons x xs)
  have "g x = map_option fst (f x)" using Cons.prems [of x] by simp
  then show ?case using Cons by (cases "f x") (simp_all add: List.map_filter_simps)
qed (simp add: List.map_filter_simps)

lemma leaf_write_fst: "length (sl_groups leaf) = unat n \<Longrightarrow> 0 < g \<Longrightarrow> g \<le> n \<Longrightarrow>
    map_option fst (leaf_write b g leaf) = leaf_cell b leaf"
  by (auto simp: leaf_write_def word_le_nat_alt word_less_nat_alt split: option.splits)

lemma in_range_iff: "\<not> out_of_range rt g \<longleftrightarrow> 0 < g \<and> g \<le> num_of_sg rt"
  by (auto simp: out_of_range_def word_le_nat_alt word_less_nat_alt)

lemma group_writes_cells:
  assumes "leaves_ok (num_of_sg rt) leaves" "\<not> out_of_range rt g"
  shows "map fst (group_writes leaves b g) = cells_of b leaves"
  unfolding group_writes_def cells_of_def
proof (rule map_filter_fst)
  fix leaf assume "leaf \<in> set leaves"
  then show "map_option fst (leaf_write b g leaf) = leaf_cell b leaf"
    using assms by (intro leaf_write_fst [of _ "num_of_sg rt"]) (simp_all add: leaves_ok_def in_range_iff)
qed

lemma group_writes_dom:
  assumes "leaves_ok (num_of_sg rt) leaves" "\<not> out_of_range rt g"
  shows "fst ` set (group_writes leaves b g) = set (cells_of b leaves)" "distinct (map fst (group_writes leaves b g))"
  using group_writes_cells [OF assms, of b] assms(1) by (simp_all flip: set_map add: leaves_ok_def) (cases b; simp)

lemma image_writes_dom [simp]: "fst ` set (image_writes leaves img) = set (cells_of Edit leaves)"
  by (force simp: image_writes_def)

lemma image_writes_fst [simp]: "map fst (image_writes leaves img) = cells_of Edit leaves"
  by (simp add: image_writes_def comp_def)

lemma foldl_write_other: "a \<notin> fst ` set ws \<Longrightarrow> foldl write_setting cells ws a = cells a"
proof (induction ws arbitrary: cells)
  case (Cons w ws)
  have "write_setting cells w a = cells a" using Cons.prems by (simp add: write_setting_def)
  with Cons show ?case by simp
qed simp

lemma foldl_write_in: "distinct (map fst ws) \<Longrightarrow> (a, v) \<in> set ws \<Longrightarrow> foldl write_setting cells ws a = v"
proof (induction ws arbitrary: cells)
  case (Cons w ws)
  show ?case
  proof (cases "(a, v) = w")
    case True
    then have "a \<notin> fst ` set ws" using Cons.prems(1) by (metis distinct.simps(2) fst_conv list.set_map list.simps(9))
    then have "foldl write_setting cells (w # ws) a = write_setting cells w a" by (simp add: foldl_write_other)
    also have "\<dots> = v" using True by (auto simp: write_setting_def)
    finally show ?thesis .
  qed (use Cons in simp)
qed simp

lemma foldl_write_cong: "cells a = cells' a \<Longrightarrow> foldl write_setting cells ws a = foldl write_setting cells' ws a"
proof (induction ws arbitrary: cells cells')
  case (Cons w ws)
  have "write_setting cells w a = write_setting cells' w a" using Cons.prems by (simp add: write_setting_def)
  from Cons.IH [of "write_setting cells w" "write_setting cells' w", OF this] show ?case by simp
qed simp

lemma image_of_writes:
  assumes "distinct (map fst ws)" "map fst ws = cells_of Edit leaves"
  shows "image_writes leaves (foldl write_setting img ws) = ws"
proof -
  have "map (\<lambda>a. (a, foldl write_setting img ws a)) (map fst ws) = ws"
    using foldl_write_in [OF assms(1)] by (auto intro!: map_idI simp: comp_def)
  then show ?thesis using assms(2) by (simp add: image_writes_def)
qed


subsection \<open>Changes that take no load\<close>

lemma sg_invD:
  assumes "sg_inv n c img"
  shows "leaves_ok (num_of_sg (cf_rt c)) (settings (cf_rt c))" "session_ok (cf_rt c)"
    "unat (active_loads (cf_rt c)) \<le> n" "unat (edit_loads (cf_rt c)) \<le> n"
    "activity_ok (cf_rt c) ag (cf_running c ag)"
    "cf_lock c = Some ag \<longleftrightarrow> (\<exists>l ws. cf_running c ag = Storing l ws)"
    "active_inv (cf_rt c) (cf_running c) (cf_cells c)" "edit_inv (cf_rt c) (cf_running c) (cf_cells c) img"
  using assms unfolding sg_inv_def by simp_all

lemma sg_inv_mono: "sg_inv n c img \<Longrightarrow> n \<le> m \<Longrightarrow> sg_inv m c img"
  by (simp add: sg_inv_def)

lemma view_upd: "view b \<circ> f(ag := act) = (view b \<circ> f)(ag := view b act)"
  by (rule fun_upd_comp)

lemma view_none: "busy act = None \<Longrightarrow> view b act = NotRunning"
  by (cases act) simp_all

lemma view_idle_upd:
  "busy (f ag) = None \<Longrightarrow> busy act = None \<Longrightarrow> view b \<circ> f(ag := act) = view b \<circ> f"
  by (simp add: view_upd view_none fun_upd_idem)

lemma activity_ok_compatible: "compatible rt rt' \<Longrightarrow> activity_ok rt ag act \<Longrightarrow> activity_ok rt' ag act"
  by (cases act) (auto simp: compatible_def out_of_range_def)

lemma not_storing: "busy act = None \<Longrightarrow> act \<noteq> Storing l ws"
  by auto

text \<open>An agent that is in no load moves between the points outside the loads, and the runtime changes compatibly.\<close>

lemma sg_inv_quiet:
  assumes inv: "sg_inv n c img" and free: "busy (cf_running c ag) = None" "busy act = None"
    and rt': "compatible (cf_rt c) rt'" "activity_ok rt' ag act"
    and same: "group_writes (settings rt') Active (act_sg (sg_state rt')) =
      group_writes (settings (cf_rt c)) Active (act_sg (sg_state (cf_rt c)))"
  shows "sg_inv n (at_point c ag rt' act) img"
proof -
  note I = sg_invD [OF inv]
  have act: "active_inv rt' ((cf_running c)(ag := act)) (cf_cells c)"
    using I(7) rt'(1) same unfolding active_inv_def view_idle_upd [of "cf_running c" ag act, OF free]
    by (simp add: compatible_def)
  have "image_writes (settings rt') img = image_writes (settings (cf_rt c)) img"
    using rt'(1) by (simp add: image_writes_def compatible_def)
  then have edit: "edit_inv rt' ((cf_running c)(ag := act)) (cf_cells c) img"
    using I(8) rt'(1) buf_inv_dead unfolding edit_inv_def view_idle_upd [of "cf_running c" ag act, OF free]
    by (auto simp: compatible_def)
  have lock: "cf_lock c = Some ag' \<longleftrightarrow> (\<exists>l ws. ((cf_running c)(ag := act)) ag' = Storing l ws)" for ag'
    using I(6) [of ag'] not_storing [OF free(1)] not_storing [OF free(2)] by auto
  have "activity_ok rt' ag' (((cf_running c)(ag := act)) ag')" for ag'
    using I(5) [of ag'] activity_ok_compatible [OF rt'(1)] rt'(2) by auto
  then show ?thesis
    using I(1-4) rt'(1) act edit lock unfolding sg_inv_def at_point_def by (auto simp: compatible_def)
qed

lemma compatible_refl: "sg_inv n c img \<Longrightarrow> compatible (cf_rt c) (cf_rt c)"
  using sg_invD(1,2) by (simp add: compatible_def)

lemma session_ok_end: "session_ok rt \<Longrightarrow> session_ok (end_session rt)"
  by (simp add: session_ok_def end_session_def out_of_range_def)

lemma compatible_end: "sg_inv n c img \<Longrightarrow> compatible (cf_rt c) (end_session (cf_rt c))"
  using sg_invD(1,2) session_ok_end by (simp add: compatible_def end_session_def)

lemma end_session_simps [simp]:
  "settings (end_session rt) = settings rt" "act_sg (sg_state (end_session rt)) = act_sg (sg_state rt)"
  "num_of_sg (end_session rt) = num_of_sg rt" "active_loads (end_session rt) = active_loads rt"
  "edit_loads (end_session rt) = edit_loads rt" "editing_conn (sg_state (end_session rt)) = None"
  "edit_sg (sg_state (end_session rt)) = 0" "session (sg_state (end_session rt)) = session (sg_state rt)"
  by (simp_all add: end_session_def)

lemma expire_cases: "expire_stale_session_if_any rt now = rt \<or> expire_stale_session_if_any rt now = end_session rt"
  by (simp add: expire_stale_session_if_any_def tick_reservation_at_def Let_def)

lemma compatible_expire: "sg_inv n c img \<Longrightarrow> compatible (cf_rt c) (expire_stale_session_if_any (cf_rt c) now)"
  using expire_cases compatible_refl compatible_end by metis

lemma expire_simps [simp]:
  "settings (expire_stale_session_if_any rt now) = settings rt"
  "act_sg (sg_state (expire_stale_session_if_any rt now)) = act_sg (sg_state rt)"
  "num_of_sg (expire_stale_session_if_any rt now) = num_of_sg rt"
  using expire_cases [of rt now] by auto

text \<open>The control block alone changes.\<close>

lemma sg_inv_rt:
  assumes "sg_inv n c img" "rt' = cf_rt c \<or> rt' = end_session (cf_rt c)"
  shows "sg_inv n (c\<lparr>cf_rt := rt'\<rparr>) img"
proof -
  note I = sg_invD [OF assms(1)]
  have compat: "compatible (cf_rt c) rt'" using assms compatible_refl compatible_end by blast
  have "settings rt' = settings (cf_rt c)" "act_sg (sg_state rt') = act_sg (sg_state (cf_rt c))" using assms(2) by auto
  then have "active_inv rt' (cf_running c) (cf_cells c)" "edit_inv rt' (cf_running c) (cf_cells c) img"
    using I(7,8) compat buf_inv_dead unfolding active_inv_def edit_inv_def by (auto simp: compatible_def)
  then show ?thesis
    using I(1-6) compat activity_ok_compatible [OF compat] unfolding sg_inv_def by (simp add: compatible_def)
qed

subsection \<open>Taking a load\<close>

lemma sg_inv_active_load:
  assumes inv: "sg_inv n c img" and small: "n < 2 ^ 64 - 1" and free: "busy (cf_running c ag) = None"
    and rt': "compatible (cf_rt c) rt'" and load: "prepare_load rt' Active (act_sg (sg_state rt')) = (rt'', l)"
  shows "sg_inv (Suc n) (at_point c ag rt'' (Loading l)) img"
proof -
  note I = sg_invD [OF inv]
  let ?run = "(cf_running c)(ag := Loading l)"
  have rt'': "rt'' = rt'\<lparr>active_loads := active_loads (cf_rt c) + 1\<rparr>"
    and l: "ld_buffer l = Active" "ld_ticket l = active_loads (cf_rt c) + 1"
      "ld_writes l = group_writes (settings rt') Active (act_sg (sg_state rt'))"
    using load rt' by (auto simp: prepare_load_def compatible_def)
  have small': "unat (active_loads (cf_rt c)) < 2 ^ 64 - 1" using I(3) small by simp
  have ok': "leaves_ok (num_of_sg rt') (settings rt')" "\<not> out_of_range rt' (act_sg (sg_state rt'))"
    using rt' by (simp_all add: compatible_def session_ok_def)
  have cells: "set (cells_of b (settings rt')) = set (cells_of b (settings (cf_rt c)))" for b
    using rt' by (simp add: compatible_def)
  have act: "active_inv rt'' ?run (cf_cells c)"
    using buf_inv_take [OF I(7) [unfolded active_inv_def] small' l(2,3), of "\<lambda>ag. True" ag True]
      group_writes_dom(1) [OF ok'] cells l(1) unfolding active_inv_def view_upd rt'' by simp
  have "image_writes (settings rt') img = image_writes (settings (cf_rt c)) img"
    using rt' by (simp add: image_writes_def compatible_def)
  then have edit: "edit_inv rt'' ?run (cf_cells c) img"
    using I(8) rt' buf_inv_dead view_none [OF free, of Edit] l(1)
    unfolding edit_inv_def view_upd rt'' by (auto simp: compatible_def fun_upd_idem)
  have lock: "cf_lock c = Some ag' \<longleftrightarrow> (\<exists>l ws. ?run ag' = Storing l ws)" for ag'
    using I(6) [of ag'] not_storing [OF free] by auto
  have "unat (active_loads (cf_rt c) + 1) \<le> Suc n" using I(3) small' by (simp add: unat_word_ariths)
  moreover have "activity_ok rt'' ag' (?run ag')" for ag'
    using activity_ok_compatible [OF rt' I(5) [of ag']] unfolding rt''
    by (cases "cf_running c ag'") (auto simp: out_of_range_def)
  ultimately show ?thesis
    using I(4) rt' act edit lock ok' unfolding sg_inv_def at_point_def rt''
    by (auto simp: compatible_def session_ok_def out_of_range_def)
qed

lemma sg_inv_edit_load:
  assumes inv: "sg_inv n c img" and small: "n < 2 ^ 64 - 1" and free: "busy (cf_running c (Client conn)) = None"
    and g: "\<not> out_of_range (cf_rt c) g" and load: "edit_open (cf_rt c) now g conn = (rt'', Inr l)"
  shows "sg_inv (Suc n) (at_point c (Client conn) rt'' (Loading l))
     (foldl write_setting img (group_writes (settings (cf_rt c)) Edit g))"
proof -
  note I = sg_invD [OF inv]
  let ?run = "(cf_running c)(Client conn := Loading l)"
  let ?img = "foldl write_setting img (group_writes (settings (cf_rt c)) Edit g)"
  have rt'': "settings rt'' = settings (cf_rt c)" "num_of_sg rt'' = num_of_sg (cf_rt c)"
      "act_sg (sg_state rt'') = act_sg (sg_state (cf_rt c))" "active_loads rt'' = active_loads (cf_rt c)"
      "edit_loads rt'' = edit_loads (cf_rt c) + 1" "editing_conn (sg_state rt'') = Some conn" "edit_sg (sg_state rt'') = g"
    and l: "ld_buffer l = Edit" "ld_ticket l = edit_loads (cf_rt c) + 1"
      "ld_writes l = group_writes (settings (cf_rt c)) Edit g"
    using load by (auto simp: edit_open_def prepare_load_def Let_def split: if_splits)
  have small': "unat (edit_loads (cf_rt c)) < 2 ^ 64 - 1" using I(4) small by simp
  have img: "image_writes (settings (cf_rt c)) ?img = group_writes (settings (cf_rt c)) Edit g"
    using group_writes_dom(2) [OF I(1) g] group_writes_cells [OF I(1) g] by (rule image_of_writes)
  have edit: "edit_inv rt'' ?run (cf_cells c) ?img"
    using buf_inv_take [OF I(8) [unfolded edit_inv_def] small' l(2,3),
        of "\<lambda>ag. Some (Client conn) = Some ag" "Client conn" True]
      group_writes_dom(1) [OF I(1) g] l(1) img unfolding edit_inv_def view_upd rt'' by simp
  have act: "active_inv rt'' ?run (cf_cells c)"
    using I(7) view_none [OF free, of Active] l(1) unfolding active_inv_def view_upd rt'' by (simp add: fun_upd_idem)
  have lock: "cf_lock c = Some ag' \<longleftrightarrow> (\<exists>l ws. ?run ag' = Storing l ws)" for ag'
    using I(6) [of ag'] not_storing [OF free] by auto
  have "activity_ok rt'' ag' (?run ag')" for ag'
    using I(5) [of ag'] rt''(1,2) by (cases "cf_running c ag'") (auto simp: out_of_range_def)
  moreover have "unat (edit_loads (cf_rt c) + 1) \<le> Suc n" using I(4) small' by (simp add: unat_word_ariths)
  moreover have "session_ok rt''"
    using I(2) g unfolding session_ok_def rt'' by (simp add: out_of_range_def rt'') (auto simp: word_le_nat_alt word_less_nat_alt)
  ultimately show ?thesis using I(1,3) act edit lock rt'' unfolding sg_inv_def at_point_def by simp
qed

subsection \<open>Running a load\<close>

lemma view_lock:
  assumes "buf_inv n (view b \<circ> f) cells D live T own" "f ag = Loading l" "ld_buffer l = b \<Longrightarrow> ld_ticket l = n"
    and "\<And>ag' l' ws. f ag' \<noteq> Storing l' ws"
  shows "buf_inv n (view b \<circ> f(ag := Storing l (ld_writes l))) cells D live T own"
proof (cases "ld_buffer l = b")
  case True
  have "view b (f ag') \<noteq> Storing l' ws" for ag' l' ws using assms(4) [of ag' l' ws] by (cases "f ag'") (auto split: if_splits)
  then show ?thesis
    using buf_inv_lock [OF assms(1), of ag l] assms(2,3) True unfolding view_upd by simp
next
  case False
  then show ?thesis using assms(1,2) unfolding view_upd by (simp add: fun_upd_idem)
qed

lemma view_leave:
  assumes "buf_inv n (view b \<circ> f) cells D live T own"
    and "f ag = Loading l \<and> (ld_buffer l = b \<longrightarrow> ld_ticket l \<noteq> n) \<or> f ag = Storing l []"
  shows "buf_inv n (view b \<circ> f(ag := NotRunning)) cells D live T own"
proof (cases "ld_buffer l = b")
  case True
  then show ?thesis using buf_inv_leave [OF assms(1), of ag l] assms(2) unfolding view_upd by auto
next
  case False
  then show ?thesis using assms unfolding view_upd by (auto simp: fun_upd_idem)
qed

lemma view_store:
  assumes inv: "buf_inv n (view b \<circ> f) cells D live T own" "f ag = Storing l (w # ws)"
    and T: "distinct (map fst T)" "ld_buffer l \<noteq> b \<Longrightarrow> fst w \<notin> fst ` set T"
  shows "buf_inv n (view b \<circ> f(ag := Storing l ws)) (write_setting cells w) D live T own"
proof (cases "ld_buffer l = b")
  case True
  then show ?thesis using buf_inv_store [OF inv(1), of ag l w ws] inv(2) T(1) unfolding view_upd by simp
next
  case False
  then have "buf_inv n (view b \<circ> f(ag := Storing l ws)) cells D live T own"
    using inv unfolding view_upd by (simp add: fun_upd_idem)
  then show ?thesis
  proof (rule buf_inv_cells)
    fix a assume "a \<in> fst ` set T"
    then have "a \<noteq> fst w" using T(2) [OF False] by blast
    then show "write_setting cells w a = cells a" by (simp add: write_setting_def)
  qed
qed

lemma is_latest_iff:
  "is_latest rt l \<longleftrightarrow> (ld_buffer l = Active \<longrightarrow> ld_ticket l = active_loads rt) \<and> (ld_buffer l = Edit \<longrightarrow> ld_ticket l = edit_loads rt)"
  by (cases "ld_buffer l") (auto simp: is_latest_def)

lemma sg_inv_lock:
  assumes inv: "sg_inv n c img" and here: "cf_running c ag = Loading l" "cf_lock c = None" "is_latest (cf_rt c) l"
  shows "sg_inv n ((at_point c ag (cf_rt c) (Storing l (ld_writes l)))\<lparr>cf_lock := Some ag\<rparr>) img"
proof -
  note I = sg_invD [OF inv]
  have none: "cf_running c ag' \<noteq> Storing l' ws" for ag' l' ws using I(6) [of ag'] here(2) by auto
  have "active_inv (cf_rt c) ((cf_running c)(ag := Storing l (ld_writes l))) (cf_cells c)"
    "edit_inv (cf_rt c) ((cf_running c)(ag := Storing l (ld_writes l))) (cf_cells c) img"
    using view_lock [OF I(7) [unfolded active_inv_def] here(1)] view_lock [OF I(8) [unfolded edit_inv_def] here(1)]
      here(3) none unfolding active_inv_def edit_inv_def is_latest_iff by blast+
  then show ?thesis using I(1-5) none unfolding sg_inv_def at_point_def by auto
qed

lemma sg_inv_skip:
  assumes inv: "sg_inv n c img" and here: "cf_running c ag = Loading l" "\<not> is_latest (cf_rt c) l"
  shows "sg_inv n (at_point c ag (cf_rt c) NotRunning) img"
proof -
  note I = sg_invD [OF inv]
  have "active_inv (cf_rt c) ((cf_running c)(ag := NotRunning)) (cf_cells c)"
    "edit_inv (cf_rt c) ((cf_running c)(ag := NotRunning)) (cf_cells c) img"
    using view_leave [OF I(7) [unfolded active_inv_def], of ag l] view_leave [OF I(8) [unfolded edit_inv_def], of ag l]
      here unfolding active_inv_def edit_inv_def is_latest_def by (cases "ld_buffer l"; auto)+
  then show ?thesis using I(1-6) here(1) unfolding sg_inv_def at_point_def by auto
qed

lemma storing_unique:
  assumes "sg_inv n c img" "cf_running c ag = Storing l ws" "cf_running c ag' = Storing l' ws'"
  shows "ag' = ag"
  using sg_invD(6) [OF assms(1), of ag] sg_invD(6) [OF assms(1), of ag'] assms(2,3) by auto

lemma sg_inv_finish:
  assumes inv: "sg_inv n c img" and here: "cf_running c ag = Storing l []"
  shows "sg_inv n ((at_point c ag (cf_rt c) NotRunning)\<lparr>cf_lock := None\<rparr>) img"
proof -
  note I = sg_invD [OF inv]
  have "active_inv (cf_rt c) ((cf_running c)(ag := NotRunning)) (cf_cells c)"
    "edit_inv (cf_rt c) ((cf_running c)(ag := NotRunning)) (cf_cells c) img"
    using view_leave [OF I(7) [unfolded active_inv_def], of ag l] view_leave [OF I(8) [unfolded edit_inv_def], of ag l]
      here unfolding active_inv_def edit_inv_def by blast+
  then show ?thesis using I(1-5) storing_unique [OF inv here] unfolding sg_inv_def at_point_def by auto
qed

lemma buffers_disjoint: "leaves_ok num leaves \<Longrightarrow> set (cells_of Active leaves) \<inter> set (cells_of Edit leaves) = {}"
  by (simp add: leaves_ok_def)

lemma sg_inv_store:
  assumes inv: "sg_inv n c img" and here: "cf_running c ag = Storing l (w # ws)"
  shows "sg_inv n ((at_point c ag (cf_rt c) (Storing l ws))\<lparr>cf_cells := write_setting (cf_cells c) w\<rparr>) img"
proof -
  note I = sg_invD [OF inv]
  let ?run = "(cf_running c)(ag := Storing l ws)"
  have range: "\<not> out_of_range (cf_rt c) (act_sg (sg_state (cf_rt c)))" using I(2) by (simp add: session_ok_def)
  have w: "fst w \<in> set (cells_of (ld_buffer l) (settings (cf_rt c)))"
  proof (cases "ld_buffer l")
    case Active
    then have v: "(view Active \<circ> cf_running c) ag = Storing l (w # ws)" using here by simp
    show ?thesis using buf_invD(2) [OF I(7) [unfolded active_inv_def], of ag l] buf_invD(4) [OF I(7) [unfolded active_inv_def] v]
      v Active by auto
  next
    case Edit
    then have v: "(view Edit \<circ> cf_running c) ag = Storing l (w # ws)" using here by simp
    show ?thesis using buf_invD(2) [OF I(8) [unfolded edit_inv_def], of ag l] buf_invD(4) [OF I(8) [unfolded edit_inv_def] v]
      v Edit by auto
  qed
  have "active_inv (cf_rt c) ?run (write_setting (cf_cells c) w)"
    unfolding active_inv_def
    by (rule view_store [OF I(7) [unfolded active_inv_def] here group_writes_dom(2) [OF I(1) range]])
      (use w buffers_disjoint [OF I(1)] group_writes_dom(1) [OF I(1) range, of Active] in \<open>cases "ld_buffer l"; auto\<close>)
  moreover have "edit_inv (cf_rt c) ?run (write_setting (cf_cells c) w) img"
    unfolding edit_inv_def
    by (rule view_store [OF I(8) [unfolded edit_inv_def] here])
      (use w buffers_disjoint [OF I(1)] I(1) in \<open>cases "ld_buffer l"; auto simp: leaves_ok_def\<close>)+
  ultimately show ?thesis
    using I(1-6) here unfolding sg_inv_def at_point_def by (auto split: if_splits)
qed

subsection \<open>The edit buffer of the holder\<close>

text \<open>
  While the association that holds the session is in no load, no load of the edit buffer is current, so the buffer
  shows what the session has made of it.
\<close>

lemma holder_has_no_load:
  assumes inv: "sg_inv n c img" and here: "editing_conn (sg_state (cf_rt c)) = Some conn" "busy (cf_running c (Client conn)) = None"
    and load: "busy ((view Edit \<circ> cf_running c) ag) = Some l"
  shows "ld_ticket l \<noteq> edit_loads (cf_rt c)"
proof
  assume "ld_ticket l = edit_loads (cf_rt c)"
  then have "ag = Client conn"
    using buf_invD(3) [OF sg_invD(8) [OF inv, unfolded edit_inv_def] load] here(1) by simp
  then show False using load view_none [OF here(2), of Edit] by simp
qed

lemma pending_busy: "pending n vw a \<Longrightarrow> \<exists>ag l. ld_ticket l = n \<and> busy (vw ag) = Some l"
  unfolding pending_def by (metis busy.simps(1,2))

lemma edit_buffer_shows_image:
  assumes inv: "sg_inv n c img" and here: "editing_conn (sg_state (cf_rt c)) = Some conn" "busy (cf_running c (Client conn)) = None"
    and a: "a \<in> set (cells_of Edit (settings (cf_rt c)))"
  shows "cf_cells c a = img a"
proof -
  have "(a, img a) \<in> set (image_writes (settings (cf_rt c)) img)" using a by (simp add: image_writes_def)
  then have "cf_cells c a = img a \<or> pending (edit_loads (cf_rt c)) (view Edit \<circ> cf_running c) a"
    using buf_invD(6) [OF sg_invD(8) [OF inv, unfolded edit_inv_def]] here(1) by simp
  moreover have "\<not> pending (edit_loads (cf_rt c)) (view Edit \<circ> cf_running c) a"
  proof
    assume "pending (edit_loads (cf_rt c)) (view Edit \<circ> cf_running c) a"
    then obtain ag l where t: "ld_ticket l = edit_loads (cf_rt c)" and "busy ((view Edit \<circ> cf_running c) ag) = Some l"
      using pending_busy by blast
    with holder_has_no_load [OF inv here] show False by blast
  qed
  ultimately show ?thesis by blast
qed

lemma sg_inv_se_write:
  assumes inv: "sg_inv n c img" and here: "cf_running c ag = SeWriting es ws" and hold: "hold_edit_session (cf_rt c) es now"
  shows "sg_inv n ((at_point c ag (cf_rt c) NotRunning)\<lparr>cf_cells := foldl write_setting (cf_cells c) ws\<rparr>) (foldl write_setting img ws)"
proof -
  note I = sg_invD [OF inv]
  let ?run = "(cf_running c)(ag := NotRunning)" and ?cells = "foldl write_setting (cf_cells c) ws"
  have ag: "ag = Client (es_conn_id es)" and ws: "fst ` set ws \<subseteq> set (cells_of Edit (settings (cf_rt c)))"
    using I(5) [of ag] here by simp_all
  have conn: "editing_conn (sg_state (cf_rt c)) = Some (es_conn_id es)"
    using hold by (simp add: hold_edit_session_def is_current_def)
  have free: "busy (cf_running c (Client (es_conn_id es))) = None" using here ag by simp
  have view: "view b \<circ> ?run = view b \<circ> cf_running c" for b using here by (simp add: view_idle_upd)
  have range: "\<not> out_of_range (cf_rt c) (act_sg (sg_state (cf_rt c)))" using I(2) by (simp add: session_ok_def)
  have "a \<notin> fst ` set ws" if "a \<in> fst ` set (group_writes (settings (cf_rt c)) Active (act_sg (sg_state (cf_rt c))))" for a
    using that ws buffers_disjoint [OF I(1)] group_writes_dom(1) [OF I(1) range, of Active] by blast
  then have act: "active_inv (cf_rt c) ?run ?cells"
    using buf_inv_cells [OF I(7) [unfolded active_inv_def], of ?cells] foldl_write_other [of _ ws "cf_cells c"]
    unfolding active_inv_def view by simp
  note E = buf_invD [OF I(8) [unfolded edit_inv_def]]
  have edit: "edit_inv (cf_rt c) ?run ?cells (foldl write_setting img ws)"
    unfolding edit_inv_def view
  proof (rule buf_invI)
    fix ag' l' assume b: "busy ((view Edit \<circ> cf_running c) ag') = Some l'"
    show "unat (ld_ticket l') \<le> unat (edit_loads (cf_rt c))" "fst ` set (ld_writes l') \<subseteq> set (cells_of Edit (settings (cf_rt c)))"
      by (rule E(1,2) [OF b])+
    show "ld_ticket l' = edit_loads (cf_rt c) \<Longrightarrow> ld_writes l' = image_writes (settings (cf_rt c)) (foldl write_setting img ws) \<and>
        map_option Client (editing_conn (sg_state (cf_rt c))) = Some ag'"
      using holder_has_no_load [OF inv conn free b] by simp
  next
    fix a v assume "(a, v) \<in> set (image_writes (settings (cf_rt c)) (foldl write_setting img ws))"
    then have "a \<in> set (cells_of Edit (settings (cf_rt c)))" "v = foldl write_setting img ws a" by (auto simp: image_writes_def)
    then show "?cells a = v \<or> pending (edit_loads (cf_rt c)) (view Edit \<circ> cf_running c) a"
      using foldl_write_cong [of "cf_cells c" a img ws] edit_buffer_shows_image [OF inv conn free] by simp
  qed (erule E(4) | erule (1) E(5))+
  show ?thesis using I(1-6) here act edit unfolding sg_inv_def at_point_def by auto
qed

subsection \<open>Changes of the values of a group\<close>

definition leaf_like :: "nat \<Rightarrow> setting_leaf \<Rightarrow> setting_leaf \<Rightarrow> bool" where
  "leaf_like i leaf leaf' \<longleftrightarrow>
     (\<forall>b. leaf_cell b leaf' = leaf_cell b leaf) \<and> length (sl_groups leaf') = length (sl_groups leaf) \<and>
     (\<forall>j. j \<noteq> i \<longrightarrow> sl_groups leaf' ! j = sl_groups leaf ! j)"

lemma leaf_like_refl: "leaf_like i leaf leaf"
  by (simp add: leaf_like_def)

lemma leaf_cell_groups [simp]: "leaf_cell b (leaf\<lparr>sl_groups := gs\<rparr>) = leaf_cell b leaf"
  by (cases b) simp_all

lemma leaf_like_update: "leaf_like i leaf (leaf\<lparr>sl_groups := (sl_groups leaf)[i := v]\<rparr>)"
  by (simp add: leaf_like_def)

lemma leaf_like_store: "leaf_like i leaf (store_leaf cells i leaf)"
  by (auto simp: store_leaf_def leaf_like_update leaf_like_refl split: option.splits)

lemma map_like: "(\<And>x. R x (f x)) \<Longrightarrow> list_all2 R xs (map f xs)"
  by (induction xs) auto

lemma update_first_like: "(\<And>x. R x (f x)) \<Longrightarrow> (\<And>x. R x x) \<Longrightarrow> list_all2 R xs (update_first P f xs)"
  by (induction xs) (auto intro: list.rel_refl)

lemma like_cells: "list_all2 (leaf_like i) xs ys \<Longrightarrow> cells_of b ys = cells_of b xs"
  by (induction rule: list_all2_induct) (auto simp: cells_of_def leaf_like_def List.map_filter_simps split: option.splits)

lemma like_leaves_ok:
  assumes "list_all2 (leaf_like i) xs ys" "leaves_ok num xs"
  shows "leaves_ok num ys"
proof -
  have "\<forall>y\<in>set ys. \<exists>x\<in>set xs. length (sl_groups y) = length (sl_groups x)"
    using assms(1) by (induction rule: list_all2_induct) (auto simp: leaf_like_def)
  then have "\<forall>y\<in>set ys. length (sl_groups y) = unat num" using assms(2) by (auto simp: leaves_ok_def)
  then show ?thesis using assms like_cells [OF assms(1)] by (simp add: leaves_ok_def)
qed

lemma like_group_writes:
  "list_all2 (leaf_like i) xs ys \<Longrightarrow> i \<noteq> unat g - 1 \<Longrightarrow> group_writes ys b g = group_writes xs b g"
  by (induction rule: list_all2_induct)
    (auto simp: group_writes_def leaf_like_def leaf_write_def List.map_filter_simps split: option.splits)

subsection \<open>The sections of the operations\<close>

lemma end_session_idem [simp]: "end_session (end_session rt) = end_session rt"
  by (simp add: end_session_def)

lemma begin_sections:
  assumes "edit_begin rt now g conn = (rt', r1) \<or> confirm_begin rt now b conn = (rt', r2) \<or> edit_session_of rt now conn = (rt', r3)"
  shows "rt' = rt \<or> rt' = end_session rt"
  using assms expire_cases [of rt now]
  by (auto simp: edit_begin_def confirm_begin_def edit_session_of_def Let_def split: if_splits)

lemma sg_inv_begin:
  assumes "sg_inv n c img" "busy (cf_running c ag) = None" "busy act = None"
    and "rt' = cf_rt c \<or> rt' = end_session (cf_rt c)" "activity_ok rt' ag act"
  shows "sg_inv n (at_point c ag rt' act) img"
  using assms compatible_refl [OF assms(1)] compatible_end [OF assms(1)] by (intro sg_inv_quiet) auto

lemma activity_ok_end: "activity_ok (end_session rt) ag act \<longleftrightarrow> activity_ok rt ag act"
  by (cases act) (simp_all add: out_of_range_def)

lemma sg_inv_activate:
  assumes "sg_inv n c img" "n < 2 ^ 64 - 1" "busy (cf_running c ag) = None" "\<not> out_of_range (cf_rt c) g"
    and "activate_section (cf_rt c) ms g = (rt', l)"
  shows "sg_inv (Suc n) (at_point c ag rt' (Loading l)) img"
proof -
  let ?rt = "(cf_rt c)\<lparr>sg_state := (sg_state (cf_rt c))\<lparr>act_sg := g, last_act_tm_ms := ms\<rparr>\<rparr>"
  have "compatible (cf_rt c) ?rt"
    using sg_invD(1,2) [OF assms(1)] assms(4) by (simp add: compatible_def session_ok_def out_of_range_def)
  then show ?thesis
    using sg_inv_active_load [OF assms(1-3), of ?rt rt' l] assms(5) by (simp add: activate_section_def)
qed

text \<open>A change of the values of one group, followed by a load when that group is active.\<close>

lemma sg_inv_group_change:
  assumes inv: "sg_inv n c img" and small: "n < 2 ^ 64 - 1" and free: "busy (cf_running c ag) = None"
    and rt: "rt = cf_rt c \<or> rt = end_session (cf_rt c)" and g: "0 < g"
    and like: "list_all2 (leaf_like (unat g - 1)) (settings (cf_rt c)) leaves"
    and rt': "rt' = rt\<lparr>settings := leaves\<rparr>"
    and r: "(if g = act_sg (sg_state rt') then case prepare_load rt' Active g of (rt'', l) \<Rightarrow> (rt'', Inr (Some l)) else (rt', Inr None))
      = (rt'', res)"
  shows "sg_inv (Suc n) (at_point c ag rt'' (after_section res)) img"
proof -
  have compat: "compatible (cf_rt c) rt"
    using rt compatible_refl [OF inv] compatible_end [OF inv] by blast
  have same: "settings rt = settings (cf_rt c)" "act_sg (sg_state rt) = act_sg (sg_state (cf_rt c))" using rt by auto
  have compat': "compatible (cf_rt c) rt'"
    using compat like_cells [OF like] like_leaves_ok [OF like] sg_invD(1) [OF inv]
    unfolding rt' by (auto simp: compatible_def session_ok_def out_of_range_def)
  show ?thesis
  proof (cases "g = act_sg (sg_state rt')")
    case True
    then show ?thesis using sg_inv_active_load [OF inv small free compat'] r by (auto split: prod.splits)
  next
    case False
    have "unat g - 1 \<noteq> unat (act_sg (sg_state rt')) - 1"
    proof
      assume "unat g - 1 = unat (act_sg (sg_state rt')) - 1"
      moreover have "0 < act_sg (sg_state rt')" using compat' by (simp add: compatible_def session_ok_def in_range_iff)
      ultimately have "unat g = unat (act_sg (sg_state rt'))" using g by (simp add: word_less_nat_alt)
      then show False using False by (simp add: word_unat_eq_iff)
    qed
    from like_group_writes [OF like this, of Active] have "sg_inv n (at_point c ag rt' NotRunning) img"
      using inv free compat' same by (intro sg_inv_quiet) (auto simp: rt')
    then show ?thesis using False r sg_inv_mono by fastforce
  qed
qed

lemma sg_inv_commit:
  assumes inv: "sg_inv n c img" "n < 2 ^ 64 - 1" and free: "busy (cf_running c ag) = None"
    and commit: "confirm_commit (cf_rt c) (cf_cells c) g number conn = (rt', r)"
  shows "sg_inv (Suc n) (at_point c ag rt' (after_section r)) img"
proof (cases "edit_sg (sg_state (cf_rt c)) \<noteq> g \<or> editing_conn (sg_state (cf_rt c)) \<noteq> Some conn \<or> session (sg_state (cf_rt c)) \<noteq> number")
  case True
  then have "rt' = cf_rt c" "r = Inl ObjectAccessDenied" using commit by (auto simp: confirm_commit_def Let_def)
  then show ?thesis using sg_inv_begin [OF inv(1) free, of NotRunning rt'] sg_inv_mono [of n _ img "Suc n"] by simp
next
  case False
  let ?leaves = "map (store_leaf (cf_cells c) (unat g - 1)) (settings (cf_rt c))"
  have "0 < g" using sg_invD(2) [OF inv(1)] False by (auto simp: session_ok_def word_neq_0_conv [symmetric] simp del: word_neq_0_conv)
  then show ?thesis
    using sg_inv_group_change [OF inv free, of "end_session (cf_rt c)" g ?leaves
        "end_session (cf_rt c)\<lparr>settings := ?leaves\<rparr>" rt' r] map_like [of "leaf_like (unat g - 1)", OF leaf_like_store]
      commit False by (auto simp: confirm_commit_def Let_def split: if_splits)
qed

lemma sg_inv_set_value:
  assumes inv: "sg_inv n c img" "n < 2 ^ 64 - 1" and free: "busy (cf_running c ag) = None"
    and sect: "set_group_section (cf_rt c) g da v = (rt', r)"
  shows "sg_inv (Suc n) (at_point c ag rt' (after_section r)) img"
proof (cases "\<exists>e. r = Inl e")
  case True
  then have "rt' = cf_rt c" using sect by (auto simp: set_group_section_def Let_def split: if_splits option.splits prod.splits)
  then show ?thesis using True sg_inv_begin [OF inv(1) free, of NotRunning rt'] sg_inv_mono [of n _ img "Suc n"] by auto
next
  case False
  let ?leaves = "update_first (\<lambda>leaf. holds leaf da) (\<lambda>leaf. leaf\<lparr>sl_groups := (sl_groups leaf)[unat g - 1 := v]\<rparr>) (settings (cf_rt c))"
  let ?rt = "(cf_rt c)\<lparr>settings := ?leaves\<rparr>"
  have "\<not> out_of_range (cf_rt c) g" using False sect by (auto simp: set_group_section_def split: if_splits)
  then have "0 < g" by (simp add: in_range_iff)
  moreover have "list_all2 (leaf_like (unat g - 1)) (settings (cf_rt c)) ?leaves"
    by (rule update_first_like) (auto intro: leaf_like_update leaf_like_refl)
  moreover have "(if g = act_sg (sg_state ?rt) then case prepare_load ?rt Active g of (rt'', l) \<Rightarrow> (rt'', Inr (Some l)) else (?rt, Inr None)) = (rt', r)"
    using sect False by (auto simp: set_group_section_def snapshot_def Let_def split: if_splits option.splits)
  ultimately show ?thesis using sg_inv_group_change [OF inv free, of "cf_rt c" g ?leaves ?rt rt' r] by simp
qed

subsection \<open>Every step keeps the invariant\<close>

lemma edit_begin_open: "edit_begin rt now g conn = (rt', Inr True) \<Longrightarrow> \<not> out_of_range rt' g"
  by (auto simp: edit_begin_def in_range_iff Let_def split: if_splits)

lemma session_of_holder: "edit_session_of rt now conn = (rt', Some es) \<Longrightarrow> es_conn_id es = conn"
  by (auto simp: edit_session_of_def Let_def split: if_splits)

lemma sg_inv_begin_request:
  assumes inv: "sg_inv n c img" and small: "n < 2 ^ 64 - 1" and idle: "cf_running c ag = NotRunning"
  shows "sg_inv (Suc n) (begin_request c ag req now ms) img"
proof -
  have free: "busy (cf_running c ag) = None" using idle by simp
  have mono: "sg_inv n d img \<Longrightarrow> sg_inv (Suc n) d img" for d by (erule sg_inv_mono) simp
  have stay: "sg_inv (Suc n) c img" by (rule mono [OF inv])
  note quiet = mono [OF sg_inv_begin [OF inv free]]
  show ?thesis
  proof (cases ag)
    case (Client conn)
    show ?thesis
    proof (cases req)
      case (SelectActive g)
      then show ?thesis using Client stay quiet [of "Selecting g" "cf_rt c"] by simp
    next
      case (EditRequest g)
      obtain rt' r where b: "edit_begin (cf_rt c) now g conn = (rt', r)" by fastforce
      then have "rt' = cf_rt c \<or> rt' = end_session (cf_rt c)" using begin_sections by blast
      then show ?thesis using b Client EditRequest quiet [of "Opening g" rt'] quiet [of NotRunning rt'] edit_begin_open
        by (auto split: sum.splits bool.splits)
    next
      case (Confirm v)
      obtain rt' r where b: "confirm_begin (cf_rt c) now v conn = (rt', r)" by fastforce
      then have rt': "rt' = cf_rt c \<or> rt' = end_session (cf_rt c)" using begin_sections by blast
      show ?thesis
      proof (cases r)
        case (Inr p)
        then show ?thesis using b Client Confirm quiet [of "Committing (fst p) (snd p)" rt', OF _ rt'] by (cases p) simp
      qed (use b Client Confirm quiet [of NotRunning rt', OF _ rt'] in simp)
    next
      case (WriteSettings ws)
      obtain rt' r where b: "edit_session_of (cf_rt c) now conn = (rt', r)" by fastforce
      then have rt': "rt' = cf_rt c \<or> rt' = end_session (cf_rt c)" using begin_sections by blast
      show ?thesis
      proof (cases r)
        case (Some es)
        have "settings rt' = settings (cf_rt c)" using rt' by auto
        then have "list_all (\<lambda>w. fst w \<in> set (cells_of Edit (settings (cf_rt c)))) ws \<Longrightarrow> activity_ok rt' ag (SeWriting es ws)"
          using session_of_holder b Some Client by (auto simp: list_all_iff)
        then show ?thesis using b Client WriteSettings Some stay quiet [of "SeWriting es ws" rt', OF _ rt'] by (simp del: activity_ok.simps)
      qed (use b Client WriteSettings stay quiet [of NotRunning rt', OF _ rt'] in simp)
    qed (use Client stay in simp_all)
  next
    case (Application k)
    show ?thesis
    proof (cases req)
      case (ForceActive g)
      then show ?thesis
        using Application stay sg_inv_activate [OF inv small free] by (auto split: prod.splits)
    next
      case (SetValue g da v)
      then show ?thesis using Application sg_inv_set_value [OF inv small free] by (auto split: prod.splits)
    qed (use Application stay in simp_all)
  qed
qed

lemma sg_inv_proceed:
  assumes inv: "sg_inv n c img" and small: "n < 2 ^ 64 - 1"
  shows "sg_inv (Suc n) (proceed c ag (cf_running c ag) ok now ms) (session_image c (Proceed ag ok now ms) img)"
proof -
  have mono: "sg_inv n d i \<Longrightarrow> sg_inv (Suc n) d i" for d i by (erule sg_inv_mono) simp
  note I5 = sg_invD(5) [OF inv, of ag]
  have quiet: "busy (cf_running c ag) = None \<Longrightarrow> sg_inv (Suc n) (at_point c ag (cf_rt c) NotRunning) img"
    using sg_inv_begin [OF inv, of ag NotRunning "cf_rt c"] mono by simp
  have same: "session_image c (Proceed ag ok now ms) img = img"
    if "\<And>g. cf_running c ag \<noteq> Opening g" "\<And>es ws. cf_running c ag \<noteq> SeWriting es ws"
    using that by (cases ag; cases "cf_running c ag") simp_all
  show ?thesis
  proof (cases "cf_running c ag")
    case NotRunning
    then show ?thesis using mono [OF inv] same by simp
  next
    case (Selecting g)
    then show ?thesis
      using same quiet I5 sg_inv_activate [OF inv small, of ag g ms] by (auto split: prod.splits)
  next
    case (Opening g)
    then obtain conn where ag: "ag = Client conn" and g: "\<not> out_of_range (cf_rt c) g" using I5 by auto
    obtain rt' r where b: "edit_open (cf_rt c) now g conn = (rt', r)" by fastforce
    show ?thesis
    proof (cases "ok \<and> \<not> held_by_another (cf_rt c) conn")
      case True
      then obtain l where "r = Inr l" using b by (auto simp: edit_open_def Let_def split: prod.splits)
      then show ?thesis
        using True b ag Opening sg_inv_edit_load [OF inv small _ g, of conn now rt' l] by simp
    next
      case False
      then have "ok \<Longrightarrow> rt' = cf_rt c \<and> r = Inl TemporarilyUnavailable" using b by (simp add: edit_open_def)
      then show ?thesis using False b ag Opening quiet by (cases ok) auto
    qed
  next
    case (Committing g number)
    then obtain conn where ag: "ag = Client conn" using I5 by auto
    then show ?thesis
      using Committing same quiet sg_inv_commit [OF inv small, of ag] by (auto split: prod.splits)
  next
    case (SeWriting es ws)
    have "ag = Client (es_conn_id es)" using I5 SeWriting by simp
    then show ?thesis
      using SeWriting quiet mono [OF sg_inv_se_write [OF inv SeWriting, of now]] by (auto simp: Let_def)
  next
    case (Loading l)
    then show ?thesis
      using same mono [OF inv] mono [OF sg_inv_lock [OF inv Loading]] mono [OF sg_inv_skip [OF inv Loading]] by auto
  next
    case (Storing l ws)
    show ?thesis
    proof (cases ws)
      case Nil
      then show ?thesis using Storing same mono [OF sg_inv_finish [OF inv]] by simp
    next
      case (Cons w ws')
      then show ?thesis using Storing same mono [OF sg_inv_store [OF inv]] by simp
    qed
  qed
qed

lemma sg_inv_step:
  assumes inv: "sg_inv n c img" and small: "n < 2 ^ 64 - 1"
  shows "sg_inv (Suc n) (sg_step c e) (session_image c e img)"
proof (cases e)
  case (Begin ag req now ms)
  then show ?thesis using sg_inv_begin_request [OF inv small] sg_inv_mono [OF inv, of "Suc n"] by simp
next
  case (Proceed ag ok now ms)
  then show ?thesis using sg_inv_proceed [OF inv small] by (simp del: session_image.simps)
next
  case (TickEvent now)
  then show ?thesis
    using sg_inv_mono [OF sg_inv_rt [OF inv expire_cases [of "cf_rt c" now]], of "Suc n"]
    by (simp add: expire_stale_session_if_any_def)
next
  case (Disconnect conn)
  then show ?thesis
    using sg_inv_mono [OF sg_inv_rt [OF inv, of "release_edit_session_for_conn (cf_rt c) conn"], of "Suc n"]
    by (simp add: release_edit_session_for_conn_def)
qed

lemma sg_inv_run:
  "sg_inv n c img \<Longrightarrow> n + length es < 2 ^ 64 \<Longrightarrow> sg_run es c img = (c', img') \<Longrightarrow> sg_inv (n + length es) c' img'"
proof (induction es arbitrary: n c img)
  case (Cons e es)
  have "sg_inv (Suc n) (sg_step c e) (session_image c e img)" using sg_inv_step [OF Cons.prems(1)] Cons.prems(2) by simp
  from Cons.IH [OF this] Cons.prems(2,3) show ?case by simp
qed simp

text \<open>A server that has been built: no request yet, and the FC=SG attributes show the active group.\<close>

definition started :: "sg_config \<Rightarrow> bool" where
  "started c \<longleftrightarrow>
     leaves_ok (num_of_sg (cf_rt c)) (settings (cf_rt c)) \<and> session_ok (cf_rt c) \<and>
     editing_conn (sg_state (cf_rt c)) = None \<and> active_loads (cf_rt c) = 0 \<and> edit_loads (cf_rt c) = 0 \<and>
     cf_running c = (\<lambda>ag. NotRunning) \<and> cf_lock c = None \<and>
     (\<forall>(a, v) \<in> set (group_writes (settings (cf_rt c)) Active (act_sg (sg_state (cf_rt c)))). cf_cells c a = v)"

lemma sg_inv_started: "started c \<Longrightarrow> sg_inv 0 c img"
  by (auto simp: started_def sg_inv_def active_inv_def edit_inv_def buf_inv_def)

section \<open>Whole operations\<close>

text \<open>A load nobody interferes with writes what \<open>run_load\<close> writes, and its agent is done.\<close>

lemma storing_runs_whole:
  "cf_running c ag = Storing l ws \<Longrightarrow> k = Suc (length ws) \<Longrightarrow>
     ((\<lambda>c. sg_step c (Proceed ag ok now ms)) ^^ k) c =
       c\<lparr>cf_cells := foldl write_setting (cf_cells c) ws, cf_running := (cf_running c)(ag := NotRunning), cf_lock := None\<rparr>"
proof (induction ws arbitrary: c k)
  case Nil
  then show ?case by (simp add: at_point_def fun_upd_def)
next
  case (Cons w ws)
  let ?c = "sg_step c (Proceed ag ok now ms)"
  have c: "?c = c\<lparr>cf_cells := write_setting (cf_cells c) w, cf_running := (cf_running c)(ag := Storing l ws)\<rparr>"
    using Cons.prems(1) by (simp add: at_point_def)
  have "((\<lambda>c. sg_step c (Proceed ag ok now ms)) ^^ k) c = ((\<lambda>c. sg_step c (Proceed ag ok now ms)) ^^ Suc (length ws)) ?c"
    by (simp only: Cons.prems(2) list.size(4) add_Suc_right add_0_right funpow_Suc_right [of "Suc (length ws)"] o_apply)
  also have "\<dots> = ?c\<lparr>cf_cells := foldl write_setting (cf_cells ?c) ws, cf_running := (cf_running ?c)(ag := NotRunning), cf_lock := None\<rparr>"
    using c by (intro Cons.IH) simp_all
  finally show ?case unfolding c by (simp add: fun_upd_def cong: if_cong)
qed

lemma load_runs_whole:
  assumes "cf_running c ag = Loading l" "cf_lock c = None" "is_latest (cf_rt c) l"
  shows "((\<lambda>c. sg_step c (Proceed ag ok now ms)) ^^ (length (ld_writes l) + 2)) c =
     c\<lparr>cf_cells := run_load (cf_rt c) l (cf_cells c), cf_running := (cf_running c)(ag := NotRunning)\<rparr>"
proof -
  let ?c = "sg_step c (Proceed ag ok now ms)"
  have c: "?c = c\<lparr>cf_running := (cf_running c)(ag := Storing l (ld_writes l)), cf_lock := Some ag\<rparr>"
    using assms by (simp add: at_point_def)
  have "((\<lambda>c. sg_step c (Proceed ag ok now ms)) ^^ (length (ld_writes l) + 2)) c =
      ((\<lambda>c. sg_step c (Proceed ag ok now ms)) ^^ Suc (length (ld_writes l))) ?c"
    by (simp only: add_2_eq_Suc' funpow_Suc_right [of "Suc (length (ld_writes l))"] o_apply)
  also have "\<dots> = ?c\<lparr>cf_cells := foldl write_setting (cf_cells ?c) (ld_writes l),
      cf_running := (cf_running ?c)(ag := NotRunning), cf_lock := None\<rparr>"
    using c by (intro storing_runs_whole) simp_all
  finally show ?thesis using assms(2,3) unfolding c by (cases c) (simp add: run_load_def fun_upd_def cong: if_cong)
qed

section \<open>What the setting groups promise\<close>

text \<open>
  C5. The FC=SG attributes follow the active group. However the requests of the associations and the application
  interleave, expire and break off, once no operation is under way each active attribute holds the value the active
  group has for its setting. This holds for as many steps as the 64-bit counters of loads can tell apart.
\<close>

theorem attributes_follow_active_group:
  assumes "started c" "length es < 2 ^ 64" "sg_run es c img = (c', img')" "\<forall>ag. cf_running c' ag = NotRunning"
    and "leaf \<in> set (settings (cf_rt c'))" "sl_active leaf = Some a"
  shows "\<not> out_of_range (cf_rt c') (act_sg (sg_state (cf_rt c'))) \<and>
     cf_cells c' a = sl_groups leaf ! (unat (act_sg (sg_state (cf_rt c'))) - 1)"
proof -
  have inv: "sg_inv (length es) c' img'" using sg_inv_run [OF sg_inv_started [OF assms(1)] _ assms(3)] assms(2) by simp
  note I = sg_invD [OF inv]
  let ?act = "act_sg (sg_state (cf_rt c'))"
  have range: "\<not> out_of_range (cf_rt c') ?act" using I(2) by (simp add: session_ok_def)
  have "length (sl_groups leaf) = unat (num_of_sg (cf_rt c'))" using I(1) assms(5) by (simp add: leaves_ok_def)
  then have "unat ?act - 1 < length (sl_groups leaf)"
    using range by (auto simp: in_range_iff word_le_nat_alt word_less_nat_alt)
  then have "leaf_write Active ?act leaf = Some (a, sl_groups leaf ! (unat ?act - 1))"
    using assms(6) by (simp add: leaf_write_def)
  then have "(a, sl_groups leaf ! (unat ?act - 1)) \<in> set (group_writes (settings (cf_rt c')) Active ?act)"
    using assms(5) unfolding group_writes_def List.map_filter_def by force
  then have "cf_cells c' a = sl_groups leaf ! (unat ?act - 1) \<or> pending (active_loads (cf_rt c')) (view Active \<circ> cf_running c') a"
    using buf_invD(6) [OF I(7) [unfolded active_inv_def]] by simp
  moreover have "\<not> pending (active_loads (cf_rt c')) (view Active \<circ> cf_running c') a"
    using assms(4) by (simp add: pending_def)
  ultimately show ?thesis using range by simp
qed


text \<open>
  C18. A held session is safe from other associations. While one association holds the edit session, no request of
  another changes the values of a group or the session, which stays open under its holder; the only exception is a
  reservation that has run out, which any request may end.
\<close>

theorem session_safe_from_others:
  assumes "editing_conn (sg_state (cf_rt c)) = Some holder" "other \<noteq> holder"
    and "e = Begin (Client other) req now ms \<or> e = Proceed (Client other) ok now ms"
  shows "settings (cf_rt (sg_step c e)) = settings (cf_rt c) \<and>
     (editing_conn (sg_state (cf_rt (sg_step c e))) = Some holder \<and>
        edit_sg (sg_state (cf_rt (sg_step c e))) = edit_sg (sg_state (cf_rt c)) \<and>
        session (sg_state (cf_rt (sg_step c e))) = session (sg_state (cf_rt c)) \<or>
      editing_conn (sg_state (cf_rt (sg_step c e))) = None \<and>
        (\<exists>d. reservation_deadline (sg_state (cf_rt c)) = Some d \<and> d \<le> now))"
proof -
  let ?ok = "\<lambda>rt'. settings rt' = settings (cf_rt c) \<and>
     (editing_conn (sg_state rt') = Some holder \<and> edit_sg (sg_state rt') = edit_sg (sg_state (cf_rt c)) \<and>
        session (sg_state rt') = session (sg_state (cf_rt c)) \<or>
      editing_conn (sg_state rt') = None \<and> (\<exists>d. reservation_deadline (sg_state (cf_rt c)) = Some d \<and> d \<le> now))"
  have same: "?ok (cf_rt c)" using assms(1) by simp
  have expired: "?ok (expire_stale_session_if_any (cf_rt c) now)"
    using assms(1) by (auto simp: expire_stale_session_if_any_def tick_reservation_at_def Let_def split: option.splits)
  have ended: "?ok (end_session (expire_stale_session_if_any (cf_rt c) now))"
    if "\<not> held_by_another (expire_stale_session_if_any (cf_rt c) now) other"
    using that assms(1,2) expired by (auto simp: held_by_another_def split: option.splits)
  have "?ok (cf_rt (begin_request c (Client other) req now ms))"
    using same expired ended
    by (cases req) (auto simp: edit_begin_def confirm_begin_def edit_session_of_def at_point_def Let_def split: if_splits)
  moreover have "?ok (cf_rt (proceed c (Client other) (cf_running c (Client other)) ok now ms))"
    using same assms(1,2)
    by (cases "(c, Client other, cf_running c (Client other), ok, now, ms)" rule: proceed.cases)
      (auto simp: activate_section_def prepare_load_def edit_open_def held_by_another_def confirm_commit_def at_point_def Let_def)
  moreover have "sg_step c e = c \<or> sg_step c e = begin_request c (Client other) req now ms \<or>
      sg_step c e = proceed c (Client other) (cf_running c (Client other)) ok now ms"
    using assms(3) by auto
  ultimately show ?thesis using same by (elim disjE) (simp_all only:)
qed


lemma lookup_set_runtime: "lookup reg domain = Some rt \<Longrightarrow> lookup (set_runtime reg domain rt') domain = Some rt'"
proof -
  have "map_of xs domain = Some rt \<Longrightarrow> map_of (map (\<lambda>(d, x). (d, if d = domain then rt' else x)) xs) domain = Some rt'" for xs
    by (induction xs) auto
  then show "lookup reg domain = Some rt \<Longrightarrow> lookup (set_runtime reg domain rt') domain = Some rt'"
    by (simp add: lookup_def set_runtime_def)
qed

lemma activated_values:
  assumes "leaves_ok (num_of_sg rt) (settings rt)" "\<not> out_of_range rt g" "leaf \<in> set (settings rt)" "sl_active leaf = Some a"
  shows "snd (activate rt cells ms g) a = sl_groups leaf ! (unat g - 1)"
proof -
  have "length (sl_groups leaf) = unat (num_of_sg rt)" using assms(1,3) by (simp add: leaves_ok_def)
  then have "leaf_write Active g leaf = Some (a, sl_groups leaf ! (unat g - 1))"
    using assms(2,4) by (auto simp: leaf_write_def in_range_iff word_le_nat_alt word_less_nat_alt)
  then have "(a, sl_groups leaf ! (unat g - 1)) \<in> set (group_writes (settings rt) Active g)"
    using assms(3) unfolding group_writes_def List.map_filter_def by force
  from foldl_write_in [OF group_writes_dom(2) [OF assms(1,2)] this] show ?thesis
    by (simp add: activate_def activate_section_def prepare_load_def run_load_def is_latest_def)
qed

text \<open>
  C19. A group a client selects is the group in effect. When a write of \<open>ActSG\<close> succeeds, the value was in range, a read
  returns it, and each FC=SG attribute of the logical device holds the value that group has for it.
\<close>

theorem selected_group_takes_effect:
  assumes "lookup reg domain = Some rt" "leaves_ok (num_of_sg rt) (settings rt)"
    and "handle_sgcb_write reg cells env domain ActSg d conn = ((reg', cells'), WriteSuccess)"
  shows "\<exists>v. unsigned_to_u8 d = Some v \<and> \<not> out_of_range rt v \<and>
     handle_sgcb_read reg' domain ActSg = Success (DataUnsigned (ucast v)) \<and>
     (\<forall>leaf\<in>set (settings rt). \<forall>a. sl_active leaf = Some a \<longrightarrow> cells' a = sl_groups leaf ! (unat v - 1))"
proof -
  obtain v where v: "unsigned_to_u8 d = Some v" using assms(1,3) by (auto simp: handle_sgcb_write_def split: option.splits)
  let ?r = "try_select_active_sg rt cells (now_ms env) (allowed env) v"
  have r: "reg' = set_runtime reg domain (fst (fst ?r))" "cells' = snd (fst ?r)" "write_answer (snd ?r) = WriteSuccess"
    using assms(1,3) v by (auto simp: handle_sgcb_write_def Let_def split: prod.splits)
  then have range: "\<not> out_of_range rt v" "allowed env" by (auto simp: try_select_active_sg_def split: if_splits)
  then have act: "fst ?r = activate rt cells (now_ms env) v" by (simp add: try_select_active_sg_def)
  have "handle_sgcb_read reg' domain ActSg = Success (DataUnsigned (ucast v))"
    unfolding r(1) act handle_sgcb_read_def lookup_set_runtime [OF assms(1)]
    by (simp add: activate_def activate_section_def prepare_load_def snapshot_def Let_def)
  then show ?thesis using v range(1) activated_values [OF assms(2) range(1)] r(2) act by simp
qed

section \<open>Concrete instances\<close>

definition sample_sg :: sg_config where
  "sample_sg =
     \<lparr>cf_rt = (with_writer 0 2 1 True 60)\<lparr>settings := [\<lparr>sl_active = Some 0, sl_edit = Some 1, sl_groups = [Integer 10, Integer 20]\<rparr>]\<rparr>,
      cf_cells = (\<lambda>a. Integer 10), cf_running = (\<lambda>ag. NotRunning), cf_lock = None\<rparr>"

lemma sample_sg_started: "started sample_sg"
  by (simp add: started_def sample_sg_def with_writer_def leaves_ok_def cells_of_def session_ok_def out_of_range_def
      group_writes_def leaf_write_def List.map_filter_simps)

text \<open>The application changes the second group while a client is selecting it; the load of the client comes too late.\<close>

definition sample_overlap :: "sg_event list" where
  "sample_overlap =
     [Begin (Client 1) (SelectActive 2) 0 0, Proceed (Client 1) True 0 0,
      Begin (Application 0) (SetValue 2 0 (Integer 30)) 0 0, Proceed (Application 0) True 0 0, Proceed (Client 1) True 0 0,
      Proceed (Application 0) True 0 0, Proceed (Application 0) True 0 0, Proceed (Client 1) True 0 0]"

lemmas sg_eval = sample_sg_def with_writer_def at_point_def out_of_range_def activate_section_def prepare_load_def
  group_writes_def leaf_write_def List.map_filter_simps set_group_section_def holds_def snapshot_def is_latest_def
  write_setting_def

theorem attributes_follow_active_group_witness:
  "cf_cells (fst (sg_run sample_overlap sample_sg (\<lambda>a. Integer 0))) 0 = Integer 30"
proof -
  obtain c' img' where run: "sg_run sample_overlap sample_sg (\<lambda>a. Integer 0) = (c', img')" by fastforce
  have quiet: "\<forall>ag. cf_running c' ag = NotRunning"
    and leaves: "settings (cf_rt c') = [\<lparr>sl_active = Some 0, sl_edit = Some 1, sl_groups = [Integer 10, Integer 30]\<rparr>]"
    and act: "act_sg (sg_state (cf_rt c')) = 2"
    using run by (auto simp: sample_overlap_def sg_eval Let_def)
  have "length sample_overlap < 2 ^ 64" by (simp add: sample_overlap_def)
  from attributes_follow_active_group [OF sample_sg_started this run quiet, of "hd (settings (cf_rt c'))" 0]
  show ?thesis using leaves act run by simp
qed


definition sample_edit :: "sg_event list" where
  "sample_edit =
     [Begin (Client 1) (EditRequest 2) 0 0, Proceed (Client 1) True 0 0, Proceed (Client 1) True 0 0,
      Proceed (Client 1) True 0 0, Proceed (Client 1) True 0 0,
      Begin (Client 1) (WriteSettings [(1, Integer 99)]) 0 0, Proceed (Client 1) True 0 0,
      Begin (Client 1) (Confirm True) 0 0]"

lemmas session_eval = sg_eval edit_begin_def edit_open_def expire_stale_session_if_any_def tick_reservation_at_def
  held_by_another_def instant_add_def edit_session_of_def hold_edit_session_def is_current_def confirm_begin_def cells_of_def


definition sample_held :: sg_config where
  "sample_held = sample_sg\<lparr>cf_rt := (cf_rt sample_sg)\<lparr>sg_state := (sg_state (cf_rt sample_sg))\<lparr>
     edit_sg := 2, editing_conn := Some 1, reservation_deadline := Some 60, session := 1\<rparr>\<rparr>\<rparr>"

theorem session_safe_from_others_witness:
  "editing_conn (sg_state (cf_rt (sg_step sample_held (Begin (Client 2) (EditRequest 1) 5 0)))) = Some 1"
  using session_safe_from_others [of sample_held 1 2 "Begin (Client 2) (EditRequest 1) 5 0" "EditRequest 1" 5 0 True]
  by (auto simp: sample_held_def simp del: sg_step.simps)

definition sample_registry :: sg_registry where
  "sample_registry = \<lparr>rg_inner = [(''LD0'', cf_rt sample_sg)], rg_time_quality = 10\<rparr>"

theorem selected_group_takes_effect_witness:
  "snd (fst (handle_sgcb_write sample_registry (\<lambda>a. Integer 10) \<lparr>now_ms = 0, entry_now = 0, locked_now = 0, allowed = True\<rparr>
     ''LD0'' ActSg (DataUnsigned 2) 1)) 0 = Integer 20"
proof -
  let ?w = "handle_sgcb_write sample_registry (\<lambda>a. Integer 10) \<lparr>now_ms = 0, entry_now = 0, locked_now = 0, allowed = True\<rparr>
     ''LD0'' ActSg (DataUnsigned 2) 1"
  have look: "lookup sample_registry ''LD0'' = Some (cf_rt sample_sg)" by (simp add: lookup_def sample_registry_def)
  have ok: "leaves_ok (num_of_sg (cf_rt sample_sg)) (settings (cf_rt sample_sg))"
    using sample_sg_started by (simp add: started_def)
  have "snd ?w = WriteSuccess"
    using look by (simp add: handle_sgcb_write_def unsigned_to_u8_def try_select_active_sg_def sample_sg_def with_writer_def
        out_of_range_def split: prod.splits)
  then have w: "?w = ((fst (fst ?w), snd (fst ?w)), WriteSuccess)" by (metis prod.collapse)
  have "unsigned_to_u8 (DataUnsigned 2) = Some 2" by (simp add: unsigned_to_u8_def)
  with selected_group_takes_effect [OF look ok w] show ?thesis by (auto simp: sample_sg_def with_writer_def)
qed

end
