(* ===== verification/Spec2Isabelle.thy ===== *)
theory Spec2Isabelle
  imports Brcb_Engine Convert Control_Timer Goose_Link Cotp_Transfer Setting_Interleaving
begin

text \<open>
  A verification development for the IEC 61850 protocol stack in Rust under src/crates.

  \<^bold>\<open>The program.\<close> A server holds a data model and serves it to clients over MMS, which runs on a transport
  connection (TPKT and COTP class 0) over a byte stream. Among its services are buffered reports (a control block
  buffers what changes and sends it to the client that enabled it), controls (a client selects and operates an object,
  one client at a time) and setting groups (alternative sets of parameters, one active, one being edited). Beside the
  connection, GOOSE messages go from a publisher straight onto Ethernet and are taken up by subscribers.

  \<^bold>\<open>Conventions.\<close> A \<open>Result\<close> is a sum with \<open>Inl\<close> for the error, an \<open>Option\<close> is \<open>option\<close>, a byte slice a list of 8-bit
  words, a \<open>usize\<close> that counts things in memory a natural number; every other integer is a word of its width and wraps
  as the code does. Floats are bit patterns. Instants and durations are natural numbers of nanoseconds unless a theory
  says otherwise. Code that waits, calls an application or runs on several threads is split at the points where it
  releases its locks: an operation is one function per critical section, and what it does afterwards is returned or is
  a step of its own. Poisoned locks do not occur. Tracing output is left out.

  \<^bold>\<open>The theories.\<close> Prelude holds the integer operations of the standard library, the lemmas all share
  and the contract of components whose operations keep an invariant, which the GOOSE publisher and receiver meet.

  \<^item> Values and codecs. Model_Value: \<open>MmsValue\<close> and \<open>UtcTime\<close> (iec61850-model/src/value.rs, utc_time.rs). Ber: length
    fields and integer contents (iec61850-asn1). Mms_Data: \<open>Data\<close>, names, access results (mms/pdu/common.rs).
    Binary_Time: mms/binary_time.rs. Convert: the conversions of service/convert.rs and mms_compat.rs. Flags: flags.rs
    and \<open>OptFlds\<close> of cb.rs. The lemmas are round trips, bounds on what a decoder consumes and how deep it nests, and
    the two places where an encoding does not read back.
  \<^item> Buffered reports (iec61850-server/src/reporting). Report_Buffer: buffer.rs, the \<open>ReportBufferBackend\<close> contract as a locale
    and the in-memory backend as its interpretation, which refines a plain list. Report_Channel: sink.rs and the
    delivery of segments over a bounded channel, the tokio channel being a parameter. Brcb: brcb.rs with the flush of
    engine.rs. Brcb_Transmit and Brcb_Delivery: what the client gets, in order and exactly once unless the buffer
    overflowed, segment by segment through a full channel. Brcb_Service and Brcb_Engine: SetBRCBValues and
    GetBRCBValues of service.rs, reservations, connection loss, and the invariant of the engine over all of them. The
    encoder of a report is a parameter.
  \<^item> Controls (iec61850-server/src/control). Control_Model: model.rs, state.rs, handler.rs and the client's encoders.
    Control_Object: the operations of object.rs under its mutex. Control_Engine: several tasks and timers on one object
    as steps of a system, with the invariant, exclusive operation by the holder and the order of the reports.
    Control_Timer: select timeouts neither early nor forgotten.
  \<^item> Setting groups (iec61850-server/src/setting_groups.rs). Setting_Groups: sessions, values, loads, the registry and the
    wire access. Setting_Interleaving: all agents at once; the attributes follow the active group, a commit stores what
    its session edited, and others cannot disturb a session.
  \<^item> Transport (iec61850-mms/src/iso). Cotp_Tpdu: tpkt.rs and the TPDUs of cotp.rs. Cotp_Connection: the connection with
    its read that can be abandoned and resumed. Cotp_Transfer: agreement of the handshake, delivery of TSDUs over any
    fragmentation, bounded memory against any peer.
  \<^item> GOOSE (iec61850-goose/src). Goose_Pdu and Goose_Frame: pdu.rs and frame.rs. Goose_Publisher: publisher.rs with its
    prebuilt frame and retransmissions. Goose_Subscriber: subscriber.rs. Goose_Receiver: dispatch by APPID of
    receiver.rs. Goose_Link: publisher and receiver joined, the listener hears each message once and in order.

  This theory joins the client's control encoder, the MMS codec and the server's parser.

  \<^bold>\<open>Bounds and termination.\<close> Every definition is total. Decoders recurse on what is left of the input or on the nesting
  limit the code has; the loops of the transport on the octets still to arrive; nothing uses fuel. Runs of a system are
  lists of events of any length, with one bound: the counters of setting group loads are words of 64 bits and tell apart
  fewer than 2 to the 64 steps.

  \<^bold>\<open>Parameters.\<close> Not part of the sources and therefore arguments with what the code relies on as hypotheses: the tokio
  channel of the reports, the report encoder, the byte stream (any results of its reads and writes), the clocks and the
  answers of application handlers (any values).

  \<^bold>\<open>Not modelled.\<close> The MMS service layer and its PDUs beyond data, names and results, the ISO session, presentation and
  ACSE layers, the client library beyond its encoders, the model tree with its builders and common data classes, data
  sets, unbuffered reports, logging, sampled values, SNTP and SCL: they are independent of the modelled parts or drive
  them through the interfaces modelled here. TLS, SQLite, Ethernet sockets, threads and tasks belong to libraries and the
  operating system. In the modelled components the reading of settings from the model tree, listeners and handlers
  themselves, and log output are left out, as each theory says.
\<close>


section \<open>A command from the client to the server\<close>

lemma cleared_oper_struct:
  "cleared (build_oper_struct v origin n t test s i) = build_oper_struct (cleared v) origin n t test s i"
  by (cases s; cases i) (simp_all add: build_oper_struct_def origin_to_mms_def check_bits_def bit_string_bytes_def)

lemma oper_struct_depth:
  "data_depth (client_value_to_data (build_oper_struct v origin n t test s i)) = max (Suc (data_depth (client_value_to_data v))) 2"
  by (simp add: build_oper_struct_def origin_to_mms_def check_bits_def)

lemma oper_struct_ok:
  assumes "data_ok (client_value_to_data v)" and "length (data_encode (client_value_to_data v)) \<le> 0xFF00"
    and "length (or_ident origin) \<le> 64"
  shows "data_ok (client_value_to_data (build_oper_struct v origin n t test s i))"
  using assms encode_int_length [of "scast (or_cat origin)"] encode_int_length [of "ucast n"]
  by (simp add: build_oper_struct_def origin_to_mms_def check_bits_def length_size_def)

text \<open>
  C14. An Operate reaches the server as the client meant it. Whatever value of up to 65280 octets, valid origin, sequence number,
  timestamp, test flag and checks a client puts into an Oper structure, the octets it writes decode at the
  server, with any octets behind them, to a value the server parses as exactly these parameters; only the
  unused bits of the bit strings in the control value are cleared, and no activation time is read into it.
\<close>

theorem oper_reaches_server:
  assumes "data_ok (client_value_to_data v)" and "length (data_encode (client_value_to_data v)) \<le> 0xFF00"
    and "origin_is_valid origin"
    and "data_depth (client_value_to_data v) < unat max_depth" and "2 \<le> unat max_depth" and "unat max_depth < 255"
  shows "\<exists>d. data_decode_with_max (data_encode (client_value_to_data (build_oper_struct v origin n t test s i)) @ rest) max_depth =
      Inr (d, length (data_encode (client_value_to_data (build_oper_struct v origin n t test s i))))
    \<and> oper_params_from_mms_value (data_to_value d) =
      Some \<lparr>op_ctl_val = cleared v, op_oper_tm_ms = 0, op_origin = origin, op_ctl_num = n, op_t = t,
        op_test = test, op_synchro_check = s, op_interlock_check = i\<rparr>"
proof -
  have "data_depth (client_value_to_data (build_oper_struct v origin n t test s i)) \<le> unat max_depth"
    using assms(4,5) by (simp add: oper_struct_depth)
  moreover have "data_ok (client_value_to_data (build_oper_struct v origin n t test s i))"
    using oper_struct_ok [OF assms(1,2)] assms(3) by (simp add: origin_is_valid_def)
  ultimately show ?thesis
    using decode_encoded [OF _ _ assms(6), of _ 0 rest]
    by (simp add: data_decode_with_max_def decode_outcome_def cleared_oper_struct oper_params_of_build)
qed

theorem oper_reaches_server_witness:
  "\<exists>d. data_decode_with_max (data_encode (client_value_to_data
        (build_oper_struct (Boolean True) origin_default 7 (Array8 1 2 3 4 5 6 7 8) False True False)) @ [9]) 32 =
      Inr (d, length (data_encode (client_value_to_data
        (build_oper_struct (Boolean True) origin_default 7 (Array8 1 2 3 4 5 6 7 8) False True False))))
    \<and> oper_params_from_mms_value (data_to_value d) =
      Some \<lparr>op_ctl_val = Boolean True, op_oper_tm_ms = 0, op_origin = origin_default, op_ctl_num = 7,
        op_t = Array8 1 2 3 4 5 6 7 8, op_test = False, op_synchro_check = True, op_interlock_check = False\<rparr>"
  using oper_reaches_server [of "Boolean True" origin_default 32 7 "Array8 1 2 3 4 5 6 7 8" False True False "[9]"]
  by (simp add: origin_is_valid_def origin_default_def)

end
